(* ===== verification/Prelude.thy ===== *)
theory Prelude
  imports Main "HOL-Library.Word" "HOL-Library.AList" "HOL-Library.Code_Target_Numeral"
begin

text \<open>
  What the components share: the widths of the machine integers, the
  finite maps, the part of Rust's standard library the service uses on text, bytes and integers
  (ASCII case folding, big-endian byte arrays, checked and saturating arithmetic, integer
  parsing), the errors, and the lemmas about them that the component theories rely on.

  Fixed byte arrays are words: a \<^verbatim>\<open>[u8; 32]\<close> is the 256-bit word whose big-endian bytes it
  holds, a \<^verbatim>\<open>[u8; 20]\<close> the 160-bit one; \<open>be_bytes\<close> gives the bytes back. A \<^verbatim>\<open>String\<close> is a list of
  ASCII characters. A \<^verbatim>\<open>HashMap\<close> is an association list in its (arbitrary) iteration order.
\<close>

section \<open>Types\<close>

type_synonym u8 = "8 word"
type_synonym u32 = "32 word"
type_synonym u64 = "64 word"
type_synonym u128 = "128 word"
type_synonym u256 = "256 word"
type_synonym b256 = "256 word"
type_synonym b160 = "160 word"
type_synonym byte = "8 word"
type_synonym tx_hash = b256
type_synonym address = b160
type_synonym account_id = "128 word"
type_synonym time = nat

type_synonym ('k, 'v) hashmap = "('k \<times> 'v) list"

named_theorems hashmap_simps \<open>lookup after an update of a finite map\<close>
named_theorems store_defs \<open>the definitions of the store's operations\<close>
named_theorems store_frame \<open>what an operation leaves unchanged\<close>

section \<open>Finite maps\<close>

definition hm_get :: "('k, 'v) hashmap \<Rightarrow> 'k \<Rightarrow> 'v option" where
  "hm_get m k = map_of m k"

definition hm_contains :: "('k, 'v) hashmap \<Rightarrow> 'k \<Rightarrow> bool" where
  "hm_contains m k = (hm_get m k \<noteq> None)"

definition hm_insert :: "'k \<Rightarrow> 'v \<Rightarrow> ('k, 'v) hashmap \<Rightarrow> ('k, 'v) hashmap" where
  "hm_insert k v m = AList.update k v m"

definition hm_remove :: "'k \<Rightarrow> ('k, 'v) hashmap \<Rightarrow> ('k, 'v) hashmap" where
  "hm_remove k m = AList.delete k m"

definition hm_map :: "('v \<Rightarrow> 'v) \<Rightarrow> ('k, 'v) hashmap \<Rightarrow> ('k, 'v) hashmap" where
  "hm_map f m = map (\<lambda>(k, v). (k, f v)) m"

text \<open>\<^verbatim>\<open>entry(k).or_insert(v)\<close>: keep a present value.\<close>

definition hm_or_insert :: "'k \<Rightarrow> 'v \<Rightarrow> ('k, 'v) hashmap \<Rightarrow> ('k, 'v) hashmap" where
  "hm_or_insert k v m = (if hm_contains m k then m else hm_insert k v m)"

text \<open>\<^verbatim>\<open>entry(k).or_default().push(x)\<close> on a map of vectors.\<close>

definition hm_push :: "'k \<Rightarrow> 'x \<Rightarrow> ('k, 'x list) hashmap \<Rightarrow> ('k, 'x list) hashmap" where
  "hm_push k x m = hm_insert k ((case hm_get m k of None \<Rightarrow> [] | Some xs \<Rightarrow> xs) @ [x]) m"

definition hm_keys :: "('k, 'v) hashmap \<Rightarrow> 'k list" where
  "hm_keys m = map fst m"

definition hm_wf :: "('k, 'v) hashmap \<Rightarrow> bool" where
  "hm_wf m = distinct (hm_keys m)"

lemma hm_get_empty [simp, hashmap_simps]: "hm_get [] k = None"
  by (simp add: hm_get_def)

lemma hm_get_insert [simp, hashmap_simps]:
  "hm_get (hm_insert k v m) k' = (if k' = k then Some v else hm_get m k')"
  by (simp add: hm_get_def hm_insert_def update_conv')

lemma hm_get_remove [simp, hashmap_simps]:
  "hm_get (hm_remove k m) k' = (if k' = k then None else hm_get m k')"
  by (simp add: hm_get_def hm_remove_def delete_conv')

lemma hm_get_map [simp, hashmap_simps]: "hm_get (hm_map f m) k = map_option f (hm_get m k)"
  by (induction m) (auto simp: hm_get_def hm_map_def)

lemma hm_contains_iff [simp]: "hm_contains m k \<longleftrightarrow> (\<exists>v. hm_get m k = Some v)"
  by (auto simp: hm_contains_def)

lemma hm_get_or_insert [simp, hashmap_simps]:
  "hm_get (hm_or_insert k v m) k' =
     (if k' = k then Some (case hm_get m k of None \<Rightarrow> v | Some w \<Rightarrow> w) else hm_get m k')"
  by (auto simp: hm_or_insert_def)

lemma hm_get_push [simp, hashmap_simps]:
  "hm_get (hm_push k x m) k' =
     (if k' = k then Some ((case hm_get m k of None \<Rightarrow> [] | Some xs \<Rightarrow> xs) @ [x]) else hm_get m k')"
  by (simp add: hm_push_def)

lemma hm_wf_empty [simp]: "hm_wf []"
  by (simp add: hm_wf_def hm_keys_def)

lemma hm_wf_insert [simp, intro]: "hm_wf m \<Longrightarrow> hm_wf (hm_insert k v m)"
  by (simp add: hm_wf_def hm_keys_def hm_insert_def distinct_update)

lemma hm_wf_remove [simp, intro]: "hm_wf m \<Longrightarrow> hm_wf (hm_remove k m)"
  by (simp add: hm_wf_def hm_keys_def hm_remove_def distinct_delete)

lemma hm_wf_map [simp]: "hm_wf (hm_map f m) = hm_wf m"
  by (simp add: hm_wf_def hm_keys_def hm_map_def case_prod_unfold comp_def)

lemma hm_wf_or_insert [simp, intro]: "hm_wf m \<Longrightarrow> hm_wf (hm_or_insert k v m)"
  by (simp add: hm_or_insert_def)

lemma hm_wf_push [simp, intro]: "hm_wf m \<Longrightarrow> hm_wf (hm_push k x m)"
  by (simp add: hm_push_def)

lemma hm_get_in: "hm_get m k = Some v \<Longrightarrow> (k, v) \<in> set m"
  by (simp add: hm_get_def map_of_SomeD)

lemma hm_in_get: "hm_wf m \<Longrightarrow> (k, v) \<in> set m \<Longrightarrow> hm_get m k = Some v"
  by (simp add: hm_get_def hm_wf_def hm_keys_def)

lemma set_hm_insert_fresh: "hm_get m k = None \<Longrightarrow> set (hm_insert k v m) = insert (k, v) (set m)"
  by (induction m) (auto simp: hm_get_def hm_insert_def split: if_splits)

lemma hm_set_iff: "hm_wf m \<Longrightarrow> (k, v) \<in> set m \<longleftrightarrow> hm_get m k = Some v"
  by (blast intro: hm_get_in hm_in_get)

lemma hm_keys_get: "k \<in> set (hm_keys m) \<longleftrightarrow> hm_get m k \<noteq> None"
  by (induction m) (auto simp: hm_keys_def hm_get_def)

lemma hm_values_ex: "hm_wf m \<Longrightarrow> (\<exists>x\<in>set m. P (snd x)) \<longleftrightarrow> (\<exists>k v. hm_get m k = Some v \<and> P v)"
  by (metis hm_set_iff prod.collapse snd_conv)

section \<open>Text\<close>

text \<open>\<^verbatim>\<open>str::to_lowercase\<close> and \<^verbatim>\<open>eq_ignore_ascii_case\<close> on ASCII text.\<close>

definition lower_char :: "char \<Rightarrow> char" where
  "lower_char c =
     (let n = (of_char c :: nat) in if 65 \<le> n \<and> n \<le> 90 then char_of (n + 32) else c)"

definition to_lowercase :: "string \<Rightarrow> string" where
  "to_lowercase s = map lower_char s"

definition eq_ignore_ascii_case :: "string \<Rightarrow> string \<Rightarrow> bool" where
  "eq_ignore_ascii_case a b = (to_lowercase a = to_lowercase b)"

lemma lower_char_idem [simp]: "lower_char (lower_char c) = lower_char c"
proof (cases "65 \<le> (of_char c :: nat) \<and> (of_char c :: nat) \<le> 90")
  case True
  then have "(of_char (char_of (of_char c + 32 :: nat)) :: nat) = of_char c + 32"
    by (simp add: of_char_of)
  with True show ?thesis by (simp add: lower_char_def Let_def)
next
  case False
  then show ?thesis by (auto simp: lower_char_def Let_def)
qed

lemma to_lowercase_idem [simp]: "to_lowercase (to_lowercase s) = to_lowercase s"
  by (simp add: to_lowercase_def)

lemma length_to_lowercase [simp]: "length (to_lowercase s) = length s"
  by (simp add: to_lowercase_def)

lemma to_lowercase_append: "to_lowercase (a @ b) = to_lowercase a @ to_lowercase b"
  by (simp add: to_lowercase_def)

lemma eq_ignore_ascii_case_refl [simp]: "eq_ignore_ascii_case s s"
  by (simp add: eq_ignore_ascii_case_def)

section \<open>Bytes\<close>

text \<open>\<^verbatim>\<open>to_be_bytes\<close>: the \<open>n\<close> low bytes of a word, most significant first, and back.\<close>

definition be_bytes :: "nat \<Rightarrow> 'a::len word \<Rightarrow> byte list" where
  "be_bytes n w = map (\<lambda>i. ucast (drop_bit (8 * i) w)) (rev [0..<n])"

definition le_bytes :: "nat \<Rightarrow> 'a::len word \<Rightarrow> byte list" where
  "le_bytes n w = map (\<lambda>i. ucast (drop_bit (8 * i) w)) [0..<n]"

fun from_le_bytes :: "byte list \<Rightarrow> 'a::len word" where
  "from_le_bytes [] = 0"
| "from_le_bytes (b # bs) = ucast b + 256 * from_le_bytes bs"

definition from_be_bytes :: "byte list \<Rightarrow> 'a::len word" where
  "from_be_bytes bs = from_le_bytes (rev bs)"

lemma length_be_bytes [simp]: "length (be_bytes n w) = n"
  by (simp add: be_bytes_def)

lemma length_le_bytes [simp]: "length (le_bytes n w) = n"
  by (simp add: le_bytes_def)

lemma rev_be_bytes [simp]: "rev (be_bytes n w) = le_bytes n w"
  by (simp add: be_bytes_def le_bytes_def rev_map)

lemma le_bytes_0 [simp]: "le_bytes 0 w = []"
  by (simp add: le_bytes_def)

lemma le_bytes_Suc:
  "le_bytes (Suc n) w = ucast w # le_bytes n (drop_bit 8 w)"
  by (simp add: le_bytes_def upt_conv_Cons map_Suc_upt [symmetric] comp_def ac_simps
      del: upt_Suc)

lemma word_split_byte:
  fixes w :: "'a::len word"
  assumes "8 \<le> LENGTH('a)"
  shows "ucast (ucast w :: byte) + 256 * drop_bit 8 w = w"
proof -
  have "(ucast (ucast w :: byte) :: 'a word) = take_bit 8 w"
    using assms by (simp add: unsigned_ucast_eq)
  moreover have "256 * drop_bit 8 w = push_bit 8 (drop_bit 8 w)"
    by (simp add: push_bit_eq_mult)
  ultimately show ?thesis
    by (simp add: push_bit_eq_mult drop_bit_eq_div take_bit_eq_mod mod_mult_div_eq)
qed

lemma from_le_bytes_le_bytes_gen:
  fixes w :: "'a::len word"
  assumes "8 \<le> LENGTH('a)" and "drop_bit (8 * n) w = 0"
  shows "from_le_bytes (le_bytes n w) = w"
  using assms(2)
proof (induction n arbitrary: w)
  case 0
  then show ?case by simp
next
  case (Suc n)
  have "drop_bit (8 * n) (drop_bit 8 w) = 0"
    using Suc.prems by (simp add: add.commute)
  then have "from_le_bytes (le_bytes n (drop_bit 8 w)) = drop_bit 8 w"
    by (rule Suc.IH)
  then show ?case
    using word_split_byte [OF assms(1), of w] by (simp add: le_bytes_Suc)
qed

lemma drop_bit_word_zero: "LENGTH('a) \<le> n \<Longrightarrow> drop_bit n (w :: 'a::len word) = 0"
  by (rule bit_word_eqI) (auto simp: bit_drop_bit_eq dest: bit_imp_le_length)

lemma from_be_bytes_be_bytes:
  fixes w :: "'a::len word"
  assumes "8 \<le> LENGTH('a)" and "LENGTH('a) \<le> 8 * n"
  shows "from_be_bytes (be_bytes n w) = w"
  using assms by (simp add: from_be_bytes_def from_le_bytes_le_bytes_gen drop_bit_word_zero)

lemma from_le_bytes_nat:
  "from_le_bytes bs = (word_of_nat (foldr (\<lambda>b n. unat b + 256 * n) bs 0) :: 'a::len word)"
  by (induction bs) (simp_all add: unsigned_ucast_eq)

lemma bytes_nat_bound: "foldr (\<lambda>b n. unat (b :: byte) + 256 * n) bs 0 < 256 ^ length bs"
proof (induction bs)
  case (Cons b bs)
  have "unat b < 256" using unsigned_less [where ?'a = nat and w = b] by simp
  with Cons show ?case by simp
qed simp

lemma unat_word_of_nat_small: "m < 2 ^ LENGTH('a::len) \<Longrightarrow> unat (word_of_nat m :: 'a word) = m"
  by (simp add: unsigned_of_nat take_bit_nat_eq_self)

lemma le_bytes_Suc_word_of_nat:
  assumes "unat (b :: byte) + 256 * n < 2 ^ LENGTH('a::len)"
  shows "le_bytes (Suc k) (word_of_nat (unat b + 256 * n) :: 'a word) = b # le_bytes k (word_of_nat n :: 'a word)"
proof -
  let ?m = "unat b + 256 * n"
  let ?w = "word_of_nat ?m :: 'a word"
  have b: "unat b < 256" using unsigned_less [where ?'a = nat and w = b] by simp
  have u: "unat ?w = ?m" using assms by (rule unat_word_of_nat_small)
  have "(ucast ?w :: byte) = word_of_nat (unat ?w)" by simp
  also have "\<dots> = word_of_nat ?m" by (simp only: u)
  also have "\<dots> = word_of_nat (unat b)" by (simp only: word_of_nat_eq_iff) (simp add: take_bit_eq_mod)
  also have "\<dots> = b" by simp
  finally have hd: "(ucast ?w :: byte) = b" .
  have "unat (drop_bit 8 ?w) = n"
    unfolding unat_drop_bit_eq u using b by (simp add: drop_bit_eq_div)
  then have "word_of_nat (unat (drop_bit 8 ?w)) = (word_of_nat n :: 'a word)" by (simp only:)
  then have tl: "drop_bit 8 ?w = word_of_nat n" by simp
  show ?thesis by (simp only: le_bytes_Suc hd tl)
qed

lemma le_bytes_word_of_nat:
  assumes "8 * length bs \<le> LENGTH('a::len)"
  shows "le_bytes (length bs) (word_of_nat (foldr (\<lambda>b n. unat b + 256 * n) bs 0) :: 'a word) = bs"
  using assms
proof (induction bs)
  case Nil
  then show ?case by simp
next
  case (Cons b bs)
  let ?n = "foldr (\<lambda>b n. unat (b :: byte) + 256 * n) bs 0"
  have "unat b + 256 * ?n < 256 ^ length (b # bs)" using bytes_nat_bound [of "b # bs"] by simp
  also have "(256 :: nat) ^ length (b # bs) = 2 ^ (8 * length (b # bs))"
    by (simp add: power_mult power_add)
  also have "\<dots> \<le> 2 ^ LENGTH('a)" using Cons.prems by (intro power_increasing) auto
  finally have "unat b + 256 * ?n < 2 ^ LENGTH('a)" .
  from le_bytes_Suc_word_of_nat [OF this] Cons show ?case
    by (simp del: of_nat_add of_nat_mult)
qed

lemma le_bytes_from_le_bytes:
  "8 * length bs \<le> LENGTH('a::len) \<Longrightarrow> n = length bs \<Longrightarrow>
     le_bytes n (from_le_bytes bs :: 'a word) = bs"
  by (simp only: from_le_bytes_nat le_bytes_word_of_nat)

lemma be_bytes_slice:
  assumes "k + m \<le> n"
  shows "take m (drop k (be_bytes n w)) = be_bytes m (drop_bit (8 * (n - k - m)) w)"
proof (rule nth_equalityI)
  show "length (take m (drop k (be_bytes n w))) = length (be_bytes m (drop_bit (8 * (n - k - m)) w))"
    using assms by simp
next
  fix i assume "i < length (take m (drop k (be_bytes n w)))"
  then have i: "i < m" by simp
  then have "8 * (n - Suc (k + i)) = 8 * (m - Suc i) + 8 * (n - k - m)" using assms by simp
  with i assms show "take m (drop k (be_bytes n w)) ! i = be_bytes m (drop_bit (8 * (n - k - m)) w) ! i"
    by (simp add: be_bytes_def rev_nth)
qed

lemma be_bytes_ucast:
  assumes "8 * n \<le> LENGTH('b::len)"
  shows "be_bytes n (ucast (w :: 'a::len word) :: 'b word) = be_bytes n w"
proof -
  have "(ucast (drop_bit (8 * i) (ucast w :: 'b word)) :: byte) = ucast (drop_bit (8 * i) w)" if "i < n" for i
  proof (rule bit_word_eqI)
    fix j assume "j < LENGTH(8)"
    then have "8 * i + j < LENGTH('b)" using that assms by simp
    then show "bit (ucast (drop_bit (8 * i) (ucast w :: 'b word)) :: byte) j = bit (ucast (drop_bit (8 * i) w) :: byte) j"
      by (simp add: bit_unsigned_iff bit_drop_bit_eq bit_take_bit_iff)
  qed
  then show ?thesis by (simp add: be_bytes_def)
qed

lemma be_bytes_zero_iff:
  fixes w :: "'a::len word"
  assumes "8 \<le> LENGTH('a)" and "drop_bit (8 * n) w = 0"
  shows "list_ex (\<lambda>b. b \<noteq> 0) (be_bytes n w) \<longleftrightarrow> w \<noteq> 0"
proof -
  have zero: "from_le_bytes bs = (0 :: 'a word)" if "\<forall>b \<in> set bs. b = 0" for bs
    using that by (induction bs) simp_all
  have "set (le_bytes n w) = set (be_bytes n w)" by (simp add: be_bytes_def le_bytes_def)
  then have "\<not> list_ex (\<lambda>b. b \<noteq> 0) (be_bytes n w) \<Longrightarrow> w = 0"
    using from_le_bytes_le_bytes_gen [OF assms] zero [of "le_bytes n w"] by (auto simp: list_ex_iff)
  then show ?thesis by (auto simp: be_bytes_def list_ex_iff)
qed

section \<open>Integers\<close>

definition checked_add :: "'a::len word \<Rightarrow> 'a word \<Rightarrow> 'a word option" where
  "checked_add a b = (if unat a + unat b < 2 ^ LENGTH('a) then Some (a + b) else None)"

definition checked_mul :: "'a::len word \<Rightarrow> 'a word \<Rightarrow> 'a word option" where
  "checked_mul a b = (if unat a * unat b < 2 ^ LENGTH('a) then Some (a * b) else None)"

definition checked_pow :: "'a::len word \<Rightarrow> nat \<Rightarrow> 'a word option" where
  "checked_pow a n = (if unat a ^ n < 2 ^ LENGTH('a) then Some (a ^ n) else None)"

definition saturating_add :: "'a::len word \<Rightarrow> 'a word \<Rightarrow> 'a word" where
  "saturating_add a b = (if unat a + unat b < 2 ^ LENGTH('a) then a + b else - 1)"

definition saturating_sub :: "'a::len word \<Rightarrow> 'a word \<Rightarrow> 'a word" where
  "saturating_sub a b = (if b \<le> a then a - b else 0)"

lemma checked_add_Some:
  "checked_add a b = Some c \<longleftrightarrow> unat a + unat b < 2 ^ LENGTH('a) \<and> c = (a + b :: 'a::len word)"
  by (auto simp: checked_add_def)

lemma unat_add_no_overflow:
  "unat (a :: 'a::len word) + unat b < 2 ^ LENGTH('a) \<Longrightarrow> unat (a + b) = unat a + unat b"
  by (simp add: unat_word_ariths)

lemma unat_mult_no_overflow:
  "unat (a :: 'a::len word) * unat b < 2 ^ LENGTH('a) \<Longrightarrow> unat (a * b) = unat a * unat b"
  by (simp add: unat_word_ariths)

lemma unat_pow_no_overflow:
  "unat (a :: 'a::len word) ^ n < 2 ^ LENGTH('a) \<Longrightarrow> unat (a ^ n) = unat a ^ n"
proof (induction n)
  case 0
  then show ?case by simp
next
  case (Suc n)
  show ?case
  proof (cases "a = 0")
    case True
    then show ?thesis by simp
  next
    case False
    then have "0 < unat a" by (simp add: unat_gt_0)
    then have le: "unat a ^ n \<le> unat a ^ Suc n"
      by (simp add: Suc_leI)
    with Suc have "unat (a ^ n) = unat a ^ n" by linarith
    with Suc.prems show ?thesis by (simp add: unat_mult_no_overflow)
  qed
qed

lemma unat_plus_one: "w \<noteq> - 1 \<Longrightarrow> unat (w + 1 :: 'a::len word) = Suc (unat w)"
proof -
  assume "w \<noteq> - 1"
  then have "unat w \<noteq> unat (- 1 :: 'a word)"
    using unsigned_word_eqI [where ?'a = nat] by blast
  then have "unat w \<noteq> 2 ^ LENGTH('a) - 1"
    by (simp add: unsigned_minus_1_eq_mask mask_eq_exp_minus_1)
  moreover have "unat w < 2 ^ LENGTH('a)" by (rule unsigned_less [where ?'a = nat])
  moreover have "unat (1 :: 'a word) = 1" by simp
  ultimately have "unat w + unat (1 :: 'a word) < 2 ^ LENGTH('a)" by linarith
  then show ?thesis by (simp add: unat_add_no_overflow)
qed

lemma word_less_plus_one: "w \<noteq> - 1 \<Longrightarrow> w < (w + 1 :: 'a::len word)"
  by (simp add: word_less_nat_alt unat_plus_one)

text \<open>\<^verbatim>\<open>u64::from_str_radix\<close> and \<^verbatim>\<open>str::parse::<u64>\<close>: an optional plus sign, at least one digit of
  the radix, \<^verbatim>\<open>Err\<close> on an empty text, a foreign character or an overflow.\<close>

definition digit_value :: "char \<Rightarrow> nat option" where
  "digit_value c =
     (let n = (of_char c :: nat)
      in if 48 \<le> n \<and> n \<le> 57 then Some (n - 48)
         else if 97 \<le> n \<and> n \<le> 122 then Some (n - 87)
         else if 65 \<le> n \<and> n \<le> 90 then Some (n - 55)
         else None)"

fun digits_value :: "nat \<Rightarrow> nat \<Rightarrow> string \<Rightarrow> nat option" where
  "digits_value radix acc [] = Some acc"
| "digits_value radix acc (c # cs) =
     (case digit_value c of
        None \<Rightarrow> None
      | Some d \<Rightarrow> if d < radix then digits_value radix (acc * radix + d) cs else None)"

definition u64_from_str_radix :: "string \<Rightarrow> nat \<Rightarrow> u64 option" where
  "u64_from_str_radix s radix =
     (let body = (case s of [] \<Rightarrow> [] | c # cs \<Rightarrow> if c = CHR ''+'' then cs else s)
      in if body = [] then None
         else case digits_value radix 0 body of
                None \<Rightarrow> None
              | Some n \<Rightarrow> if n < 2 ^ 64 then Some (of_nat n) else None)"

definition strip_prefix :: "string \<Rightarrow> string \<Rightarrow> string option" where
  "strip_prefix pre s = (if take (length pre) s = pre then Some (drop (length pre) s) else None)"

lemma strip_prefix_append [simp]: "strip_prefix pre (pre @ s) = Some s"
  by (simp add: strip_prefix_def)

end
