(* ===== verification/Externals.thy ===== *)
theory Externals
  imports Prelude
begin

text \<open>
  The third-party code the service calls, as parameters: one record of functions that the
  definitions using it take as their first argument. It stands for
  \<^item> \<^verbatim>\<open>sha3::Keccak256\<close> (the digest of a byte string),
  \<^item> the \<^verbatim>\<open>hex\<close> crate (\<^verbatim>\<open>encode\<close>, \<^verbatim>\<open>decode\<close>),
  \<^item> \<^verbatim>\<open>alloy\<close>'s text forms of hashes, addresses and byte strings (\<^verbatim>\<open>{:#x}\<close>, \<^verbatim>\<open>to_string\<close>, \<^verbatim>\<open>parse\<close>) and
    its header hash (\<^verbatim>\<open>Header::hash_slow\<close>, as a function of the number and the parent hash the
    source fills in),
  \<^item> \<^verbatim>\<open>lru::LruCache\<close>'s choice of the keys to drop.

  What theorems rely on of it is a predicate on the record, named after the documented behaviour
  it states; nothing else about these functions is assumed anywhere.
\<close>

record externals =
  ext_keccak :: "byte list \<Rightarrow> b256"
  ext_hex_encode :: "byte list \<Rightarrow> string"
  ext_hex_decode :: "string \<Rightarrow> byte list option"
  ext_fmt_hash :: "tx_hash \<Rightarrow> string"
  ext_parse_hash :: "string \<Rightarrow> tx_hash option"
  ext_fmt_address :: "address \<Rightarrow> string"
  ext_display_bytes :: "byte list \<Rightarrow> string"
  ext_fmt_txid :: "b256 \<Rightarrow> string"
  ext_header_hash :: "u64 \<Rightarrow> b256 \<Rightarrow> b256"
  ext_lru_evicted :: "nat \<Rightarrow> b256 list \<Rightarrow> b256 list"
  ext_bridge_address :: string

text \<open>\<^verbatim>\<open>{:#x}\<close> of a hash is lower case and \<^verbatim>\<open>parse\<close> reads it back.\<close>

definition hash_text_ok :: "externals \<Rightarrow> bool" where
  "hash_text_ok E =
     (\<forall>h. ext_parse_hash E (ext_fmt_hash E h) = Some h \<and>
          to_lowercase (ext_fmt_hash E h) = ext_fmt_hash E h)"

text \<open>\<^verbatim>\<open>hex::encode\<close> is lower case and \<^verbatim>\<open>hex::decode\<close> reads it back.\<close>

definition hex_ok :: "externals \<Rightarrow> bool" where
  "hex_ok E =
     (\<forall>bs. ext_hex_decode E (ext_hex_encode E bs) = Some bs \<and>
           to_lowercase (ext_hex_encode E bs) = ext_hex_encode E bs)"

text \<open>Two hex digits per byte, byte after byte.\<close>

definition hex_bytewise :: "externals \<Rightarrow> bool" where
  "hex_bytewise E =
     (\<forall>as bs. ext_hex_encode E (as @ bs) = ext_hex_encode E as @ ext_hex_encode E bs \<and>
              length (ext_hex_encode E as) = 2 * length as)"

text \<open>A cache within its capacity drops nothing, and never drops the key just put in.\<close>

definition lru_ok :: "externals \<Rightarrow> bool" where
  "lru_ok E =
     (\<forall>cap ks. (length ks \<le> cap \<longrightarrow> ext_lru_evicted E cap ks = []) \<and>
               (0 < cap \<longrightarrow> ks \<noteq> [] \<longrightarrow> hd ks \<notin> set (ext_lru_evicted E cap ks)))"

lemma hash_text_okD [simp]:
  "hash_text_ok E \<Longrightarrow> ext_parse_hash E (ext_fmt_hash E h) = Some h"
  "hash_text_ok E \<Longrightarrow> to_lowercase (ext_fmt_hash E h) = ext_fmt_hash E h"
  by (simp_all add: hash_text_ok_def)

lemma fmt_hash_inject: "hash_text_ok E \<Longrightarrow> ext_fmt_hash E a = ext_fmt_hash E b \<longleftrightarrow> a = b"
  by (metis hash_text_okD(1) option.inject)

lemma hex_encode_inject: "hex_ok E \<Longrightarrow> ext_hex_encode E a = ext_hex_encode E b \<longleftrightarrow> a = b"
  by (metis hex_ok_def option.inject)

section \<open>The cache\<close>

text \<open>\<^verbatim>\<open>LruCache\<close>, most recently used first: \<^verbatim>\<open>put\<close> moves its key to the front and may drop others;
  \<^verbatim>\<open>get\<close> and \<^verbatim>\<open>get_mut\<close> move it to the front; \<^verbatim>\<open>peek\<close>, \<^verbatim>\<open>contains\<close> and \<^verbatim>\<open>iter\<close> change nothing.\<close>

type_synonym 'v lru = "(b256, 'v) hashmap"

definition lru_put :: "externals \<Rightarrow> nat \<Rightarrow> b256 \<Rightarrow> 'v \<Rightarrow> 'v lru \<Rightarrow> 'v lru" where
  "lru_put E cap k v c =
     (let c' = (k, v) # hm_remove k c; dropped = ext_lru_evicted E cap (hm_keys c')
      in filter (\<lambda>(k', _). k' \<notin> set dropped) c')"

definition lru_touch :: "b256 \<Rightarrow> 'v lru \<Rightarrow> 'v lru" where
  "lru_touch k c = (case hm_get c k of None \<Rightarrow> c | Some v \<Rightarrow> (k, v) # hm_remove k c)"

definition lru_modify :: "b256 \<Rightarrow> ('v \<Rightarrow> 'v) \<Rightarrow> 'v lru \<Rightarrow> 'v lru" where
  "lru_modify k f c = (case hm_get c k of None \<Rightarrow> c | Some v \<Rightarrow> (k, f v) # hm_remove k c)"

lemma hm_get_Cons: "hm_get ((k, v) # m) k' = (if k' = k then Some v else hm_get m k')"
  by (simp add: hm_get_def)

lemma hm_get_filter_keys:
  "hm_get (filter (\<lambda>(k, _). P k) m) k' = (if P k' then hm_get m k' else None)"
  by (induction m) (auto simp: hm_get_def)

lemma hm_get_lru_put:
  "hm_get (lru_put E cap k v c) k' =
     (if k' \<in> set (ext_lru_evicted E cap (k # hm_keys (hm_remove k c))) then None
      else if k' = k then Some v else hm_get c k')"
  by (simp add: lru_put_def Let_def hm_get_filter_keys hm_get_Cons hm_keys_def)

lemma hm_get_lru_put_same [simp]:
  "lru_ok E \<Longrightarrow> 0 < cap \<Longrightarrow> hm_get (lru_put E cap k v c) k = Some v"
  using hm_get_lru_put [of E cap k v c k]
  by (simp add: lru_ok_def split: if_splits) (metis list.distinct(1) list.sel(1))

lemma hm_get_lru_put_mono:
  "hm_get (lru_put E cap k v c) k' = Some w \<Longrightarrow> k' \<noteq> k \<Longrightarrow> hm_get c k' = Some w"
  by (simp add: hm_get_lru_put split: if_splits)

lemma hm_get_lru_touch [simp]: "hm_get (lru_touch k c) k' = hm_get c k'"
  by (simp add: lru_touch_def hm_get_Cons split: option.splits)

lemma hm_get_lru_modify [simp]:
  "hm_get (lru_modify k f c) k' = (if k' = k then map_option f (hm_get c k) else hm_get c k')"
  by (simp add: lru_modify_def hm_get_Cons split: option.splits)

lemma hm_wf_Cons: "hm_wf ((k, v) # m) \<longleftrightarrow> hm_get m k = None \<and> hm_wf m"
  using hm_keys_get [of k m] by (auto simp: hm_wf_def hm_keys_def)

lemma hm_wf_filter [simp]: "hm_wf m \<Longrightarrow> hm_wf (filter P m)"
  by (simp add: hm_wf_def hm_keys_def distinct_map_filter)

lemma hm_wf_lru_put [simp, intro]: "hm_wf c \<Longrightarrow> hm_wf (lru_put E cap k v c)"
  unfolding lru_put_def Let_def
  by (rule hm_wf_filter) (simp add: hm_wf_Cons)

lemma hm_wf_lru_modify [simp, intro]: "hm_wf c \<Longrightarrow> hm_wf (lru_modify k f c)"
  by (simp add: lru_modify_def hm_wf_Cons split: option.splits)

lemma hm_wf_lru_touch [simp, intro]: "hm_wf c \<Longrightarrow> hm_wf (lru_touch k c)"
  by (simp add: lru_touch_def hm_wf_Cons split: option.splits)

section \<open>A concrete instance\<close>

text \<open>
  One instance of the parameters, so that statements with a hypothesis on them can be evaluated:
  plain lower-case hexadecimal, a small mixing function for the digests, and a cache that drops
  from its cold end.
\<close>

definition hex_digit :: "nat \<Rightarrow> char" where
  "hex_digit n = (if n < 10 then char_of (48 + n) else char_of (87 + n))"

definition hex_undigit :: "char \<Rightarrow> nat option" where
  "hex_undigit c =
     (let n = (of_char c :: nat)
      in if 48 \<le> n \<and> n \<le> 57 then Some (n - 48)
         else if 97 \<le> n \<and> n \<le> 102 then Some (n - 87)
         else if 65 \<le> n \<and> n \<le> 70 then Some (n - 55)
         else None)"

definition hex_byte :: "byte \<Rightarrow> string" where
  "hex_byte b = [hex_digit (unat b div 16), hex_digit (unat b mod 16)]"

definition plain_hex :: "byte list \<Rightarrow> string" where
  "plain_hex bs = concat (map hex_byte bs)"

fun plain_unhex :: "string \<Rightarrow> byte list option" where
  "plain_unhex [] = Some []"
| "plain_unhex [_] = None"
| "plain_unhex (c # d # cs) =
     (case (hex_undigit c, hex_undigit d, plain_unhex cs) of
        (Some x, Some y, Some bs) \<Rightarrow> Some (of_nat (16 * x + y) # bs)
      | _ \<Rightarrow> None)"

definition plain_hash_text :: "tx_hash \<Rightarrow> string" where
  "plain_hash_text h = ''0x'' @ plain_hex (be_bytes 32 h)"

definition plain_parse_hash :: "string \<Rightarrow> tx_hash option" where
  "plain_parse_hash s =
     (let body = (case strip_prefix ''0x'' s of None \<Rightarrow> s | Some r \<Rightarrow> r)
      in case plain_unhex body of
           None \<Rightarrow> None
         | Some bs \<Rightarrow> if length bs = 32 then Some (from_be_bytes bs) else None)"

definition demo_ext :: externals where
  "demo_ext =
     \<lparr>ext_keccak = (\<lambda>bs. foldl (\<lambda>h b. h * 31 + ucast b + 7) 1 bs),
      ext_hex_encode = plain_hex,
      ext_hex_decode = plain_unhex,
      ext_fmt_hash = plain_hash_text,
      ext_parse_hash = plain_parse_hash,
      ext_fmt_address = (\<lambda>a. ''0x'' @ plain_hex (be_bytes 20 a)),
      ext_display_bytes = (\<lambda>bs. ''0x'' @ plain_hex bs),
      ext_fmt_txid = plain_hash_text,
      ext_header_hash = (\<lambda>n p. p * 31 + ucast n + 1),
      ext_lru_evicted = (\<lambda>cap ks. filter (\<lambda>k. k \<noteq> hd ks) (drop cap ks)),
      ext_bridge_address = ''0xc8cbebf950b9df44d987c8619f092bea980ff038''\<rparr>"

lemma hex_digit_cases:
  "n < 16 \<Longrightarrow> hex_undigit (hex_digit n) = Some n \<and> lower_char (hex_digit n) = hex_digit n"
  by (auto simp: hex_undigit_def hex_digit_def lower_char_def Let_def)

lemma plain_hex_simps [simp]:
  "plain_hex [] = []" "plain_hex (b # bs) = hex_byte b @ plain_hex bs"
  by (simp_all add: plain_hex_def)

lemma unat_byte_digits:
  fixes b :: byte
  shows "unat b div 16 < 16" and "unat b mod 16 < 16"
    and "word_of_nat (16 * (unat b div 16) + unat b mod 16) = b"
proof -
  have "unat b < 256" using unsigned_less [where ?'a = nat and w = b] by simp
  then show "unat b div 16 < 16" by auto
  show "unat b mod 16 < 16" by simp
  have "16 * (unat b div 16) + unat b mod 16 = unat b" by simp
  then show "word_of_nat (16 * (unat b div 16) + unat b mod 16) = b"
    by simp
qed

lemma plain_unhex_hex [simp]: "plain_unhex (plain_hex bs) = Some bs"
proof (induction bs)
  case Nil
  then show ?case by simp
next
  case (Cons b bs)
  have d1: "hex_undigit (hex_digit (unat b div 16)) = Some (unat b div 16)"
    and d2: "hex_undigit (hex_digit (unat b mod 16)) = Some (unat b mod 16)"
    using hex_digit_cases unat_byte_digits(1,2) [of b] by auto
  show ?case
    by (simp only: plain_hex_simps hex_byte_def append.simps plain_unhex.simps d1 d2 Cons.IH
        option.case prod.case unat_byte_digits(3))
qed

lemma plain_hex_lower [simp]: "to_lowercase (plain_hex bs) = plain_hex bs"
  using hex_digit_cases unat_byte_digits(1,2)
  by (induction bs) (auto simp: to_lowercase_def hex_byte_def)

lemma length_plain_hex [simp]: "length (plain_hex bs) = 2 * length bs"
  by (induction bs) (auto simp: hex_byte_def)

lemma plain_hash_text_back: "plain_parse_hash (plain_hash_text h) = Some h"
  by (simp add: plain_parse_hash_def plain_hash_text_def Let_def strip_prefix_def
      from_be_bytes_be_bytes)

lemma plain_hash_text_lower: "to_lowercase (plain_hash_text h) = plain_hash_text h"
proof -
  have "to_lowercase ''0x'' = ''0x''" by (simp add: to_lowercase_def lower_char_def Let_def)
  then show ?thesis by (simp only: plain_hash_text_def to_lowercase_append plain_hex_lower)
qed

lemma demo_hash_text: "hash_text_ok demo_ext"
  by (simp add: hash_text_ok_def demo_ext_def plain_hash_text_back plain_hash_text_lower)

lemma demo_hex: "hex_ok demo_ext"
  by (simp add: hex_ok_def demo_ext_def)

lemma demo_hex_bytewise: "hex_bytewise demo_ext"
  by (simp add: hex_bytewise_def demo_ext_def plain_hex_def length_concat comp_def hex_byte_def
      sum_list_triv)

lemma demo_lru: "lru_ok demo_ext"
  by (simp add: lru_ok_def demo_ext_def)

end
