(* ===== verification/Log_Synthesis.thy ===== *)
theory Log_Synthesis
  imports Externals "HOL-Library.Product_Lexorder"
begin

text \<open>
  Synthetic EVM logs (\<^verbatim>\<open>src/src/log_synthesis.rs\<close>): the log entry, the \<^verbatim>\<open>eth_getLogs\<close> filter with its exact
  predicate \<^verbatim>\<open>LogFilter::matches\<close> and its push-down helpers, the filter caps of the RPC handler
  (\<^verbatim>\<open>src/src/service_get_logs.rs\<close>), and the ABI encoding of the \<^verbatim>\<open>ClaimEvent\<close> data.
\<close>

section \<open>Constants and data\<close>

definition CLAIM_EVENT_TOPIC :: string where
  "CLAIM_EVENT_TOPIC = ''0x1df3f2a973a00d6635911755c260704e95e8a5876997546798770f76396fda4d''"

definition BRIDGE_EVENT_TOPIC :: string where
  "BRIDGE_EVENT_TOPIC = ''0x501781209a1f8899323b96b4ef08b168df93e0a90c673d1e4cce39366cb62f9b''"

definition UPDATE_HASH_CHAIN_VALUE_TOPIC :: string where
  "UPDATE_HASH_CHAIN_VALUE_TOPIC =
     ''0x65d3bf36615f1f02a134d12dfa9ea6b1d4a52386e825973cd27ddb70895c2319''"

definition L2_GLOBAL_EXIT_ROOT_ADDRESS :: string where
  "L2_GLOBAL_EXIT_ROOT_ADDRESS = ''0xa40D5f56745a118D0906a34E69aeC8C0Db1cB8fA''"

record synthetic_log =
  log_address :: string
  log_topics :: "string list"
  log_data :: string
  log_block_number :: u64
  log_block_hash :: b256
  log_transaction_hash :: string
  log_transaction_index :: u64
  log_log_index :: u64
  log_removed :: bool

datatype address_filter = AddrSingle string | AddrMultiple "string list"

datatype topic_filter = TopicSingle string | TopicMultiple "string list"

record log_filter =
  lf_from_block :: "string option"
  lf_to_block :: "string option"
  lf_address :: "address_filter option"
  lf_topics :: "topic_filter option list option"
  lf_block_hash :: "string option"

record ger_entry =
  ge_mainnet_exit_root :: "b256 option"
  ge_rollup_exit_root :: "b256 option"
  ge_block_number :: u64
  ge_timestamp :: u64
  ge_evidence_verified :: bool

section \<open>The filter\<close>

definition parse_block_tag :: "string \<Rightarrow> u64 \<Rightarrow> u64" where
  "parse_block_tag s current_block =
     (let t = to_lowercase s
      in if t = ''earliest'' then 0
         else if t = ''latest'' \<or> t = ''pending'' then current_block
         else case strip_prefix ''0x'' t of
                Some digits \<Rightarrow>
                  (case u64_from_str_radix digits 16 of None \<Rightarrow> current_block | Some n \<Rightarrow> n)
              | None \<Rightarrow>
                  (case u64_from_str_radix t 10 of None \<Rightarrow> current_block | Some n \<Rightarrow> n))"

definition from_block_number :: "log_filter \<Rightarrow> u64 \<Rightarrow> u64" where
  "from_block_number f current_block =
     (case lf_from_block f of None \<Rightarrow> current_block | Some s \<Rightarrow> parse_block_tag s current_block)"

definition to_block_number :: "log_filter \<Rightarrow> u64 \<Rightarrow> u64" where
  "to_block_number f current_block =
     (case lf_to_block f of None \<Rightarrow> current_block | Some s \<Rightarrow> parse_block_tag s current_block)"

definition topic_filter_matches :: "topic_filter \<Rightarrow> string \<Rightarrow> bool" where
  "topic_filter_matches flt topic_lower =
     (case flt of
        TopicSingle t \<Rightarrow> to_lowercase t = topic_lower
      | TopicMultiple ts \<Rightarrow> list_ex (\<lambda>t. to_lowercase t = topic_lower) ts)"

definition query_includes_topic :: "log_filter \<Rightarrow> string option \<Rightarrow> bool" where
  "query_includes_topic f topic =
     (case topic of
        None \<Rightarrow> False
      | Some t \<Rightarrow>
          (case lf_topics f of
             None \<Rightarrow> False
           | Some filters \<Rightarrow>
               (case filters of
                  Some flt # _ \<Rightarrow> topic_filter_matches flt (to_lowercase t)
                | _ \<Rightarrow> False)))"

definition address_matches :: "address_filter \<Rightarrow> string \<Rightarrow> bool" where
  "address_matches a log_addr =
     (case a of
        AddrSingle s \<Rightarrow> to_lowercase s = log_addr
      | AddrMultiple ss \<Rightarrow> list_ex (\<lambda>s. to_lowercase s = log_addr) ss)"

definition first_topic :: "synthetic_log \<Rightarrow> string option" where
  "first_topic l = (case log_topics l of [] \<Rightarrow> None | t # _ \<Rightarrow> Some t)"

text \<open>The two halves of \<^verbatim>\<open>matches\<close> before the topic loop: the block and the address with the
  passthrough of the hash-chain event, and then the loop over the positional topic filters.\<close>

definition block_matches :: "externals \<Rightarrow> log_filter \<Rightarrow> synthetic_log \<Rightarrow> u64 \<Rightarrow> bool" where
  "block_matches E f l current_block =
     (case lf_block_hash f of
        Some bh \<Rightarrow>
          to_lowercase (''0x'' @ ext_hex_encode E (be_bytes 32 (log_block_hash l))) = to_lowercase bh
      | None \<Rightarrow>
          \<not> (log_block_number l < from_block_number f current_block \<or>
             to_block_number f current_block < log_block_number l))"

definition address_or_passthrough :: "log_filter \<Rightarrow> synthetic_log \<Rightarrow> bool" where
  "address_or_passthrough f l =
     (case lf_address f of
        None \<Rightarrow> True
      | Some a \<Rightarrow>
          (let matches_addr = address_matches a (to_lowercase (log_address l));
               topic0 = map_option to_lowercase (first_topic l);
               is_passthrough =
                 (if \<not> matches_addr
                  then topic0 = Some (to_lowercase UPDATE_HASH_CHAIN_VALUE_TOPIC) \<and>
                       query_includes_topic f topic0
                  else False)
           in matches_addr \<or> is_passthrough))"

fun topics_loop :: "nat \<Rightarrow> topic_filter option list \<Rightarrow> string list \<Rightarrow> bool" where
  "topics_loop i [] topics = True"
| "topics_loop i (None # rest) topics = topics_loop (Suc i) rest topics"
| "topics_loop i (Some flt # rest) topics =
     (if length topics \<le> i then False
      else if \<not> topic_filter_matches flt (to_lowercase (topics ! i)) then False
      else topics_loop (Suc i) rest topics)"

definition log_filter_matches :: "externals \<Rightarrow> log_filter \<Rightarrow> synthetic_log \<Rightarrow> u64 \<Rightarrow> bool" where
  "log_filter_matches E f l current_block =
     (if \<not> block_matches E f l current_block then False
      else if \<not> address_or_passthrough f l then False
      else case lf_topics f of
             None \<Rightarrow> True
           | Some filters \<Rightarrow> topics_loop 0 filters (log_topics l))"

definition address_alternatives_lower :: "log_filter \<Rightarrow> string list option" where
  "address_alternatives_lower f =
     map_option
       (\<lambda>a. case a of AddrSingle s \<Rightarrow> [to_lowercase s] | AddrMultiple v \<Rightarrow> map to_lowercase v)
       (lf_address f)"

definition topic0_alternatives_lower :: "log_filter \<Rightarrow> string list option" where
  "topic0_alternatives_lower f =
     (case lf_topics f of
        None \<Rightarrow> None
      | Some [] \<Rightarrow> None
      | Some (t # _) \<Rightarrow>
          (case t of
             Some (TopicSingle s) \<Rightarrow> Some [to_lowercase s]
           | Some (TopicMultiple v) \<Rightarrow> Some (map to_lowercase v)
           | None \<Rightarrow> None))"

section \<open>The request caps\<close>

definition MAX_GETLOGS_BLOCK_RANGE :: u64 where "MAX_GETLOGS_BLOCK_RANGE = 10000"
definition MAX_GETLOGS_TOPICS_LEN :: nat where "MAX_GETLOGS_TOPICS_LEN = 4"
definition MAX_GETLOGS_ADDRESSES_LEN :: nat where "MAX_GETLOGS_ADDRESSES_LEN = 32"

datatype getlogs_error =
    RangeTooLarge u64 | TopicsTooLong nat | AddressesTooLong nat

definition validate_getlogs_filter :: "log_filter \<Rightarrow> u64 \<Rightarrow> getlogs_error + unit" where
  "validate_getlogs_filter f current_block =
     (let from = from_block_number f current_block;
          to = to_block_number f current_block;
          span = saturating_add (saturating_sub to from) 1
      in if MAX_GETLOGS_BLOCK_RANGE < span then Inl (RangeTooLarge span)
         else case (case lf_topics f of
                      Some ts \<Rightarrow> if MAX_GETLOGS_TOPICS_LEN < length ts then Some (length ts) else None
                    | None \<Rightarrow> None) of
                Some n \<Rightarrow> Inl (TopicsTooLong n)
              | None \<Rightarrow>
                  (case lf_address f of
                     None \<Rightarrow> Inr ()
                   | Some a \<Rightarrow>
                       (let len = (case a of AddrSingle _ \<Rightarrow> 1 | AddrMultiple v \<Rightarrow> length v)
                        in if MAX_GETLOGS_ADDRESSES_LEN < len then Inl (AddressesTooLong len)
                           else Inr ())))"

section \<open>The ClaimEvent data\<close>

definition claim_event_bytes :: "b256 \<Rightarrow> u32 \<Rightarrow> b160 \<Rightarrow> b160 \<Rightarrow> b256 \<Rightarrow> byte list" where
  "claim_event_bytes global_index origin_network origin_address destination_address amount =
     be_bytes 32 global_index
     @ replicate 28 0 @ be_bytes 4 origin_network
     @ replicate 12 0 @ be_bytes 20 origin_address
     @ replicate 12 0 @ be_bytes 20 destination_address
     @ be_bytes 32 amount"

definition encode_claim_event_data ::
    "externals \<Rightarrow> b256 \<Rightarrow> u32 \<Rightarrow> b160 \<Rightarrow> b160 \<Rightarrow> b256 \<Rightarrow> string" where
  "encode_claim_event_data E global_index origin_network origin_address destination_address amount =
     ''0x'' @ ext_hex_encode E
       (claim_event_bytes global_index origin_network origin_address destination_address amount)"

definition encode_claim_event_data_u64 ::
    "externals \<Rightarrow> b256 \<Rightarrow> u32 \<Rightarrow> b160 \<Rightarrow> b160 \<Rightarrow> u64 \<Rightarrow> string" where
  "encode_claim_event_data_u64 E global_index origin_network origin_address destination_address amount =
     encode_claim_event_data E global_index origin_network origin_address destination_address
       (from_be_bytes (replicate 24 0 @ be_bytes 8 amount))"

section \<open>Lemmas\<close>

lemma topics_loop_iff:
  "topics_loop i filters topics \<longleftrightarrow>
     (\<forall>j < length filters. \<forall>flt. filters ! j = Some flt \<longrightarrow>
        i + j < length topics \<and> topic_filter_matches flt (to_lowercase (topics ! (i + j))))"
proof (induction i filters topics rule: topics_loop.induct)
  case (1 i topics)
  then show ?case by simp
next
  case (2 i rest topics)
  then show ?case by (auto simp: nth_Cons less_Suc_eq_0_disj all_conj_distrib split: nat.splits)
next
  case (3 i flt rest topics)
  show ?case
    using 3 by (auto simp: nth_Cons less_Suc_eq_0_disj split: nat.splits)
qed

lemma address_alternatives_exact:
  "lf_address f = Some a \<Longrightarrow>
     \<exists>alts. address_alternatives_lower f = Some alts \<and>
            (address_matches a x \<longleftrightarrow> x \<in> set alts)"
  by (auto simp: address_alternatives_lower_def address_matches_def list_ex_iff
      split: address_filter.splits)

lemma topic0_alternatives_exact:
  "topic0_alternatives_lower f = Some alts \<Longrightarrow>
     \<exists>flt rest. lf_topics f = Some (Some flt # rest) \<and>
                (\<forall>x. topic_filter_matches flt x \<longleftrightarrow> x \<in> set alts)"
  by (auto simp: topic0_alternatives_lower_def topic_filter_matches_def list_ex_iff
      split: option.splits list.splits topic_filter.splits)

lemma matches_topic0:
  assumes "log_filter_matches E f l cb" and "lf_topics f = Some (Some flt # rest)"
  shows "\<exists>t. first_topic l = Some t \<and> topic_filter_matches flt (to_lowercase t)"
  using assms
  by (auto simp: log_filter_matches_def first_topic_def split: if_splits list.splits)

lemma validate_bounds_span:
  assumes "validate_getlogs_filter f cb = Inr ()"
  shows "unat (to_block_number f cb) - unat (from_block_number f cb) < 10000"
proof -
  let ?from = "from_block_number f cb" and ?to = "to_block_number f cb"
  have le: "\<not> MAX_GETLOGS_BLOCK_RANGE < saturating_add (saturating_sub ?to ?from) 1"
    using assms by (auto simp: validate_getlogs_filter_def Let_def split: if_splits)
  show ?thesis
  proof (cases "?from \<le> ?to")
    case False
    then show ?thesis by (simp add: word_le_nat_alt)
  next
    case True
    then have sub: "unat (saturating_sub ?to ?from) = unat ?to - unat ?from"
      by (simp add: saturating_sub_def unat_sub)
    have "unat (saturating_add (saturating_sub ?to ?from) 1) \<le> 10000"
      using le by (simp add: MAX_GETLOGS_BLOCK_RANGE_def word_less_nat_alt not_less)
    then show ?thesis
      using sub
      by (auto simp: saturating_add_def unat_add_no_overflow unsigned_minus_1_eq_mask mask_eq_exp_minus_1 split: if_splits)
  qed
qed

lemma validate_range_error:
  assumes "MAX_GETLOGS_BLOCK_RANGE <
             saturating_add (saturating_sub (to_block_number f cb) (from_block_number f cb)) 1"
  shows "10000 < unat (to_block_number f cb) + 1 - unat (from_block_number f cb)"
proof -
  let ?from = "from_block_number f cb" and ?to = "to_block_number f cb"
  have gt: "10000 < unat (saturating_add (saturating_sub ?to ?from) 1)"
    using assms by (simp add: MAX_GETLOGS_BLOCK_RANGE_def word_less_nat_alt)
  have le: "unat (saturating_add a 1) \<le> Suc (unat a)" for a :: u64
    using unsigned_less [where ?'a = nat and w = a]
    by (auto simp: saturating_add_def unat_add_no_overflow unsigned_minus_1_eq_mask mask_eq_exp_minus_1)
  show ?thesis
  proof (cases "?from \<le> ?to")
    case True
    then have "unat (saturating_sub ?to ?from) = unat ?to - unat ?from"
      by (simp add: saturating_sub_def unat_sub)
    with gt le [of "saturating_sub ?to ?from"] True show ?thesis
      by (simp add: word_le_nat_alt)
  next
    case False
    with gt show ?thesis by (simp add: saturating_sub_def saturating_add_def)
  qed
qed

end
