(* ===== verification/Bridge_Event.thy ===== *)
theory Bridge_Event
  imports Log_Synthesis
begin

text \<open>
  The derivation helpers of bridge-out (\<^verbatim>\<open>src/src/bridge_out.rs\<close>): parsing a B2AGG note's storage, the
  destination check, the amount scaling, the consumer gate, the synthetic transaction hash and the
  ABI encoding of the \<^verbatim>\<open>BridgeEvent\<close> data, with the decoder of its deposit count from
  \<^verbatim>\<open>src/src/store/memory.rs\<close>.
\<close>

section \<open>B2AGG storage\<close>

datatype b2agg_error = StorageTooShort nat | NetworkOverflow | AddressLimbOverflow nat

definition u32_try_from :: "u64 \<Rightarrow> u32 option" where
  "u32_try_from v = (if unat v < 2 ^ 32 then Some (ucast v) else None)"

text \<open>The loop over the five address limbs; a felt is its canonical \<^verbatim>\<open>u64\<close>.\<close>

fun address_limbs :: "nat \<Rightarrow> u64 list \<Rightarrow> b2agg_error + byte list" where
  "address_limbs i [] = Inr []"
| "address_limbs i (f # fs) =
     (case u32_try_from f of
        None \<Rightarrow> Inl (AddressLimbOverflow i)
      | Some limb \<Rightarrow>
          (case address_limbs (Suc i) fs of
             Inl e \<Rightarrow> Inl e
           | Inr bs \<Rightarrow> Inr (le_bytes 4 limb @ bs)))"

definition parse_b2agg_storage :: "u64 list \<Rightarrow> b2agg_error + (u32 \<times> b160)" where
  "parse_b2agg_storage items =
     (if length items < 6 then Inl (StorageTooShort (length items))
      else case u32_try_from (items ! 0) of
             None \<Rightarrow> Inl NetworkOverflow
           | Some raw_network \<Rightarrow>
               (let destination_network = from_le_bytes (be_bytes 4 raw_network)
                in case address_limbs 0 (take 5 (drop 1 items)) of
                     Inl e \<Rightarrow> Inl e
                   | Inr bytes \<Rightarrow> Inr (destination_network, from_be_bytes bytes)))"

text \<open>The storage layout as the code documents it: the byte-swapped network, then the address as
  five little-endian 32-bit limbs of its big-endian bytes.\<close>

definition b2agg_storage_layout :: "u32 \<Rightarrow> b160 \<Rightarrow> u64 list" where
  "b2agg_storage_layout network addr =
     ucast (from_le_bytes (be_bytes 4 network) :: u32)
     # map (\<lambda>i. ucast (from_le_bytes (take 4 (drop (4 * i) (be_bytes 20 addr))) :: u32)) [0..<5]"

section \<open>Destination, amount, consumer\<close>

definition is_invalid_destination_address :: "b160 \<Rightarrow> bool" where
  "is_invalid_destination_address addr =
     (let bs = be_bytes 20 addr
      in if list_all (\<lambda>b. b = 0) bs then True
         else if list_all (\<lambda>b. b = 0) (take 19 bs) \<and> 1 \<le> bs ! 19 \<and> bs ! 19 \<le> 9 then True
         else False)"

datatype scale_error = FactorOverflow | AmountOverflow

definition reverse_scale_amount :: "u64 \<Rightarrow> u8 \<Rightarrow> scale_error + u128" where
  "reverse_scale_amount miden_amount scale =
     (case checked_pow (10 :: u128) (unat scale) of
        None \<Rightarrow> Inl FactorOverflow
      | Some factor \<Rightarrow>
          (case checked_mul (ucast miden_amount) factor of
             None \<Rightarrow> Inl AmountOverflow
           | Some r \<Rightarrow> Inr r))"

datatype b2agg_consumer_class = Emit | Reclaimed | UntrackedConsumer

definition classify_b2agg_consumer :: "account_id option \<Rightarrow> account_id \<Rightarrow> b2agg_consumer_class" where
  "classify_b2agg_consumer consumer_account bridge_account_id =
     (case consumer_account of
        Some consumer \<Rightarrow> if consumer = bridge_account_id then Emit else Reclaimed
      | None \<Rightarrow> UntrackedConsumer)"

section \<open>The synthetic transaction hash\<close>

definition ascii_bytes :: "string \<Rightarrow> byte list" where
  "ascii_bytes s = map (\<lambda>c. of_nat (of_char c)) s"

definition BRIDGE_OUT_TX_HASH_TAG :: "byte list" where
  "BRIDGE_OUT_TX_HASH_TAG = ascii_bytes ''miden-agglayer/bridge-out/v1'' @ [0]"

definition derive_bridge_out_tx_hash :: "externals \<Rightarrow> string \<Rightarrow> string" where
  "derive_bridge_out_tx_hash E note_id =
     ''0x'' @ ext_hex_encode E
       (be_bytes 32 (ext_keccak E (BRIDGE_OUT_TX_HASH_TAG @ ascii_bytes note_id)))"

section \<open>The BridgeEvent data\<close>

definition MAX_BRIDGE_EVENT_METADATA_BYTES :: nat where
  "MAX_BRIDGE_EVENT_METADATA_BYTES = 64 * 1024"

definition bridge_event_bytes ::
    "u8 \<Rightarrow> u32 \<Rightarrow> b160 \<Rightarrow> u32 \<Rightarrow> b160 \<Rightarrow> u128 \<Rightarrow> byte list \<Rightarrow> u32 \<Rightarrow> byte list" where
  "bridge_event_bytes leaf_type origin_network origin_address destination_network
       destination_address amount metadata deposit_count =
     (let metadata_padded_len = ((length metadata + 31) div 32) * 32;
          metadata_offset = (256 :: u32);
          pad = metadata_padded_len - length metadata
      in replicate 31 0 @ [leaf_type]
         @ replicate 28 0 @ be_bytes 4 origin_network
         @ replicate 12 0 @ be_bytes 20 origin_address
         @ replicate 28 0 @ be_bytes 4 destination_network
         @ replicate 12 0 @ be_bytes 20 destination_address
         @ replicate 16 0 @ be_bytes 16 amount
         @ replicate 28 0 @ be_bytes 4 metadata_offset
         @ replicate 28 0 @ be_bytes 4 deposit_count
         @ replicate 24 0 @ be_bytes 8 (of_nat (length metadata) :: u64)
         @ metadata @ replicate pad 0)"

definition encode_bridge_event_data ::
    "externals \<Rightarrow> u8 \<Rightarrow> u32 \<Rightarrow> b160 \<Rightarrow> u32 \<Rightarrow> b160 \<Rightarrow> u128 \<Rightarrow> byte list \<Rightarrow> u32 \<Rightarrow> string" where
  "encode_bridge_event_data E leaf_type origin_network origin_address destination_network
       destination_address amount metadata deposit_count =
     ''0x'' @ ext_hex_encode E
       (bridge_event_bytes leaf_type origin_network origin_address destination_network
          destination_address amount metadata deposit_count)"

datatype bridge_event_encode_error = MetadataTooLargeErr nat nat

definition encode_bridge_event_data_checked ::
    "externals \<Rightarrow> u8 \<Rightarrow> u32 \<Rightarrow> b160 \<Rightarrow> u32 \<Rightarrow> b160 \<Rightarrow> u128 \<Rightarrow> byte list \<Rightarrow> u32 \<Rightarrow>
       bridge_event_encode_error + string" where
  "encode_bridge_event_data_checked E leaf_type origin_network origin_address destination_network
       destination_address amount metadata deposit_count =
     (if MAX_BRIDGE_EVENT_METADATA_BYTES < length metadata
      then Inl (MetadataTooLargeErr (length metadata) MAX_BRIDGE_EVENT_METADATA_BYTES)
      else Inr (encode_bridge_event_data E leaf_type origin_network origin_address
                  destination_network destination_address amount metadata deposit_count))"

definition bridge_event_deposit_count :: "externals \<Rightarrow> string \<Rightarrow> u32 option" where
  "bridge_event_deposit_count E data =
     (case ext_hex_decode E (case strip_prefix ''0x'' data of None \<Rightarrow> data | Some r \<Rightarrow> r) of
        None \<Rightarrow> None
      | Some bytes \<Rightarrow>
          if length bytes < 256 then None
          else Some (from_be_bytes (take 4 (drop 252 bytes))))"

section \<open>Lemmas\<close>

lemma length_bridge_event_bytes:
  "length (bridge_event_bytes lt onet oaddr dnet daddr amt md dc) =
     288 + ((length md + 31) div 32) * 32"
proof -
  have "length md \<le> ((length md + 31) div 32) * 32" by arith
  then show ?thesis by (simp add: bridge_event_bytes_def Let_def)
qed

lemma take_drop_bridge_event_deposit:
  "take 4 (drop 252 (bridge_event_bytes lt onet oaddr dnet daddr amt md dc)) = be_bytes 4 dc"
  by (simp add: bridge_event_bytes_def Let_def)

lemma deposit_count_of_encoded:
  assumes "hex_ok E"
  shows "bridge_event_deposit_count E (encode_bridge_event_data E lt onet oaddr dnet daddr amt md dc)
         = Some dc"
proof -
  have "\<not> length (bridge_event_bytes lt onet oaddr dnet daddr amt md dc) < 256"
    by (simp add: length_bridge_event_bytes)
  with assms show ?thesis
    by (simp add: bridge_event_deposit_count_def encode_bridge_event_data_def strip_prefix_def
        hex_ok_def take_drop_bridge_event_deposit from_be_bytes_be_bytes)
qed

lemma u32_try_from_ucast [simp]: "u32_try_from (ucast (w :: u32)) = Some w"
proof -
  have "unat (ucast w :: u64) = unat w" by (simp add: unsigned_ucast_eq take_bit_nat_eq_self_iff)
      (use unsigned_less [where ?'a = nat and w = w] in simp)
  moreover have "unat w < 2 ^ 32" using unsigned_less [where ?'a = nat and w = w] by simp
  moreover have "(ucast (ucast w :: u64) :: u32) = word_of_nat (unat (ucast w :: u64))" by simp
  ultimately show ?thesis by (simp only: u32_try_from_def) simp
qed

lemma u32_try_from_Some_iff: "u32_try_from v = Some w \<longleftrightarrow> unat v < 2 ^ 32 \<and> w = ucast v"
  by (auto simp: u32_try_from_def)

lemma network_byte_swap:
  "from_le_bytes (be_bytes 4 (from_le_bytes (be_bytes 4 (w :: u32)) :: u32)) = w"
proof -
  have "le_bytes 4 (from_le_bytes (be_bytes 4 w) :: u32) = be_bytes 4 w"
    by (simp add: le_bytes_from_le_bytes)
  then have "be_bytes 4 (from_le_bytes (be_bytes 4 w) :: u32) = le_bytes 4 w"
    by (metis rev_be_bytes rev_rev_ident)
  then show ?thesis by (simp add: from_le_bytes_le_bytes_gen drop_bit_word_zero)
qed

lemma address_limbs_chunks:
  "\<forall>c \<in> set cs. length c = 4 \<Longrightarrow>
     address_limbs i (map (\<lambda>c. ucast (from_le_bytes c :: u32)) cs) = Inr (concat cs)"
  by (induction cs arbitrary: i) (simp_all add: le_bytes_from_le_bytes)

lemma be_bytes_chunks:
  "concat (map (\<lambda>i. take 4 (drop (4 * i) (be_bytes 20 (w :: b160)))) [0..<5]) = be_bytes 20 w"
  by (simp add: be_bytes_def upt_rec)

lemma address_limbs_layout:
  "address_limbs 0
     (map (\<lambda>i. ucast (from_le_bytes (take 4 (drop (4 * i) (be_bytes 20 (w :: b160)))) :: u32)) [0..<5])
   = Inr (be_bytes 20 w)"
  using address_limbs_chunks [of "map (\<lambda>i. take 4 (drop (4 * i) (be_bytes 20 w))) [0..<5]" 0]
  by (auto simp: be_bytes_chunks comp_def)

lemma parse_of_layout: "parse_b2agg_storage (b2agg_storage_layout network addr) = Inr (network, addr)"
  by (simp add: parse_b2agg_storage_def b2agg_storage_layout_def Let_def network_byte_swap
      address_limbs_layout from_be_bytes_be_bytes del: upt_Suc)

lemma address_limbs_ok_iff:
  "(\<exists>bs. address_limbs i fs = Inr bs) \<longleftrightarrow> (\<forall>f \<in> set fs. unat f < 2 ^ 32)"
proof (induction fs arbitrary: i)
  case Nil
  then show ?case by simp
next
  case (Cons f fs)
  show ?case
    using Cons.IH [of "Suc i"] by (auto simp: u32_try_from_def split: sum.splits)
qed

lemma unat_ucast_u64_u128 [simp]: "unat (ucast (a :: u64) :: u128) = unat a"
  by (simp add: unsigned_ucast_eq take_bit_nat_eq_self_iff)
    (use unsigned_less [where ?'a = nat and w = a] in simp)

lemma reverse_scale_ok:
  "reverse_scale_amount a s = Inr r \<longleftrightarrow>
     10 ^ unat s < (2 :: nat) ^ 128 \<and> unat a * 10 ^ unat s < 2 ^ 128 \<and> unat r = unat a * 10 ^ unat s"
proof (cases "10 ^ unat s < (2 :: nat) ^ 128")
  case False
  then show ?thesis by (simp add: reverse_scale_amount_def checked_pow_def)
next
  case True
  let ?f = "(10 :: u128) ^ unat s"
  have f: "unat ?f = 10 ^ unat s"
    using unat_pow_no_overflow [of "10 :: u128" "unat s"] True by simp
  have p: "checked_pow (10 :: u128) (unat s) = Some ?f"
    using True by (simp add: checked_pow_def)
  show ?thesis
  proof (cases "unat a * 10 ^ unat s < 2 ^ 128")
    case lt: True
    then have "unat (ucast a * ?f) = unat a * 10 ^ unat s"
      using unat_mult_no_overflow [of "ucast a :: u128" ?f] f by simp
    with True lt p f show ?thesis
      by (auto simp: reverse_scale_amount_def checked_mul_def intro: unsigned_word_eqI [where ?'a = nat])
  next
    case False
    with p f show ?thesis
      by (simp add: reverse_scale_amount_def checked_mul_def)
  qed
qed

end
