(* ===== verification/Contracts.thy ===== *)
theory Contracts
  imports Prelude
begin

text \<open>
  The contracts that several components share, as locales: operations that keep an invariant,
  operations that refine an abstract step relation, maps whose first write wins, and counters
  that hand out every value once. Each is interpreted on the model of the code in the theory
  of the component that provides it.
\<close>

section \<open>Invariants and refinement of runs\<close>

locale invariant_run =
  fixes step :: "'o \<Rightarrow> 's \<Rightarrow> 's" and inv :: "'s \<Rightarrow> bool"
  assumes step_inv: "inv s \<Longrightarrow> inv (step op s)"
begin

lemma run_inv: "inv s \<Longrightarrow> inv (fold step ops s)"
  by (induction ops arbitrary: s) (simp_all add: step_inv)

end

locale refining_run = invariant_run step inv for step :: "'o \<Rightarrow> 's \<Rightarrow> 's" and inv +
  fixes abs :: "'s \<Rightarrow> 'a" and astep :: "'a \<Rightarrow> 'a \<Rightarrow> bool"
  assumes step_refines: "inv s \<Longrightarrow> astep\<^sup>*\<^sup>* (abs s) (abs (step op s))"
begin

lemma run_refines: "inv s \<Longrightarrow> astep\<^sup>*\<^sup>* (abs s) (abs (fold step ops s))"
proof (induction ops arbitrary: s)
  case Nil
  then show ?case by simp
next
  case (Cons op ops)
  then show ?case
    using rtranclp_trans [OF step_refines [OF Cons.prems] Cons.IH [OF step_inv [OF Cons.prems]]] by simp
qed

end

section \<open>First write wins\<close>

locale first_write_wins =
  fixes key :: "'e \<Rightarrow> 'k" and val :: "'e \<Rightarrow> 'v" and put :: "'e \<Rightarrow> 's \<Rightarrow> 's"
    and get :: "'k \<Rightarrow> 's \<Rightarrow> 'v option"
  assumes get_put: "get k (put e s) = (if k = key e \<and> get k s = None then Some (val e) else get k s)"
begin

lemma run_keeps: "get k s = Some v \<Longrightarrow> get k (fold put es s) = Some v"
  by (induction es arbitrary: s) (simp_all add: get_put)

lemma run_first:
  "get k (fold put es s) =
     (case get k s of Some v \<Rightarrow> Some v | None \<Rightarrow> map_option val (find (\<lambda>e. key e = k) es))"
proof (induction es arbitrary: s)
  case Nil
  then show ?case by (simp split: option.split)
next
  case (Cons e es)
  then show ?case by (auto simp: get_put split: option.split)
qed

end

text \<open>The answers of a sequence of writes.\<close>

fun answers :: "('e \<Rightarrow> 's \<Rightarrow> 'b \<times> 's) \<Rightarrow> 'e list \<Rightarrow> 's \<Rightarrow> ('e \<times> 'b) list" where
  "answers f [] s = []"
| "answers f (e # es) s = (let (b, s') = f e s in (e, b) # answers f es s')"

locale first_write_reported =
  first_write_wins key val "\<lambda>e s. snd (op e s)" get
  for key :: "'e \<Rightarrow> 'k" and val :: "'e \<Rightarrow> 'v" and op :: "'e \<Rightarrow> 's \<Rightarrow> bool \<times> 's"
    and get :: "'k \<Rightarrow> 's \<Rightarrow> 'v option" +
  assumes op_true: "fst (op e s) \<longleftrightarrow> get (key e) s = None"
begin

lemma no_win_after: "get k s = Some v \<Longrightarrow> filter (\<lambda>(e, b). key e = k \<and> b) (answers op es s) = []"
proof (induction es arbitrary: s)
  case Nil
  then show ?case by simp
next
  case (Cons e es)
  have "get k (snd (op e s)) = Some v" using Cons.prems by (simp add: get_put)
  with Cons op_true [of e s] show ?case by (auto simp: case_prod_unfold Let_def)
qed

lemma one_win_per_key:
  "length (filter (\<lambda>(e, b). key e = k \<and> b) (answers op es s)) =
     (if get k s = None \<and> k \<in> key ` set es then 1 else 0)"
proof (induction es arbitrary: s)
  case Nil
  then show ?case by simp
next
  case (Cons e es)
  show ?case
  proof (cases "get k s")
    case (Some v)
    then show ?thesis by (simp only: no_win_after) simp
  next
    case None
    show ?thesis
    proof (cases "key e = k")
      case True
      then have "get k (snd (op e s)) = Some (val e)" using None by (simp add: get_put)
      then have "filter (\<lambda>(e, b). key e = k \<and> b) (answers op es (snd (op e s))) = []"
        by (rule no_win_after)
      with True None op_true [of e s] show ?thesis by (simp add: case_prod_unfold Let_def)
    next
      case False
      then have "get k (snd (op e s)) = None" using None by (simp add: get_put)
      with False None Cons.IH [of "snd (op e s)"] show ?thesis
        by (auto simp: case_prod_unfold Let_def)
    qed
  qed
qed

end

section \<open>Every value once\<close>

text \<open>What the successful steps of a run handed out, in order.\<close>

definition dispensed :: "('o \<Rightarrow> 's \<Rightarrow> 'w option \<times> 's) \<Rightarrow> 'o list \<Rightarrow> 's \<Rightarrow> 'w list" where
  "dispensed f ops s = List.map_filter snd (answers f ops s)"

lemma dispensed_simps [simp]:
  "dispensed f [] s = []"
  "dispensed f (op # ops) s =
     (case fst (f op s) of None \<Rightarrow> dispensed f ops (snd (f op s))
      | Some w \<Rightarrow> w # dispensed f ops (snd (f op s)))"
  by (simp_all add: dispensed_def case_prod_unfold Let_def split: option.split)

locale dispenser =
  fixes step :: "'o \<Rightarrow> 's \<Rightarrow> 'w::len word option \<times> 's" and cur :: "'s \<Rightarrow> 'w word"
  assumes step_Some: "fst (step op s) = Some w \<Longrightarrow> w = cur s + 1 \<and> cur (snd (step op s)) = cur s + 1"
    and step_None: "fst (step op s) = None \<Longrightarrow> cur (snd (step op s)) = cur s"
begin

lemma consecutive: "dispensed step ops s = map (\<lambda>i. cur s + 1 + of_nat i) [0..<length (dispensed step ops s)]"
proof (induction ops arbitrary: s)
  case Nil
  then show ?case by simp
next
  case (Cons op ops)
  show ?case
  proof (cases "fst (step op s)")
    case None
    then show ?thesis using Cons.IH [of "snd (step op s)"] step_None by simp
  next
    case (Some w)
    have "dispensed step ops (snd (step op s)) =
        map (\<lambda>i. cur s + 1 + 1 + of_nat i) [0..<length (dispensed step ops (snd (step op s)))]"
      using Cons.IH [of "snd (step op s)"] step_Some [OF Some] by simp
    then show ?thesis
      using Some step_Some [OF Some]
      by (simp add: upt_conv_Cons map_Suc_upt [symmetric] comp_def ac_simps del: upt_Suc)
  qed
qed

lemma distinct_dispensed:
  assumes "length (dispensed step ops s) \<le> 2 ^ LENGTH('w)"
  shows "distinct (dispensed step ops s)"
proof -
  have "inj_on (\<lambda>i. cur s + 1 + of_nat i) {0..<length (dispensed step ops s)}"
  proof (rule inj_onI)
    fix i j
    assume ij: "i \<in> {0..<length (dispensed step ops s)}" "j \<in> {0..<length (dispensed step ops s)}"
      and "cur s + 1 + of_nat i = cur s + 1 + of_nat j"
    then have "unat (of_nat i :: 'w word) = unat (of_nat j :: 'w word)" by simp
    moreover have "i < 2 ^ LENGTH('w)" "j < 2 ^ LENGTH('w)" using ij assms by auto
    ultimately show "i = j" by (simp add: unat_word_of_nat_small)
  qed
  then have "distinct (map (\<lambda>i. cur s + 1 + of_nat i) [0..<length (dispensed step ops s)])"
    by (simp add: distinct_map)
  then show ?thesis by (subst consecutive)
qed

end

section \<open>A cache in front of an authoritative store\<close>

text \<open>
  A run of observations and restarts (\<open>None\<close>) of a monitor whose state is a cache and the store; a
  restart loses the cache only.
\<close>

fun cached_run ::
    "('k \<Rightarrow> 'c \<times> 's \<Rightarrow> 'o \<times> 'c \<times> 's) \<Rightarrow> 'c \<Rightarrow> 'k option list \<Rightarrow> 'c \<times> 's \<Rightarrow> 'o list \<times> 's" where
  "cached_run rec e [] st = ([], snd st)"
| "cached_run rec e (None # ops) st = cached_run rec e ops (e, snd st)"
| "cached_run rec e (Some k # ops) st =
     (let (out, st') = rec k st; (outs, s') = cached_run rec e ops st' in (out # outs, s'))"

fun plain_run :: "('k \<Rightarrow> 's \<Rightarrow> 'o \<times> 's) \<Rightarrow> 'k list \<Rightarrow> 's \<Rightarrow> 'o list \<times> 's" where
  "plain_run f [] s = ([], s)"
| "plain_run f (k # ks) s = (let (out, s') = f k s; (outs, s'') = plain_run f ks s' in (out # outs, s''))"

locale cached_monitor =
  fixes rec :: "'k \<Rightarrow> 'c \<times> 's \<Rightarrow> 'o \<times> 'c \<times> 's" and empty :: 'c
    and plain :: "'k \<Rightarrow> 's \<Rightarrow> 'o \<times> 's" and sound :: "'c \<Rightarrow> 's \<Rightarrow> bool"
  assumes sound_empty: "sound empty s"
    and rec_plain: "sound c s \<Longrightarrow>
      \<exists>c'. rec k (c, s) = (fst (plain k s), c', snd (plain k s)) \<and> sound c' (snd (plain k s))"
begin

lemma cached_is_plain: "sound c s \<Longrightarrow> cached_run rec empty ops (c, s) = plain_run plain (List.map_filter id ops) s"
proof (induction ops arbitrary: c s)
  case Nil
  then show ?case by (simp add: map_filter_simps)
next
  case (Cons op ops)
  show ?case
  proof (cases op)
    case None
    then show ?thesis using Cons.IH [OF sound_empty] by (simp add: map_filter_simps)
  next
    case (Some k)
    obtain c' where c': "rec k (c, s) = (fst (plain k s), c', snd (plain k s))" "sound c' (snd (plain k s))"
      using rec_plain [OF Cons.prems] by blast
    show ?thesis
      using Cons.IH [OF c'(2)] by (simp add: Some c'(1) map_filter_simps case_prod_unfold Let_def)
  qed
qed

end

section \<open>Generic facts on folds\<close>

lemma fold_frame: "(\<And>x s. g (f x s) = g s) \<Longrightarrow> g (fold f xs s) = g s"
  by (induction xs arbitrary: s) simp_all

lemma fold_insert_union:
  assumes "\<And>x A. finite A \<Longrightarrow> f x (g A) = g (insert x A)" and "finite A"
  shows "fold f xs (g A) = g (A \<union> set xs)"
  using assms(2) by (induction xs arbitrary: A) (simp_all add: assms(1))

end
