(* ===== verification/Store_State.thy ===== *)
theory Store_State
  imports Bridge_Event Contracts
begin

text \<open>
  The state of the in-memory store (\<^verbatim>\<open>InMemoryStore\<close> of \<^verbatim>\<open>src/src/store/memory.rs\<close>, with the row types of
  \<^verbatim>\<open>src/src/store/mod.rs\<close>) as one record, a field per field of the struct, and the operations on its
  scalar cursors. A store operation takes the store and returns its result with the store it
  leaves; an \<^verbatim>\<open>anyhow\<close> error is a value of \<open>store_error\<close>. Every operation of the source holds its
  locks to its end, so an operation is one atomic step. Time is an argument \<open>now\<close>, what
  \<^verbatim>\<open>Instant::now()\<close> returned, in the same unit as the lease durations.
\<close>

section \<open>Rows\<close>

record faucet_entry =
  fe_faucet_id :: account_id
  fe_origin_address :: b160
  fe_origin_network :: u32
  fe_symbol :: string
  fe_origin_decimals :: u8
  fe_miden_decimals :: u8
  fe_scale :: u8
  fe_metadata :: "byte list"

record expected_mint =
  em_minted_amount :: u64
  em_destination_address :: b160
  em_origin_network :: u32
  em_origin_address :: b160

record log_data_t =
  ld_topics :: "b256 list"
  ld_data :: "byte list"

record signed_tx =
  stx_hash :: tx_hash
  stx_chain_id :: "u64 option"
  stx_nonce :: u64
  stx_to :: "address option"
  stx_input :: "byte list"

datatype tx_envelope =
    Eip1559 signed_tx | Eip2930 signed_tx | Eip4844 signed_tx | Eip7702 signed_tx | Legacy signed_tx

definition envelope_nonce :: "tx_envelope \<Rightarrow> u64" where
  "envelope_nonce e =
     (case e of
        Eip1559 s \<Rightarrow> stx_nonce s
      | Eip2930 s \<Rightarrow> stx_nonce s
      | Eip4844 s \<Rightarrow> stx_nonce s
      | Eip7702 s \<Rightarrow> stx_nonce s
      | Legacy s \<Rightarrow> stx_nonce s)"

record txn_entry =
  te_id :: "b256 option"
  te_envelope :: tx_envelope
  te_signer :: address
  te_expires_at :: "u64 option"
  te_logs :: "log_data_t list"

type_synonym txn_result = "string + unit"

record txn_receipt =
  tr_id :: "b256 option"
  tr_envelope :: tx_envelope
  tr_signer :: address
  tr_expires_at :: "u64 option"
  tr_result :: "txn_result option"
  tr_block_num :: u64
  tr_logs :: "log_data_t list"
  tr_recovery_attempts :: u32
  tr_next_recovery_at :: "u64 option"

datatype reservation_state = RExecuting | ReleasedSuccess | ReleasedFailure

record reservation =
  rsv_tx_hash :: tx_hash
  rsv_state :: reservation_state
  rsv_lease_expires_at :: time
  rsv_fence :: u64

datatype claim_state = CExecuting | CPrepared | CSubmitted | CLanded

record claim_record =
  clm_owner_tx_hash :: "tx_hash option"
  clm_state :: claim_state
  clm_acquired_at :: time
  clm_lease_expires_at :: "time option"
  clm_fence :: u64

datatype note_handoff_state = HPrepared | HSubmitted

record note_handoff_record =
  nh_note_commitment :: string
  nh_note_id :: "string option"
  nh_state :: note_handoff_state
  nh_expiration_block :: "u64 option"

datatype nonce_reservation = Won u64 | OwnedBySame | HeldByOther tx_hash

datatype unclaimable_reason = UnresolvableDestination

record unclaimable_claim =
  uc_global_index :: u256
  uc_destination_address :: address
  uc_origin_network :: u32
  uc_origin_address :: address
  uc_amount :: u256
  uc_reason :: unclaimable_reason
  uc_eth_tx_hash :: tx_hash

datatype unbridgeable_reason =
    StorageParseFailed | NoFungibleAsset | UnknownFaucet | AmountOverflowed | AtomicCommitFailed
  | MetadataTooLarge | SameDetailsMultiplicity

record unbridgeable_bridge_out =
  ub_note_id :: string
  ub_bridge_account :: account_id
  ub_reason :: unbridgeable_reason
  ub_detail :: string
  ub_note_dump :: string
  ub_observed_block :: u64

record expected_mint_row =
  er_expected_mint :: b256
  er_ticks_pending :: u32
  er_alerted :: bool

section \<open>The store\<close>

record mem_store =
  latest_block_number :: u64
  logs_by_block :: "(u64, synthetic_log list) hashmap"
  logs_by_tx :: "(string, synthetic_log list) hashmap"
  log_counter :: u64
  pending_events :: "synthetic_log list"
  seen_gers :: "(b256, ger_entry) hashmap"
  latest_ger :: "b256 option"
  hash_chain_value :: b256
  injected_gers :: "b256 set"
  transactions :: "txn_receipt lru"
  nonces :: "(string, u64) hashmap"
  nonce_reservations :: "(string \<times> u64, reservation) hashmap"
  claimed :: "(u256, claim_record) hashmap"
  unclaimable :: "(u256, unclaimable_claim) hashmap"
  unbridgeable_bridge_outs :: "(string, unbridgeable_bridge_out) hashmap"
  address_mappings :: "(address, account_id) hashmap"
  processed_notes :: "(string, u32 \<times> bool) hashmap"
  b2agg_note_ids :: "(b256, b256) hashmap"
  let_gate_baseline :: u64
  deposit_counter :: u32
  claim_watcher_processed :: "(string, b256) hashmap"
  faucets :: "faucet_entry list"
  monitor_burn_serials :: "b256 set"
  monitor_twin_notes :: "(b256, b256 list) hashmap"
  monitor_expected_mints :: "(b256, expected_mint_row) hashmap"
  monitor_claim_mint_serials :: "(b256, expected_mint) hashmap"
  projector_cursor :: u64
  reconcile_cursor :: u64
  l1_evidence_cursor :: u64
  l1_evidence_policy :: "string option"
  tx_note_links :: "(string, note_handoff_record) hashmap"
  note_tx_links :: "(string, string) hashmap"
  claim_calldata_pending :: "string set"

datatype store_error =
    TxnAlreadyExists tx_hash
  | TxnNotFound tx_hash
  | RowCap u64 u64
  | PolicyMismatch string string
  | UntaggedEvidence
  | NotEligibleOrphan tx_hash
  | LinkedToDifferentNote string
  | LinkedToDifferentClaimNote string
  | ClaimAlreadySubmitted u256
  | LetAccountingOverflow
  | BaselineTooLarge
  | DepositCounterOverflow
  | DepositIndexOverflow
  | MissingReservation string
  | FaucetRebind account_id
  | StoreUnavailable

type_synonym 'a fallible = "store_error + 'a"

definition TRANSACTIONS_CAPACITY :: nat where
  "TRANSACTIONS_CAPACITY = 10000"

definition new_store :: mem_store where
  "new_store =
     \<lparr>latest_block_number = 0, logs_by_block = [], logs_by_tx = [], log_counter = 0,
      pending_events = [], seen_gers = [], latest_ger = None, hash_chain_value = 0,
      injected_gers = {}, transactions = [], nonces = [], nonce_reservations = [], claimed = [],
      unclaimable = [], unbridgeable_bridge_outs = [], address_mappings = [],
      processed_notes = [], b2agg_note_ids = [], let_gate_baseline = 0, deposit_counter = 0,
      claim_watcher_processed = [], faucets = [], monitor_burn_serials = {},
      monitor_twin_notes = [], monitor_expected_mints = [], monitor_claim_mint_serials = [],
      projector_cursor = 0, reconcile_cursor = 0, l1_evidence_cursor = 0,
      l1_evidence_policy = None, tx_note_links = [], note_tx_links = [],
      claim_calldata_pending = {}\<rparr>"

section \<open>Cursors\<close>

definition set_latest_block_number :: "u64 \<Rightarrow> mem_store \<Rightarrow> mem_store" where
  "set_latest_block_number n s = s\<lparr>latest_block_number := n\<rparr>"

definition advance_block_number :: "mem_store \<Rightarrow> u64 \<times> mem_store" where
  "advance_block_number s =
     (let num = latest_block_number s + 1 in (num, s\<lparr>latest_block_number := num\<rparr>))"

definition set_projector_cursor :: "u64 \<Rightarrow> mem_store \<Rightarrow> mem_store" where
  "set_projector_cursor b s = s\<lparr>projector_cursor := b\<rparr>"

definition set_reconcile_cursor :: "u64 \<Rightarrow> mem_store \<Rightarrow> mem_store" where
  "set_reconcile_cursor b s = s\<lparr>reconcile_cursor := b\<rparr>"

definition set_l1_evidence_cursor :: "u64 \<Rightarrow> mem_store \<Rightarrow> mem_store" where
  "set_l1_evidence_cursor b s = s\<lparr>l1_evidence_cursor := b\<rparr>"

definition bind_l1_evidence_policy :: "string \<Rightarrow> mem_store \<Rightarrow> unit fallible \<times> mem_store" where
  "bind_l1_evidence_policy policy s =
     (case l1_evidence_policy s of
        Some existing \<Rightarrow>
          if existing = policy then (Inr (), s) else (Inl (PolicyMismatch existing policy), s)
      | None \<Rightarrow>
          if l1_evidence_cursor s \<noteq> 0 \<or> list_ex (\<lambda>(_, e). ge_evidence_verified e) (seen_gers s)
          then (Inl UntaggedEvidence, s)
          else (Inr (), s\<lparr>l1_evidence_policy := Some policy\<rparr>))"

section \<open>Lemmas\<close>

lemma new_store_simps [simp]:
  "latest_block_number new_store = 0"
  "logs_by_block new_store = []"
  "logs_by_tx new_store = []"
  "log_counter new_store = 0"
  "pending_events new_store = []"
  "seen_gers new_store = []"
  "latest_ger new_store = None"
  "hash_chain_value new_store = 0"
  "injected_gers new_store = {}"
  "transactions new_store = []"
  "nonces new_store = []"
  "nonce_reservations new_store = []"
  "claimed new_store = []"
  "unclaimable new_store = []"
  "unbridgeable_bridge_outs new_store = []"
  "address_mappings new_store = []"
  "processed_notes new_store = []"
  "b2agg_note_ids new_store = []"
  "let_gate_baseline new_store = 0"
  "deposit_counter new_store = 0"
  "claim_watcher_processed new_store = []"
  "faucets new_store = []"
  "monitor_burn_serials new_store = {}"
  "monitor_twin_notes new_store = []"
  "monitor_expected_mints new_store = []"
  "monitor_claim_mint_serials new_store = []"
  "projector_cursor new_store = 0"
  "reconcile_cursor new_store = 0"
  "l1_evidence_cursor new_store = 0"
  "l1_evidence_policy new_store = None"
  "tx_note_links new_store = []"
  "note_tx_links new_store = []"
  "claim_calldata_pending new_store = {}"
  by (simp_all add: new_store_def)

lemma bind_policy_ok:
  assumes "bind_l1_evidence_policy p s = (Inr (), s')"
  shows "l1_evidence_policy s' = Some p"
    and "l1_evidence_policy s = None \<or> s' = s"
    and "l1_evidence_policy s = None \<Longrightarrow>
         l1_evidence_cursor s = 0 \<and> (\<forall>(g, e) \<in> set (seen_gers s). \<not> ge_evidence_verified e)"
  using assms
  by (auto simp: bind_l1_evidence_policy_def list_ex_iff split: option.splits if_splits)

lemma bind_policy_error_unchanged:
  "bind_l1_evidence_policy p s = (Inl e, s') \<Longrightarrow> s' = s"
  by (auto simp: bind_l1_evidence_policy_def split: option.splits if_splits)

end
