(* ===== verification/Store_Registry.thy ===== *)
theory Store_Registry
  imports Store_State
begin

text \<open>
  The registries of the store (\<^verbatim>\<open>src/src/store/memory.rs\<close>): the faucet registry that routes an
  origin token to its Miden faucet, the quarantine records of claims and bridge-outs the service
  refused, the address mappings, and the rows behind the monitors.
\<close>

section \<open>Faucets\<close>

definition same_origin :: "faucet_entry \<Rightarrow> faucet_entry \<Rightarrow> bool" where
  "same_origin f g = (fe_origin_address f = fe_origin_address g \<and> fe_origin_network f = fe_origin_network g)"

definition refresh_faucet :: "faucet_entry \<Rightarrow> faucet_entry \<Rightarrow> faucet_entry" where
  "refresh_faucet entry existing =
     existing\<lparr>fe_symbol := fe_symbol entry,
       fe_origin_decimals := fe_origin_decimals entry,
       fe_miden_decimals := fe_miden_decimals entry,
       fe_scale := fe_scale entry,
       fe_metadata := (if fe_metadata entry \<noteq> [] then fe_metadata entry else fe_metadata existing)\<rparr>"

text \<open>\<^verbatim>\<open>iter_mut().find\<close>: the first element with the property is updated in place.\<close>

fun update_first :: "('a \<Rightarrow> bool) \<Rightarrow> ('a \<Rightarrow> 'a) \<Rightarrow> 'a list \<Rightarrow> 'a list" where
  "update_first P f [] = []"
| "update_first P f (x # xs) = (if P x then f x # xs else x # update_first P f xs)"

definition register_faucet :: "faucet_entry \<Rightarrow> mem_store \<Rightarrow> unit fallible \<times> mem_store" where
  "register_faucet entry s =
     (let same_id = (\<lambda>f. fe_faucet_id f = fe_faucet_id entry)
      in case find same_id (faucets s) of
           Some existing \<Rightarrow>
             if \<not> same_origin existing entry then (Inl (FaucetRebind (fe_faucet_id entry)), s)
             else (Inr (), s\<lparr>faucets := update_first same_id (refresh_faucet entry) (faucets s)\<rparr>)
         | None \<Rightarrow>
             if list_ex (\<lambda>f. same_origin f entry) (faucets s) then (Inr (), s)
             else (Inr (), s\<lparr>faucets := faucets s @ [entry]\<rparr>))"

definition get_faucet_by_origin :: "b160 \<Rightarrow> u32 \<Rightarrow> mem_store \<Rightarrow> faucet_entry option" where
  "get_faucet_by_origin origin_address origin_network s =
     find (\<lambda>f. fe_origin_address f = origin_address \<and> fe_origin_network f = origin_network) (faucets s)"

definition get_faucet_by_id :: "account_id \<Rightarrow> mem_store \<Rightarrow> faucet_entry option" where
  "get_faucet_by_id faucet_id s = find (\<lambda>f. fe_faucet_id f = faucet_id) (faucets s)"

definition list_faucets :: "mem_store \<Rightarrow> faucet_entry list" where
  "list_faucets s = faucets s"

section \<open>Quarantine records and address mappings\<close>

definition record_unclaimable_claim :: "unclaimable_claim \<Rightarrow> mem_store \<Rightarrow> bool \<times> mem_store" where
  "record_unclaimable_claim entry s =
     (case hm_get (unclaimable s) (uc_global_index entry) of
        Some _ \<Rightarrow> (False, s)
      | None \<Rightarrow> (True, s\<lparr>unclaimable := hm_insert (uc_global_index entry) entry (unclaimable s)\<rparr>))"

definition get_unclaimable_claim :: "u256 \<Rightarrow> mem_store \<Rightarrow> unclaimable_claim option" where
  "get_unclaimable_claim global_index s = hm_get (unclaimable s) global_index"

definition record_unbridgeable_bridge_out :: "unbridgeable_bridge_out \<Rightarrow> mem_store \<Rightarrow> bool \<times> mem_store" where
  "record_unbridgeable_bridge_out entry s =
     (case hm_get (unbridgeable_bridge_outs s) (ub_note_id entry) of
        Some _ \<Rightarrow> (False, s)
      | None \<Rightarrow>
          (True, s\<lparr>unbridgeable_bridge_outs :=
                   hm_insert (ub_note_id entry) entry (unbridgeable_bridge_outs s)\<rparr>))"

definition get_unbridgeable_bridge_out :: "string \<Rightarrow> mem_store \<Rightarrow> unbridgeable_bridge_out option" where
  "get_unbridgeable_bridge_out note_id s = hm_get (unbridgeable_bridge_outs s) note_id"

definition get_address_mapping :: "address \<Rightarrow> mem_store \<Rightarrow> account_id option" where
  "get_address_mapping eth s = hm_get (address_mappings s) eth"

definition set_address_mapping :: "address \<Rightarrow> account_id \<Rightarrow> mem_store \<Rightarrow> mem_store" where
  "set_address_mapping eth miden s = s\<lparr>address_mappings := hm_insert eth miden (address_mappings s)\<rparr>"

section \<open>Monitor rows\<close>

definition burn_serial_seen :: "b256 \<Rightarrow> mem_store \<Rightarrow> bool" where
  "burn_serial_seen serial s = (serial \<in> monitor_burn_serials s)"

definition burn_serial_observe :: "b256 \<Rightarrow> mem_store \<Rightarrow> bool \<times> mem_store" where
  "burn_serial_observe serial s =
     (serial \<notin> monitor_burn_serials s,
      s\<lparr>monitor_burn_serials := insert serial (monitor_burn_serials s)\<rparr>)"

definition twin_note_commitments :: "b256 \<Rightarrow> mem_store \<Rightarrow> b256 list" where
  "twin_note_commitments note_id s =
     (case hm_get (monitor_twin_notes s) note_id of None \<Rightarrow> [] | Some cs \<Rightarrow> cs)"

definition twin_note_observe :: "b256 \<Rightarrow> b256 \<Rightarrow> mem_store \<Rightarrow> bool \<times> mem_store" where
  "twin_note_observe note_id commitment s =
     (let m = hm_or_insert note_id [] (monitor_twin_notes s)
      in if commitment \<in> set (twin_note_commitments note_id s)
         then (False, s\<lparr>monitor_twin_notes := m\<rparr>)
         else (True, s\<lparr>monitor_twin_notes := hm_push note_id commitment m\<rparr>))"

definition claim_mint_expected_record :: "b256 \<Rightarrow> expected_mint \<Rightarrow> mem_store \<Rightarrow> mem_store" where
  "claim_mint_expected_record serial identity s =
     s\<lparr>monitor_claim_mint_serials := hm_or_insert serial identity (monitor_claim_mint_serials s)\<rparr>"

definition claim_mint_expected_get :: "b256 \<Rightarrow> mem_store \<Rightarrow> expected_mint option" where
  "claim_mint_expected_get serial s = hm_get (monitor_claim_mint_serials s) serial"

definition expected_mint_record :: "b256 \<Rightarrow> b256 \<Rightarrow> mem_store \<Rightarrow> mem_store" where
  "expected_mint_record global_index expected_mint s =
     s\<lparr>monitor_expected_mints :=
        hm_insert global_index
          \<lparr>er_expected_mint = expected_mint, er_ticks_pending = 0, er_alerted = False\<rparr>
          (monitor_expected_mints s)\<rparr>"

definition expected_mint_remove :: "b256 \<Rightarrow> mem_store \<Rightarrow> mem_store" where
  "expected_mint_remove global_index s =
     s\<lparr>monitor_expected_mints := hm_remove global_index (monitor_expected_mints s)\<rparr>"

definition expected_mint_load_all :: "mem_store \<Rightarrow> (b256 \<times> b256 \<times> u32 \<times> bool) list" where
  "expected_mint_load_all s =
     map (\<lambda>(gi, row). (gi, er_expected_mint row, er_ticks_pending row, er_alerted row))
       (monitor_expected_mints s)"

definition expected_mint_update_tick :: "b256 \<Rightarrow> u32 \<Rightarrow> bool \<Rightarrow> mem_store \<Rightarrow> mem_store" where
  "expected_mint_update_tick global_index ticks_pending alerted s =
     s\<lparr>monitor_expected_mints :=
        (case hm_get (monitor_expected_mints s) global_index of
           None \<Rightarrow> monitor_expected_mints s
         | Some row \<Rightarrow>
             hm_insert global_index (row\<lparr>er_ticks_pending := ticks_pending, er_alerted := alerted\<rparr>)
               (monitor_expected_mints s))\<rparr>"

section \<open>First write wins\<close>

interpretation unclaimables: first_write_reported uc_global_index id record_unclaimable_claim get_unclaimable_claim
  by unfold_locales
    (auto simp: record_unclaimable_claim_def get_unclaimable_claim_def split: option.splits)

interpretation unbridgeables: first_write_reported ub_note_id id record_unbridgeable_bridge_out
    get_unbridgeable_bridge_out
  by unfold_locales
    (auto simp: record_unbridgeable_bridge_out_def get_unbridgeable_bridge_out_def split: option.splits)

interpretation mints: first_write_wins fst snd "\<lambda>(serial, m). claim_mint_expected_record serial m"
    claim_mint_expected_get
  by unfold_locales
    (auto simp: claim_mint_expected_record_def claim_mint_expected_get_def split: option.splits prod.splits)

interpretation burns: first_write_reported id "\<lambda>_. ()" burn_serial_observe
    "\<lambda>serial s. if burn_serial_seen serial s then Some () else None"
  by unfold_locales (auto simp: burn_serial_observe_def burn_serial_seen_def)

lemma twin_note_observe_spec:
  "fst (twin_note_observe n c s) \<longleftrightarrow> c \<notin> set (twin_note_commitments n s)"
  "set (twin_note_commitments n' (snd (twin_note_observe n c s))) =
     set (twin_note_commitments n' s) \<union> (if n' = n then {c} else {})"
  by (auto simp: twin_note_observe_def twin_note_commitments_def Let_def split: option.split)

interpretation twins: first_write_reported id "\<lambda>_. ()" "\<lambda>(n, c). twin_note_observe n c"
    "\<lambda>(n, c) s. if c \<in> set (twin_note_commitments n s) then Some () else None"
  by unfold_locales (auto simp: twin_note_observe_spec split: if_splits)

section \<open>The faucet registry\<close>

text \<open>No two faucets share an id and no two share an origin.\<close>

definition faucets_inv :: "mem_store \<Rightarrow> bool" where
  "faucets_inv s \<longleftrightarrow>
     distinct (map fe_faucet_id (faucets s)) \<and>
     distinct (map (\<lambda>f. (fe_origin_address f, fe_origin_network f)) (faucets s))"

lemma map_update_first:
  "(\<And>x. g (f x) = g x) \<Longrightarrow> map g (update_first P f xs) = map g xs"
  by (induction xs) simp_all

lemma find_update_first:
  assumes "\<And>x. Q (f x) = Q x" and "find Q xs = Some x"
  shows "find Q (update_first P f xs) = Some x \<or> find Q (update_first P f xs) = Some (f x)"
  using assms(2) by (induction xs) (simp_all add: assms(1) split: if_splits)

lemma find_append_Some: "find Q xs = Some x \<Longrightarrow> find Q (xs @ ys) = Some x"
  by (induction xs) (auto split: if_splits)

lemma refresh_faucet_simps [simp]:
  "fe_faucet_id (refresh_faucet e f) = fe_faucet_id f"
  "fe_origin_address (refresh_faucet e f) = fe_origin_address f"
  "fe_origin_network (refresh_faucet e f) = fe_origin_network f"
  by (simp_all add: refresh_faucet_def)

lemma register_faucet_cases [case_names rebind refresh taken fresh]:
  obtains
    (rebind) f where "find (\<lambda>f. fe_faucet_id f = fe_faucet_id e) (faucets s) = Some f"
      "\<not> same_origin f e" "register_faucet e s = (Inl (FaucetRebind (fe_faucet_id e)), s)"
  | (refresh) f where "find (\<lambda>f. fe_faucet_id f = fe_faucet_id e) (faucets s) = Some f" "same_origin f e"
      "register_faucet e s = (Inr (), s\<lparr>faucets :=
         update_first (\<lambda>f. fe_faucet_id f = fe_faucet_id e) (refresh_faucet e) (faucets s)\<rparr>)"
  | (taken) f where "\<forall>f \<in> set (faucets s). fe_faucet_id f \<noteq> fe_faucet_id e"
      "f \<in> set (faucets s)" "same_origin f e" "register_faucet e s = (Inr (), s)"
  | (fresh) "\<forall>f \<in> set (faucets s). fe_faucet_id f \<noteq> fe_faucet_id e"
      "\<forall>f \<in> set (faucets s). \<not> same_origin f e"
      "register_faucet e s = (Inr (), s\<lparr>faucets := faucets s @ [e]\<rparr>)"
proof (cases "find (\<lambda>f. fe_faucet_id f = fe_faucet_id e) (faucets s)")
  case None
  then have "\<forall>f \<in> set (faucets s). fe_faucet_id f \<noteq> fe_faucet_id e" by (auto simp: find_None_iff)
  with None taken fresh show ?thesis
    by (cases "list_ex (\<lambda>f. same_origin f e) (faucets s)")
      (auto simp: register_faucet_def list_ex_iff)
next
  case (Some f)
  with rebind refresh show ?thesis by (cases "same_origin f e") (auto simp: register_faucet_def)
qed

lemma faucets_inv_register: "faucets_inv s \<Longrightarrow> faucets_inv (snd (register_faucet e s))"
  by (cases rule: register_faucet_cases [of e s])
    (auto simp: faucets_inv_def map_update_first same_origin_def)

interpretation registry: invariant_run "\<lambda>e s. snd (register_faucet e s)" faucets_inv
  by unfold_locales (rule faucets_inv_register)

text \<open>What a registration does to the entry of a route.\<close>

lemma route_register:
  assumes "get_faucet_by_origin a n s = Some f"
  shows "\<exists>f'. get_faucet_by_origin a n (snd (register_faucet e s)) = Some f' \<and>
              fe_faucet_id f' = fe_faucet_id f \<and> (fe_metadata f \<noteq> [] \<longrightarrow> fe_metadata f' \<noteq> [])"
proof (cases rule: register_faucet_cases [of e s])
  case (refresh g)
  show ?thesis
    using find_update_first [OF _ assms [unfolded get_faucet_by_origin_def], of "refresh_faucet e"
        "\<lambda>f. fe_faucet_id f = fe_faucet_id e"] refresh(3)
    by (auto simp: get_faucet_by_origin_def refresh_faucet_def)
qed (use assms in \<open>auto simp: get_faucet_by_origin_def find_append_Some\<close>)

section \<open>Properties\<close>

text \<open>
  C31. A token route is permanent and unique. After any sequence of registrations from a consistent
  registry, faucet ids and origins are still unique, the route of an origin that was registered
  still leads to the same faucet, and metadata that was recorded for it is never erased.
\<close>

theorem faucet_routes_are_stable:
  assumes "faucets_inv s" and "s' = fold (\<lambda>e s. snd (register_faucet e s)) es s"
  shows "faucets_inv s' \<and>
    (\<forall>a n f. get_faucet_by_origin a n s = Some f \<longrightarrow>
       (\<exists>f'. get_faucet_by_origin a n s' = Some f' \<and> fe_faucet_id f' = fe_faucet_id f \<and>
             (fe_metadata f \<noteq> [] \<longrightarrow> fe_metadata f' \<noteq> [])))"
proof
  show "faucets_inv s'" unfolding assms(2) using assms(1) by (rule registry.run_inv)
  have "\<exists>f'. get_faucet_by_origin a n (fold (\<lambda>e s. snd (register_faucet e s)) es s) = Some f' \<and>
      fe_faucet_id f' = fe_faucet_id f \<and> (fe_metadata f \<noteq> [] \<longrightarrow> fe_metadata f' \<noteq> [])"
    if "get_faucet_by_origin a n s = Some f" for a n f
    using that
  proof (induction es arbitrary: s f)
    case (Cons e es)
    from route_register [OF Cons.prems, of e] Cons.IH show ?case by fastforce
  qed simp
  then show "\<forall>a n f. get_faucet_by_origin a n s = Some f \<longrightarrow>
       (\<exists>f'. get_faucet_by_origin a n s' = Some f' \<and> fe_faucet_id f' = fe_faucet_id f \<and>
             (fe_metadata f \<noteq> [] \<longrightarrow> fe_metadata f' \<noteq> []))"
    unfolding assms(2) by blast
qed

definition demo_faucet :: "account_id \<Rightarrow> byte list \<Rightarrow> faucet_entry" where
  "demo_faucet i md =
     \<lparr>fe_faucet_id = i, fe_origin_address = 5, fe_origin_network = 0, fe_symbol = ''TKN'',
      fe_origin_decimals = 18, fe_miden_decimals = 8, fe_scale = 10, fe_metadata = md\<rparr>"

theorem faucet_routes_are_stable_witness:
  "\<exists>f'. get_faucet_by_origin 5 0
      (fold (\<lambda>e s. snd (register_faucet e s)) [demo_faucet 2 [], demo_faucet 1 []]
        (new_store\<lparr>faucets := [demo_faucet 1 [7]]\<rparr>)) = Some f' \<and>
     fe_faucet_id f' = 1 \<and> fe_metadata f' \<noteq> []"
proof -
  let ?s = "new_store\<lparr>faucets := [demo_faucet 1 [7]]\<rparr>"
  have "faucets_inv ?s" by (simp add: faucets_inv_def)
  moreover have "get_faucet_by_origin 5 0 ?s = Some (demo_faucet 1 [7])"
    by (simp add: get_faucet_by_origin_def demo_faucet_def)
  ultimately show ?thesis
    using faucet_routes_are_stable [of ?s _ "[demo_faucet 2 [], demo_faucet 1 []]", OF _ refl]
    by (fastforce simp: demo_faucet_def)
qed

text \<open>
  Quarantine records are written once: of any sequence of refusals of bridge-out notes, exactly
  one per note is reported as new (none if the note was recorded before), the record kept is the
  first, and a retry changes nothing.
\<close>

theorem unbridgeable_recorded_once:
  "length (filter (\<lambda>(e, b). ub_note_id e = k \<and> b) (answers record_unbridgeable_bridge_out es s)) =
     (if get_unbridgeable_bridge_out k s = None \<and> k \<in> ub_note_id ` set es then 1 else 0) \<and>
   get_unbridgeable_bridge_out k (fold (\<lambda>e s. snd (record_unbridgeable_bridge_out e s)) es s) =
     (case get_unbridgeable_bridge_out k s of
        Some v \<Rightarrow> Some v
      | None \<Rightarrow> find (\<lambda>e. ub_note_id e = k) es)"
  using unbridgeables.one_win_per_key [of k es s] unbridgeables.run_first [of k es s]
  by (simp add: option.map_id split: option.split)

end
