(* ===== verification/Trackers.thy ===== *)
theory Trackers
  imports Store_Registry
begin

text \<open>
  The trackers behind the monitors: burn serials (\<^verbatim>\<open>src/src/burn_serial_tracker.rs\<close>), twin notes
  (\<^verbatim>\<open>src/src/twin_note_detector.rs\<close>) and expected mints (\<^verbatim>\<open>src/src/expected_mint_tracker.rs\<close>). Each is
  an LRU cache in front of rows of the store; a state is the pair of the two. The lemmas show that
  the cache, its evictions and process restarts never change a verdict, and that a mint that does
  not arrive is reported once, at the threshold.
\<close>

section \<open>Burn serials\<close>

datatype burn_outcome = BurnNew | BurnDuplicate

definition burn_record ::
    "externals \<Rightarrow> nat \<Rightarrow> b256 \<Rightarrow> unit lru \<times> mem_store \<Rightarrow> burn_outcome \<times> unit lru \<times> mem_store" where
  "burn_record E cap serial st =
     (let (cache, s) = st
      in case hm_get cache serial of
           Some _ \<Rightarrow> (BurnDuplicate, lru_touch serial cache, s)
         | None \<Rightarrow>
             (let (inserted, s') = burn_serial_observe serial s;
                  cache' = lru_put E cap serial () cache
              in if inserted then (BurnNew, cache', s') else (BurnDuplicate, cache', s')))"

section \<open>Twin notes\<close>

datatype twin_outcome = TwinNew | LegitimateDuplicate | TwinDetected "b256 list"

definition twin_record ::
    "externals \<Rightarrow> nat \<Rightarrow> b256 \<times> b256 \<Rightarrow> b256 list lru \<times> mem_store \<Rightarrow> twin_outcome \<times> b256 list lru \<times> mem_store"
  where
  "twin_record E cap obs st =
     (let (note_id, commitment) = obs; (cache, s) = st;
          prior0 = (case hm_get cache note_id of Some existing \<Rightarrow> existing | None \<Rightarrow> []);
          cache0 = lru_touch note_id cache;
          prior = (if prior0 = [] then twin_note_commitments note_id s else prior0);
          outcome = (if prior = [] then TwinNew
                     else if commitment \<in> set prior then LegitimateDuplicate
                     else TwinDetected prior);
          (inserted, s') = twin_note_observe note_id commitment s
      in if inserted \<or> commitment \<notin> set prior
         then (outcome,
               lru_put E cap note_id (if commitment \<notin> set prior then prior @ [commitment] else prior) cache0,
               s')
         else (outcome, lru_put E cap note_id prior cache0, s'))"

section \<open>Expected mints\<close>

datatype mint_status = MintLanded | MintPending u32 | StaleAlert u32

definition record_expected ::
    "externals \<Rightarrow> nat \<Rightarrow> b256 \<Rightarrow> b256 \<Rightarrow> expected_mint_row lru \<times> mem_store \<Rightarrow> expected_mint_row lru \<times> mem_store"
  where
  "record_expected E cap global_index expected_mint st =
     (let (cache, s) = st
      in (lru_put E cap global_index
            \<lparr>er_expected_mint = expected_mint, er_ticks_pending = 0, er_alerted = False\<rparr> cache,
          expected_mint_record global_index expected_mint s))"

type_synonym tick_state =
  "(b256 \<times> mint_status) list \<times> b256 list \<times> expected_mint_row lru \<times> mem_store"

definition tick_row ::
    "externals \<Rightarrow> nat \<Rightarrow> b256 set \<Rightarrow> u32 \<Rightarrow> b256 \<times> b256 \<times> u32 \<times> bool \<Rightarrow> tick_state \<Rightarrow> tick_state" where
  "tick_row E cap landed threshold row st =
     (let (gi, expected_mint, ticks_pending, alerted) = row;
          (results, to_remove, cache, s) = st
      in if expected_mint \<in> landed then (results @ [(gi, MintLanded)], to_remove @ [gi], cache, s)
         else
           let next_ticks = saturating_add ticks_pending 1
           in if threshold \<le> next_ticks \<and> \<not> alerted
              then (results @ [(gi, StaleAlert next_ticks)], to_remove @ [gi], cache, s)
              else if alerted then (results, to_remove @ [gi], cache, s)
              else (results @ [(gi, MintPending next_ticks)], to_remove,
                    lru_put E cap gi
                      \<lparr>er_expected_mint = expected_mint, er_ticks_pending = next_ticks, er_alerted = False\<rparr> cache,
                    expected_mint_update_tick gi next_ticks False s))"

definition tick ::
    "externals \<Rightarrow> nat \<Rightarrow> b256 set \<Rightarrow> u32 \<Rightarrow> expected_mint_row lru \<times> mem_store \<Rightarrow>
     (b256 \<times> mint_status) list \<times> expected_mint_row lru \<times> mem_store" where
  "tick E cap landed threshold st =
     (let (cache, s) = st;
          (results, to_remove, cache1, s1) =
            fold (tick_row E cap landed threshold) (expected_mint_load_all s) ([], [], cache, s)
      in (sort_key fst results, fold hm_remove to_remove cache1, fold expected_mint_remove to_remove s1))"

definition mark_landed ::
    "b256 \<Rightarrow> expected_mint_row lru \<times> mem_store \<Rightarrow> expected_mint_row lru \<times> mem_store" where
  "mark_landed global_index st =
     (let (cache, s) = st in (hm_remove global_index cache, expected_mint_remove global_index s))"

definition pending_count :: "mem_store \<Rightarrow> nat" where
  "pending_count s = length (expected_mint_load_all s)"

section \<open>The caches are transparent\<close>

text \<open>The verdicts that the rows of the store alone give.\<close>

definition burn_plain :: "b256 \<Rightarrow> mem_store \<Rightarrow> burn_outcome \<times> mem_store" where
  "burn_plain serial s =
     (let (inserted, s') = burn_serial_observe serial s
      in (if inserted then BurnNew else BurnDuplicate, s'))"

definition twin_plain :: "b256 \<times> b256 \<Rightarrow> mem_store \<Rightarrow> twin_outcome \<times> mem_store" where
  "twin_plain obs s =
     (let (note_id, commitment) = obs; prior = twin_note_commitments note_id s
      in (if prior = [] then TwinNew
          else if commitment \<in> set prior then LegitimateDuplicate else TwinDetected prior,
          snd (twin_note_observe note_id commitment s)))"

definition burn_sound :: "unit lru \<Rightarrow> mem_store \<Rightarrow> bool" where
  "burn_sound cache s \<longleftrightarrow> (\<forall>k. hm_get cache k \<noteq> None \<longrightarrow> burn_serial_seen k s)"

definition twin_sound :: "b256 list lru \<Rightarrow> mem_store \<Rightarrow> bool" where
  "twin_sound cache s \<longleftrightarrow>
     (\<forall>n cs. hm_get cache n = Some cs \<longrightarrow> cs = twin_note_commitments n s)"

lemma burn_record_plain:
  assumes "burn_sound cache s"
  shows "\<exists>cache'. burn_record E cap k (cache, s) = (fst (burn_plain k s), cache', snd (burn_plain k s)) \<and>
           burn_sound cache' (snd (burn_plain k s))"
proof (cases "hm_get cache k")
  case None
  then show ?thesis
    using assms
    by (auto simp: burn_record_def burn_plain_def burn_sound_def burn_serial_observe_def burn_serial_seen_def
        Let_def hm_get_lru_put split: if_splits)
next
  case (Some u)
  then have "k \<in> monitor_burn_serials s" using assms by (simp add: burn_sound_def burn_serial_seen_def)
  with Some assms show ?thesis
    by (auto simp: burn_record_def burn_plain_def burn_sound_def burn_serial_observe_def burn_serial_seen_def
        insert_absorb)
qed

interpretation burn_cache: cached_monitor "burn_record E cap" "[]" burn_plain burn_sound for E cap
  by unfold_locales (simp add: burn_sound_def, rule burn_record_plain)

lemma twin_commitments_after:
  "twin_note_commitments n' (snd (twin_note_observe n c s)) =
     (if n' = n \<and> c \<notin> set (twin_note_commitments n s) then twin_note_commitments n s @ [c]
      else twin_note_commitments n' s)"
  by (auto simp: twin_note_observe_def twin_note_commitments_def Let_def split: option.split)

lemma twin_record_plain:
  assumes "twin_sound cache s"
  shows "\<exists>cache'. twin_record E cap (n, c) (cache, s) =
             (fst (twin_plain (n, c) s), cache', snd (twin_plain (n, c) s)) \<and>
           twin_sound cache' (snd (twin_plain (n, c) s))"
proof -
  let ?prior = "twin_note_commitments n s"
  have "twin_record E cap (n, c) (cache, s) =
     (fst (twin_plain (n, c) s),
      lru_put E cap n (if c \<notin> set ?prior then ?prior @ [c] else ?prior) (lru_touch n cache),
      snd (twin_plain (n, c) s))"
  proof (cases "hm_get cache n")
    case None
    then show ?thesis
      by (simp add: twin_record_def twin_plain_def twin_note_observe_spec(1) Let_def case_prod_unfold)
  next
    case (Some cs)
    then have "cs = ?prior" using assms by (simp add: twin_sound_def)
    with Some show ?thesis
      by (simp add: twin_record_def twin_plain_def twin_note_observe_spec(1) Let_def case_prod_unfold)
  qed
  moreover have "twin_sound (lru_put E cap n (if c \<notin> set ?prior then ?prior @ [c] else ?prior)
      (lru_touch n cache)) (snd (twin_plain (n, c) s))"
    using assms
    by (auto simp: twin_sound_def twin_plain_def Let_def hm_get_lru_put twin_commitments_after split: if_splits)
  ultimately show ?thesis by blast
qed

interpretation twin_cache: cached_monitor "twin_record E cap" "[]" twin_plain twin_sound for E cap
proof
  show "twin_sound [] s" for s by (simp add: twin_sound_def)
  show "\<exists>cache'. twin_record E cap k (cache, s) = (fst (twin_plain k s), cache', snd (twin_plain k s)) \<and>
      twin_sound cache' (snd (twin_plain k s))" if "twin_sound cache s" for cache s k
    using twin_record_plain [OF that, of E cap "fst k" "snd k"] by simp
qed

section \<open>The staleness tick\<close>

definition row_status :: "b256 set \<Rightarrow> u32 \<Rightarrow> expected_mint_row \<Rightarrow> mint_status option" where
  "row_status landed threshold row =
     (let n = saturating_add (er_ticks_pending row) 1
      in if er_expected_mint row \<in> landed then Some MintLanded
         else if er_alerted row then None
         else if threshold \<le> n then Some (StaleAlert n)
         else Some (MintPending n))"

definition row_after :: "b256 set \<Rightarrow> u32 \<Rightarrow> expected_mint_row \<Rightarrow> expected_mint_row option" where
  "row_after landed threshold row =
     (case row_status landed threshold row of
        Some (MintPending n) \<Rightarrow> Some (row\<lparr>er_ticks_pending := n\<rparr>)
      | _ \<Rightarrow> None)"

definition row_tuple :: "b256 \<times> expected_mint_row \<Rightarrow> b256 \<times> b256 \<times> u32 \<times> bool" where
  "row_tuple = (\<lambda>(gi, row). (gi, er_expected_mint row, er_ticks_pending row, er_alerted row))"

lemma tick_row_cases:
  "tick_row E cap landed thr (row_tuple (gi, row)) (results, dead, cache, s) =
     (case row_status landed thr row of
        None \<Rightarrow> (results, dead @ [gi], cache, s)
      | Some (MintPending n) \<Rightarrow>
          (results @ [(gi, MintPending n)], dead,
           lru_put E cap gi
             \<lparr>er_expected_mint = er_expected_mint row, er_ticks_pending = n, er_alerted = False\<rparr> cache,
           expected_mint_update_tick gi n False s)
      | Some st \<Rightarrow> (results @ [(gi, st)], dead @ [gi], cache, s))"
  by (simp add: tick_row_def row_tuple_def row_status_def Let_def)

lemma tick_fold_lists:
  "\<exists>cache' s'. fold (tick_row E cap landed thr) (map row_tuple rows) (results, dead, cache, s) =
     (results @ List.map_filter (\<lambda>(gi, row). map_option (Pair gi) (row_status landed thr row)) rows,
      dead @ map fst (filter (\<lambda>(gi, row). row_after landed thr row = None) rows), cache', s')"
proof (induction rows arbitrary: results dead cache s)
  case Nil
  then show ?case by (simp add: map_filter_simps)
next
  case (Cons x rows)
  obtain gi row where x: "x = (gi, row)" by (cases x)
  show ?case
  proof (cases "row_status landed thr row")
    case None
    then show ?thesis
      using Cons.IH [of results "dead @ [gi]" cache s]
      by (simp add: x tick_row_cases map_filter_simps row_after_def)
  next
    case (Some st)
    obtain d1 c1 s1 where
      "tick_row E cap landed thr (row_tuple (gi, row)) (results, dead, cache, s) = (results @ [(gi, st)], d1, c1, s1)"
      "d1 = dead @ map fst (filter (\<lambda>(gi, row). row_after landed thr row = None) [(gi, row)])"
      using Some by (cases st) (auto simp: tick_row_cases row_after_def)
    then show ?thesis
      using Cons.IH [of "results @ [(gi, st)]" d1 c1 s1] Some
      by (cases "row_after landed thr row") (simp_all add: x map_filter_simps)
  qed
qed

lemma tick_fold_rows:
  assumes "distinct (map fst rows)"
    and "fold (tick_row E cap landed thr) (map row_tuple rows) (results, dead, cache, s) = (r', d', c', s')"
    and "\<And>gi row. (gi, row) \<in> set rows \<Longrightarrow> hm_get (monitor_expected_mints s) gi = Some row"
  shows "hm_get (monitor_expected_mints s') g =
           (case hm_get (monitor_expected_mints s) g of
              None \<Rightarrow> None
            | Some row \<Rightarrow>
                Some (if g \<in> fst ` set rows
                      then (case row_after landed thr row of None \<Rightarrow> row | Some row' \<Rightarrow> row')
                      else row))"
  using assms
proof (induction rows arbitrary: results dead cache s)
  case Nil
  then show ?case by (simp split: option.split)
next
  case (Cons x rows)
  obtain gi row where x: "x = (gi, row)" by (cases x)
  have row: "hm_get (monitor_expected_mints s) gi = Some row" using Cons.prems(3) by (simp add: x)
  obtain r1 d1 c1 s1 where step:
    "tick_row E cap landed thr (row_tuple (gi, row)) (results, dead, cache, s) = (r1, d1, c1, s1)"
    by (metis prod_cases4)
  have s1: "hm_get (monitor_expected_mints s1) g' =
      (if g' = gi then Some (case row_after landed thr row of None \<Rightarrow> row | Some row' \<Rightarrow> row')
       else hm_get (monitor_expected_mints s) g')" for g'
  proof (cases "row_status landed thr row")
    case (Some st)
    have "\<not> er_alerted row" if "st = MintPending n" for n
      using Some that by (auto simp: row_status_def Let_def split: if_splits)
    then show ?thesis
      using step row Some
      by (auto simp: tick_row_cases row_after_def expected_mint_update_tick_def split: mint_status.splits)
  qed (use step row in \<open>auto simp: tick_row_cases row_after_def\<close>)
  have fresh: "gi \<notin> fst ` set rows" and d: "distinct (map fst rows)" using Cons.prems(1) x by auto
  have "hm_get (monitor_expected_mints s') g =
      (case hm_get (monitor_expected_mints s1) g of None \<Rightarrow> None
       | Some row \<Rightarrow> Some (if g \<in> fst ` set rows
           then (case row_after landed thr row of None \<Rightarrow> row | Some row' \<Rightarrow> row') else row))"
  proof (rule Cons.IH [OF d])
    show "fold (tick_row E cap landed thr) (map row_tuple rows) (r1, d1, c1, s1) = (r', d', c', s')"
      using Cons.prems(2) step by (simp add: x)
    show "hm_get (monitor_expected_mints s1) gi' = Some row'" if "(gi', row') \<in> set rows" for gi' row'
    proof -
      have "gi' \<noteq> gi" using fresh that by force
      then show ?thesis using Cons.prems(3) that by (simp add: s1)
    qed
  qed
  then show ?case
    using fresh row by (auto simp: s1 x split: option.splits)
qed

lemma fold_expected_mint_remove:
  "hm_get (monitor_expected_mints (fold expected_mint_remove gis s)) g =
     (if g \<in> set gis then None else hm_get (monitor_expected_mints s) g)"
  by (induction gis arbitrary: s) (auto simp: expected_mint_remove_def)

lemma load_all_tuples: "expected_mint_load_all s = map row_tuple (monitor_expected_mints s)"
  by (simp add: expected_mint_load_all_def row_tuple_def)

lemma map_filter_fst_in:
  "(k, w) \<in> set (List.map_filter (\<lambda>(k, v). map_option (Pair k) (f v)) xs) \<Longrightarrow> k \<in> fst ` set xs"
  by (force simp: map_filter_def)

lemma distinct_map_filter_fst:
  "distinct (map fst xs) \<Longrightarrow> distinct (map fst (List.map_filter (\<lambda>(k, v). map_option (Pair k) (f v)) xs))"
  by (induction xs) (auto simp: map_filter_simps split: option.split dest: map_filter_fst_in)

lemma tick_wf:
  assumes "hm_wf (monitor_expected_mints s)" and "tick E cap landed thr (cache, s) = (results, cache', s')"
  shows "hm_wf (monitor_expected_mints s')"
proof -
  have upd: "hm_wf (monitor_expected_mints (expected_mint_update_tick gi n b s))"
    if "hm_wf (monitor_expected_mints s)" for gi n b s
    using that by (simp add: expected_mint_update_tick_def split: option.split)
  have rows: "hm_wf (monitor_expected_mints (snd (snd (snd (fold (tick_row E cap landed thr) rows st)))))"
    if "hm_wf (monitor_expected_mints (snd (snd (snd st))))" for rows st
    using that
    by (induction rows arbitrary: st) (auto simp: tick_row_def upd Let_def split: prod.splits)
  have rem: "hm_wf (monitor_expected_mints (fold expected_mint_remove gis s))"
    if "hm_wf (monitor_expected_mints s)" for gis s
    using that by (induction gis arbitrary: s) (auto simp: expected_mint_remove_def)
  show ?thesis
    using assms(2) rem [OF rows [of "([], [], cache, s)" "expected_mint_load_all s"]] assms(1)
    by (auto simp: tick_def split: prod.splits)
qed

text \<open>One tick, by rows: the verdicts, and the rows that are left.\<close>

lemma tick_spec:
  assumes wf: "hm_wf (monitor_expected_mints s)"
    and t: "tick E cap landed thr (cache, s) = (results, cache', s')"
  shows "set results =
           {(gi, st). \<exists>row. hm_get (monitor_expected_mints s) gi = Some row \<and> row_status landed thr row = Some st}"
    and "sorted (map fst results)" and "distinct (map fst results)"
    and "hm_get (monitor_expected_mints s') g =
           Option.bind (hm_get (monitor_expected_mints s) g) (row_after landed thr)"
proof -
  let ?rows = "monitor_expected_mints s"
  let ?res = "List.map_filter (\<lambda>(gi, row). map_option (Pair gi) (row_status landed thr row)) ?rows"
  let ?dead = "map fst (filter (\<lambda>(gi, row). row_after landed thr row = None) ?rows)"
  obtain c1 s1 where f: "fold (tick_row E cap landed thr) (expected_mint_load_all s) ([], [], cache, s) =
      (?res, ?dead, c1, s1)"
    using tick_fold_lists [of E cap landed thr ?rows "[]" "[]" cache s] by (auto simp: load_all_tuples)
  note s1 = tick_fold_rows [OF wf [unfolded hm_wf_def hm_keys_def] f [unfolded load_all_tuples], of g,
      unfolded hm_set_iff [OF wf]]
  have res: "results = sort_key fst ?res" and s': "s' = fold expected_mint_remove ?dead s1"
    using t by (simp_all add: tick_def f)
  show "set results = {(gi, st). \<exists>row. hm_get ?rows gi = Some row \<and> row_status landed thr row = Some st}"
    by (force simp: res map_filter_def hm_set_iff [OF wf] simp flip: hm_set_iff [OF wf])
  show "sorted (map fst results)" by (simp add: res)
  have "distinct (map fst ?res)"
    using wf unfolding hm_wf_def hm_keys_def by (rule distinct_map_filter_fst)
  then show "distinct (map fst results)"
    by (simp add: res distinct_map)
  show "hm_get (monitor_expected_mints s') g = Option.bind (hm_get ?rows g) (row_after landed thr)"
  proof (cases "hm_get ?rows g")
    case None
    then have "g \<notin> set ?dead" by (auto simp: hm_set_iff [OF wf])
    with None s1 show ?thesis by (simp add: s' fold_expected_mint_remove del: set_map)
  next
    case (Some row)
    then have "g \<in> fst ` set ?rows" using hm_get_in by force
    moreover have "g \<in> set ?dead \<longleftrightarrow> row_after landed thr row = None"
      using Some by (auto simp: hm_set_iff [OF wf] image_iff)
    ultimately show ?thesis
      using Some s1 by (auto simp: s' fold_expected_mint_remove simp del: set_map)
  qed
qed

text \<open>A sequence of ticks, with the notes that landed before each.\<close>

fun tick_run ::
    "externals \<Rightarrow> nat \<Rightarrow> u32 \<Rightarrow> b256 set list \<Rightarrow> expected_mint_row lru \<times> mem_store \<Rightarrow> (b256 \<times> mint_status) list list"
  where
  "tick_run E cap thr [] st = []"
| "tick_run E cap thr (landed # rest) st =
     (let (results, st') = tick E cap landed thr st in results # tick_run E cap thr rest st')"

lemma tick_step:
  assumes "hm_wf (monitor_expected_mints s)"
  obtains results cache' s' where "tick E cap landed thr (cache, s) = (results, cache', s')"
    "hm_wf (monitor_expected_mints s')"
    "map_of results g = Option.bind (hm_get (monitor_expected_mints s) g) (row_status landed thr)"
    "hm_get (monitor_expected_mints s') g =
       Option.bind (hm_get (monitor_expected_mints s) g) (row_after landed thr)"
proof -
  obtain results cache' s' where t: "tick E cap landed thr (cache, s) = (results, cache', s')"
    by (metis prod_cases3)
  have "map_of results g = Option.bind (hm_get (monitor_expected_mints s) g) (row_status landed thr)"
  proof (cases "map_of results g")
    case None
    then have "(g, st) \<notin> set results" for st unfolding map_of_eq_None_iff by force
    with None show ?thesis
      unfolding tick_spec(1) [OF assms t]
      by (cases "hm_get (monitor_expected_mints s) g"; cases "Option.bind (hm_get (monitor_expected_mints s) g) (row_status landed thr)")
        auto
  next
    case (Some st)
    then show ?thesis using map_of_SomeD [OF Some] unfolding tick_spec(1) [OF assms t] by auto
  qed
  moreover have "hm_wf (monitor_expected_mints s')" using assms t by (rule tick_wf)
  ultimately show ?thesis using that t tick_spec(4) [OF assms t] by blast
qed

lemma tick_run_absent:
  assumes "hm_wf (monitor_expected_mints s)" and "hm_get (monitor_expected_mints s) g = None"
    and "i < length Ls"
  shows "map_of (tick_run E cap thr Ls (cache, s) ! i) g = None"
  using assms
proof (induction Ls arbitrary: cache s i)
  case (Cons L Ls)
  obtain results cache' s' where t: "tick E cap L thr (cache, s) = (results, cache', s')"
    "hm_wf (monitor_expected_mints s')" "map_of results g = None" "hm_get (monitor_expected_mints s') g = None"
    using tick_step [OF Cons.prems(1), of E cap L thr cache g] Cons.prems(2) by auto
  then show ?case using Cons.IH [OF t(2) t(4)] Cons.prems(3) by (cases i) simp_all
qed simp

lemma tick_run_pending:
  assumes "hm_wf (monitor_expected_mints s)" and "hm_get (monitor_expected_mints s) g = Some row"
    and "\<not> er_alerted row" and "\<forall>L \<in> set Ls. er_expected_mint row \<notin> L" and "i < length Ls"
    and "unat (er_ticks_pending row) < max 1 (unat thr)"
  shows "map_of (tick_run E cap thr Ls (cache, s) ! i) g =
    (let n = unat (er_ticks_pending row) + i + 1
     in if n < unat thr then Some (MintPending (of_nat n))
        else if n = max 1 (unat thr) then Some (StaleAlert (of_nat n))
        else None)"
  using assms
proof (induction Ls arbitrary: cache s i row)
  case (Cons L Ls)
  let ?t = "er_ticks_pending row" and ?n = "er_ticks_pending row + 1"
  have "unat ?t < unat (- 1 :: u32)"
    using Cons.prems(6) word_order.extremum [of thr]
    by (auto simp: word_le_nat_alt unsigned_minus_1_eq_mask mask_eq_exp_minus_1)
  then have "?t \<noteq> - 1" and "unat ?t < 2 ^ 32 - 1"
    by (auto simp: unsigned_minus_1_eq_mask mask_eq_exp_minus_1)
  then have n: "saturating_add ?t 1 = ?n" "unat ?n = unat ?t + 1"
    by (simp_all add: saturating_add_def unat_plus_one)
  have n': "?n = of_nat (unat ?t + 1)" by simp
  obtain results cache' s' where t: "tick E cap L thr (cache, s) = (results, cache', s')"
    "hm_wf (monitor_expected_mints s')"
    "map_of results g = row_status L thr row" "hm_get (monitor_expected_mints s') g = row_after L thr row"
    using tick_step [OF Cons.prems(1), of E cap L thr cache g] Cons.prems(2) by auto
  show ?case
  proof (cases "unat ?t + 1 < unat thr")
    case True
    then have "\<not> thr \<le> ?n" by (simp add: word_le_nat_alt n(2))
    then have st: "row_status L thr row = Some (MintPending ?n)"
      using Cons.prems(3,4) by (simp add: row_status_def n(1))
    then have after: "hm_get (monitor_expected_mints s') g = Some (row\<lparr>er_ticks_pending := ?n\<rparr>)"
      by (simp add: t(4) row_after_def)
    show ?thesis
    proof (cases i)
      case 0
      then show ?thesis using st True by (simp add: t(1,3))
    next
      case (Suc j)
      then show ?thesis
        using Cons.IH [OF t(2) after, of j] Cons.prems(3-5) True by (simp add: t(1) n(2))
    qed
  next
    case False
    then have "thr \<le> ?n" by (simp add: word_le_nat_alt n(2))
    then have st: "row_status L thr row = Some (StaleAlert ?n)"
      using Cons.prems(3,4) by (simp add: row_status_def n(1))
    then have after: "hm_get (monitor_expected_mints s') g = None" by (simp add: t(4) row_after_def)
    have m: "unat ?t + 1 = max 1 (unat thr)" using False Cons.prems(6) by simp
    show ?thesis
    proof (cases i)
      case 0
      have "?n = word_of_nat (max 1 (unat thr))" unfolding m [symmetric] by simp
      with 0 show ?thesis using st False m by (simp add: t(1,3) Let_def)
    next
      case (Suc j)
      then show ?thesis
        using tick_run_absent [OF t(2) after, of j] Cons.prems(5) False m by (simp add: t(1) Let_def)
    qed
  qed
qed simp

section \<open>Properties\<close>

text \<open>
  The burn monitor reports every serial as new exactly once, for ever. Over any sequence of
  observations and process restarts, whatever the cache evicts, the verdicts are those of the
  persistent rows alone: a serial is new if no row had it and it was not observed earlier in the
  sequence, and every other observation is a duplicate.
\<close>

theorem burn_collisions_survive_restarts:
  "cached_run (burn_record E cap) [] ops ([], s) = plain_run burn_plain (List.map_filter id ops) s \<and>
   fst (burn_plain k s') = (if burn_serial_seen k s' then BurnDuplicate else BurnNew) \<and>
   (burn_serial_seen k' (snd (burn_plain k s')) \<longleftrightarrow> k' = k \<or> burn_serial_seen k' s')"
proof -
  have "burn_sound [] s" by (simp add: burn_sound_def)
  then show ?thesis
    using burn_cache.cached_is_plain
    by (auto simp: burn_plain_def burn_serial_observe_def burn_serial_seen_def)
qed

text \<open>
  C32. A mint that does not arrive is reported once, at the threshold. From the tick after a claim's
  expected mint was recorded, and as long as its note does not land, every tick before the threshold
  reports it pending with the number of ticks so far, the tick that reaches the threshold reports it
  stale, and no later tick reports it again.
\<close>

theorem stale_mint_alerts_once:
  assumes "hm_wf (monitor_expected_mints s)" and "\<forall>L \<in> set Ls. mint \<notin> L" and "i < length Ls"
  shows "map_of (tick_run E cap thr Ls (record_expected E cap gi mint (cache, s)) ! i) gi =
    (if i + 1 < unat thr then Some (MintPending (of_nat (i + 1)))
     else if i + 1 = max 1 (unat thr) then Some (StaleAlert (of_nat (i + 1)))
     else None)"
proof -
  let ?row = "\<lparr>er_expected_mint = mint, er_ticks_pending = 0, er_alerted = False\<rparr>"
  let ?s = "expected_mint_record gi mint s"
  have "hm_wf (monitor_expected_mints ?s)" "hm_get (monitor_expected_mints ?s) gi = Some ?row"
    using assms(1) by (simp_all add: expected_mint_record_def)
  from tick_run_pending [OF this _ _ assms(3), of thr] assms(2) show ?thesis
    by (simp add: record_expected_def Let_def)
qed

theorem stale_mint_alerts_once_witness:
  "map_of (tick_run demo_ext 10 2 [{}, {}, {}] (record_expected demo_ext 10 7 9 ([], new_store)) ! 1) 7 =
     Some (StaleAlert 2)"
  using stale_mint_alerts_once [of new_store "[{}, {}, {}]" 9 1 demo_ext 10 2 7 "[]"] by simp

text \<open>
  A tick is exact: its report is in strictly ascending order of the global index and holds one
  verdict for each row that is landed, pending or newly stale; afterwards exactly the pending rows
  are left, with their count advanced.
\<close>

theorem mint_tick_exact:
  assumes "hm_wf (monitor_expected_mints s)"
  shows "case tick E cap landed thr (cache, s) of (results, cache', s') \<Rightarrow>
    sorted_wrt (<) (map fst results) \<and>
    (\<forall>gi st. (gi, st) \<in> set results \<longleftrightarrow>
       (\<exists>row. hm_get (monitor_expected_mints s) gi = Some row \<and> row_status landed thr row = Some st)) \<and>
    (\<forall>gi row. hm_get (monitor_expected_mints s') gi = Some row \<longleftrightarrow>
       (\<exists>row0 n. hm_get (monitor_expected_mints s) gi = Some row0 \<and>
          (gi, MintPending n) \<in> set results \<and> row = row0\<lparr>er_ticks_pending := n\<rparr>))"
proof -
  obtain results cache' s' where t: "tick E cap landed thr (cache, s) = (results, cache', s')"
    by (metis prod_cases3)
  have "sorted_wrt (<) (map fst results)"
    using tick_spec(2,3) [OF assms t] by (simp add: strict_sorted_iff)
  moreover have "hm_get (monitor_expected_mints s') gi = Some row \<longleftrightarrow>
       (\<exists>row0 n. hm_get (monitor_expected_mints s) gi = Some row0 \<and>
          (gi, MintPending n) \<in> set results \<and> row = row0\<lparr>er_ticks_pending := n\<rparr>)" for gi row
    unfolding tick_spec(1,4) [OF assms t]
    by (cases "hm_get (monitor_expected_mints s) gi")
      (auto simp: row_after_def split: option.splits mint_status.splits)
  ultimately show ?thesis using tick_spec(1) [OF assms t] by (simp add: t)
qed

theorem mint_tick_exact_witness:
  "sorted_wrt (<) (map fst (fst (tick demo_ext 10 {} 3 ([], expected_mint_record 4 1 (expected_mint_record 2 1 new_store)))))"
  using mint_tick_exact [where s = "expected_mint_record 4 1 (expected_mint_record 2 1 new_store)" and
      E = demo_ext and cap = 10 and landed = "{}" and thr = 3 and cache = "[]"]
  by (auto simp: expected_mint_record_def split: prod.splits)

text \<open>
  The twin-note detector answers from the full history: over any sequence of observations and
  restarts its verdicts are those of the persistent rows alone, and a note id seen before is flagged
  as a twin exactly when its commitment is a new one, with all earlier commitments named.
\<close>

theorem twin_notes_detected_across_restarts:
  "cached_run (twin_record E cap) [] ops ([], s) = plain_run twin_plain (List.map_filter id ops) s \<and>
   fst (twin_plain (n, c) s') =
     (if twin_note_commitments n s' = [] then TwinNew
      else if c \<in> set (twin_note_commitments n s') then LegitimateDuplicate
      else TwinDetected (twin_note_commitments n s')) \<and>
   set (twin_note_commitments n' (snd (twin_plain (n, c) s'))) =
     set (twin_note_commitments n' s') \<union> (if n' = n then {c} else {})"
proof -
  have "twin_sound [] s" by (simp add: twin_sound_def)
  then show ?thesis
    using twin_cache.cached_is_plain
    by (auto simp: twin_plain_def Let_def twin_note_observe_spec(2))
qed

end
