(* ===== verification/Store_Logs.thy ===== *)
theory Store_Logs
  imports Store_State "HOL-Library.Multiset"
begin

text \<open>
  The synthetic logs of the store: \<^verbatim>\<open>insert_log\<close>, \<^verbatim>\<open>add_log\<close>, \<^verbatim>\<open>add_bridge_event\<close>, \<^verbatim>\<open>get_logs\<close> and
  \<^verbatim>\<open>get_logs_for_tx\<close> of \<^verbatim>\<open>src/src/store/memory.rs\<close>, and the query that \<^verbatim>\<open>src/src/store/postgres.rs\<close> builds for
  \<^verbatim>\<open>eth_getLogs\<close>. The lemmas give the invariant of the two indexes and what a query returns.
\<close>

section \<open>Operations\<close>

definition insert_log :: "synthetic_log \<Rightarrow> mem_store \<Rightarrow> mem_store" where
  "insert_log lg s =
     (let l = lg\<lparr>log_log_index := log_counter s\<rparr>;
          key = to_lowercase (log_transaction_hash l)
      in s\<lparr>log_counter := log_counter s + 1,
           logs_by_block := hm_push (log_block_number l) l (logs_by_block s),
           logs_by_tx := hm_push key l (logs_by_tx s),
           pending_events := pending_events s @ [l]\<rparr>)"

definition add_log :: "synthetic_log \<Rightarrow> mem_store \<Rightarrow> unit fallible \<times> mem_store" where
  "add_log lg s = (Inr (), insert_log lg s)"

definition add_bridge_event ::
    "externals \<Rightarrow> string \<Rightarrow> u64 \<Rightarrow> b256 \<Rightarrow> string \<Rightarrow> u8 \<Rightarrow> u32 \<Rightarrow> b160 \<Rightarrow> u32 \<Rightarrow> b160 \<Rightarrow> u128 \<Rightarrow>
       byte list \<Rightarrow> u32 \<Rightarrow> mem_store \<Rightarrow> mem_store" where
  "add_bridge_event E bridge_addr block_number block_hash txh leaf_type origin_network
       origin_address destination_network destination_address amount metadata deposit_count s =
     insert_log
       \<lparr>log_address = bridge_addr,
        log_topics = [BRIDGE_EVENT_TOPIC],
        log_data = encode_bridge_event_data E leaf_type origin_network origin_address
          destination_network destination_address amount metadata deposit_count,
        log_block_number = block_number,
        log_block_hash = block_hash,
        log_transaction_hash = txh,
        log_transaction_index = 0,
        log_log_index = 0,
        log_removed = False\<rparr> s"

definition GETLOGS_SAFETY_CEILING :: nat where
  "GETLOGS_SAFETY_CEILING = 500000"

text \<open>The matching loop with its early return above the ceiling.\<close>

fun collect_matches ::
    "(synthetic_log \<Rightarrow> bool) \<Rightarrow> synthetic_log list \<Rightarrow> synthetic_log list \<Rightarrow> synthetic_log list option"
  where
  "collect_matches P acc [] = Some acc"
| "collect_matches P acc (l # ls) =
     (if P l
      then if GETLOGS_SAFETY_CEILING < length (acc @ [l]) then None
           else collect_matches P (acc @ [l]) ls
      else collect_matches P acc ls)"

definition block_range :: "u64 \<Rightarrow> u64 \<Rightarrow> u64 list" where
  "block_range from to = map word_of_nat [unat from..<Suc (unat to)]"

definition log_key :: "synthetic_log \<Rightarrow> u64 \<times> u64" where
  "log_key l = (log_block_number l, log_log_index l)"

definition get_logs ::
    "externals \<Rightarrow> log_filter \<Rightarrow> u64 \<Rightarrow> mem_store \<Rightarrow> synthetic_log list fallible \<times> mem_store" where
  "get_logs E f current_block s =
     (let from = from_block_number f current_block;
          to = to_block_number f current_block;
          s' = s\<lparr>pending_events := filter (\<lambda>evt. to < log_block_number evt) (pending_events s)\<rparr>;
          candidate_logs =
            (if lf_block_hash f \<noteq> None then map snd (logs_by_block s')
             else List.map_filter (hm_get (logs_by_block s')) (block_range from to))
      in case collect_matches (\<lambda>l. log_filter_matches E f l current_block) [] (concat candidate_logs)
         of None \<Rightarrow> (Inl (RowCap from to), s')
          | Some result \<Rightarrow> (Inr (sort_key log_key result), s'))"

definition get_logs_for_tx :: "string \<Rightarrow> mem_store \<Rightarrow> synthetic_log list" where
  "get_logs_for_tx txh s =
     (case hm_get (logs_by_tx s) (to_lowercase txh) of None \<Rightarrow> [] | Some ls \<Rightarrow> ls)"

section \<open>The PostgreSQL query\<close>

text \<open>The \<^verbatim>\<open>WHERE\<close> clause over a row of \<^verbatim>\<open>synthetic_logs\<close>. A comparison with the first topic of a row
  that has none is SQL's \<^verbatim>\<open>NULL\<close>, which selects nothing and is neutral in a disjunction.\<close>

definition I64_MAX :: u64 where
  "I64_MAX = 0x7FFFFFFFFFFFFFFF"

definition sql_topic0_in :: "synthetic_log \<Rightarrow> string list \<Rightarrow> bool" where
  "sql_topic0_in row alts =
     (case first_topic row of None \<Rightarrow> False | Some t \<Rightarrow> to_lowercase t \<in> set alts)"

definition pg_where :: "externals \<Rightarrow> log_filter \<Rightarrow> u64 \<Rightarrow> synthetic_log \<Rightarrow> bool" where
  "pg_where E f current_block row =
     ((case lf_block_hash f of
         Some bh \<Rightarrow> ''0x'' @ ext_hex_encode E (be_bytes 32 (log_block_hash row)) = to_lowercase bh
       | None \<Rightarrow>
           (let from = from_block_number f current_block;
                to_block = to_block_number f current_block;
                to = (if to_block \<le> I64_MAX then to_block else I64_MAX)
            in from \<le> log_block_number row \<and> log_block_number row \<le> to)) \<and>
      (case address_alternatives_lower f of
         None \<Rightarrow> True
       | Some addrs_lower \<Rightarrow>
           to_lowercase (log_address row) \<in> set addrs_lower \<or>
           sql_topic0_in row [to_lowercase UPDATE_HASH_CHAIN_VALUE_TOPIC]) \<and>
      (case topic0_alternatives_lower f of
         None \<Rightarrow> True
       | Some topic0_lower \<Rightarrow> sql_topic0_in row topic0_lower))"

definition pg_get_logs ::
    "externals \<Rightarrow> log_filter \<Rightarrow> u64 \<Rightarrow> synthetic_log list \<Rightarrow> synthetic_log list fallible" where
  "pg_get_logs E f current_block rows =
     (let from = from_block_number f current_block;
          to = to_block_number f current_block
      in if lf_block_hash f = None \<and> I64_MAX < from then Inr []
         else case collect_matches (\<lambda>l. log_filter_matches E f l current_block) []
                     (sort_key log_key (filter (pg_where E f current_block) rows))
              of None \<Rightarrow> Inl (RowCap from to)
               | Some out \<Rightarrow> Inr out)"

text \<open>A row's block number and log index are \<^verbatim>\<open>BIGINT\<close> columns; on such values the signed order of
  SQL is the order of the unsigned words.\<close>

definition pg_rows_ok :: "synthetic_log list \<Rightarrow> bool" where
  "pg_rows_ok rows =
     list_all (\<lambda>r. log_block_number r \<le> I64_MAX \<and> log_log_index r \<le> I64_MAX) rows"

text \<open>What an \<^verbatim>\<open>eth_getLogs\<close> query promises: the matching logs, by block and then log index.\<close>

definition matching_logs :: "externals \<Rightarrow> log_filter \<Rightarrow> u64 \<Rightarrow> synthetic_log list \<Rightarrow> synthetic_log list"
  where
  "matching_logs E f cb ls = sort_key log_key (filter (\<lambda>l. log_filter_matches E f l cb) ls)"

section \<open>The invariant of the indexes\<close>

text \<open>The log counter is a \<^verbatim>\<open>u64\<close>: below this many logs it never wraps.\<close>

definition LOG_LIMIT :: nat where
  "LOG_LIMIT = 2 ^ 64"

definition all_logs :: "mem_store \<Rightarrow> synthetic_log list" where
  "all_logs s = concat (map snd (logs_by_block s))"

definition indexed_by :: "('l \<Rightarrow> 'k) \<Rightarrow> ('k, 'l list) hashmap \<Rightarrow> bool" where
  "indexed_by f m = (hm_wf m \<and> (\<forall>(k, ls) \<in> set m. ls \<noteq> [] \<and> (\<forall>l \<in> set ls. f l = k)))"

definition logs_ok ::
    "(u64, synthetic_log list) hashmap \<Rightarrow> (string, synthetic_log list) hashmap \<Rightarrow> u64 \<Rightarrow>
       synthetic_log list \<Rightarrow> bool" where
  "logs_ok bb bt counter pending =
     (indexed_by log_block_number bb \<and>
      indexed_by (\<lambda>l. to_lowercase (log_transaction_hash l)) bt \<and>
      mset (concat (map snd bb)) = mset (concat (map snd bt)) \<and>
      unat counter = length (concat (map snd bb)) \<and>
      (\<forall>l \<in> set (concat (map snd bb)). log_log_index l < counter) \<and>
      distinct (map log_log_index (concat (map snd bb))) \<and>
      set pending \<subseteq> set (concat (map snd bb)))"

definition logs_inv :: "mem_store \<Rightarrow> bool" where
  "logs_inv s = logs_ok (logs_by_block s) (logs_by_tx s) (log_counter s) (pending_events s)"

section \<open>Lemmas\<close>

lemma mset_update_absent:
  "map_of m k = None \<Longrightarrow>
     mset (concat (map snd (AList.update k v m))) = mset (concat (map snd m)) + mset v"
  by (induction m) (auto split: if_splits)

lemma mset_update_present:
  "map_of m k = Some w \<Longrightarrow>
     mset (concat (map snd (AList.update k (w @ [x]) m))) = add_mset x (mset (concat (map snd m)))"
  by (induction m) (auto split: if_splits)

lemma mset_concat_hm_push:
  "mset (concat (map snd (hm_push k x m))) = add_mset x (mset (concat (map snd m)))"
  by (cases "map_of m k")
    (simp_all add: hm_push_def hm_insert_def hm_get_def mset_update_absent mset_update_present)

lemma set_concat_hm_push [simp]:
  "set (concat (map snd (hm_push k x m))) = insert x (set (concat (map snd m)))"
  using mset_concat_hm_push [of k x m] by (metis set_mset_add_mset_insert set_mset_mset)

lemma indexed_by_iff:
  "indexed_by f m \<longleftrightarrow>
     hm_wf m \<and> (\<forall>k ls. hm_get m k = Some ls \<longrightarrow> ls \<noteq> [] \<and> (\<forall>l \<in> set ls. f l = k))"
  unfolding indexed_by_def
  by (rule conj_cong [OF refl]) (simp add: hm_set_iff split_beta split_paired_Ball_Sigma Ball_def)

lemma indexed_by_push:
  assumes "indexed_by f m" and "f x = k"
  shows "indexed_by f (hm_push k x m)"
  using assms by (cases "hm_get m k") (auto simp: indexed_by_iff)

lemma indexed_by_get:
  "indexed_by f m \<Longrightarrow> hm_get m k = Some ls \<Longrightarrow> l \<in> set ls \<Longrightarrow> f l = k"
  by (simp add: indexed_by_iff)

lemma indexed_by_lookup:
  assumes "indexed_by f m"
  shows "l \<in> set (concat (map snd m)) \<longleftrightarrow> (\<exists>ls. hm_get m (f l) = Some ls \<and> l \<in> set ls)"
proof
  assume "l \<in> set (concat (map snd m))"
  then obtain k ls where "(k, ls) \<in> set m" and l: "l \<in> set ls" by auto
  then have k: "hm_get m k = Some ls"
    using assms by (simp add: indexed_by_def hm_in_get)
  have "f l = k" using assms k l by (rule indexed_by_get)
  with k l show "\<exists>ls. hm_get m (f l) = Some ls \<and> l \<in> set ls" by simp
next
  assume "\<exists>ls. hm_get m (f l) = Some ls \<and> l \<in> set ls"
  then show "l \<in> set (concat (map snd m))" by (force dest!: hm_get_in)
qed

lemma mset_all_logs_insert:
  "mset (all_logs (insert_log l s)) = add_mset (l\<lparr>log_log_index := log_counter s\<rparr>) (mset (all_logs s))"
  using mset_concat_hm_push [of "log_block_number l" "l\<lparr>log_log_index := log_counter s\<rparr>" "logs_by_block s"]
  by (simp add: all_logs_def insert_log_def Let_def del: mset_concat)

lemma length_all_logs_insert [simp]: "length (all_logs (insert_log l s)) = Suc (length (all_logs s))"
  by (metis mset_all_logs_insert size_add_mset size_mset)

lemma logs_inv_insert [intro]:
  assumes "logs_inv s" and "Suc (length (all_logs s)) < LOG_LIMIT"
  shows "logs_inv (insert_log lg s)"
proof -
  let ?l = "lg\<lparr>log_log_index := log_counter s\<rparr>"
  have inv: "logs_ok (logs_by_block s) (logs_by_tx s) (log_counter s) (pending_events s)"
    using assms(1) by (simp add: logs_inv_def)
  have "unat (log_counter s) = length (all_logs s)"
    using inv by (simp add: logs_ok_def all_logs_def del: length_concat)
  with assms(2) have no_wrap: "log_counter s \<noteq> - 1"
    by (auto simp: LOG_LIMIT_def unsigned_minus_1_eq_mask mask_eq_exp_minus_1)
  then have lt: "log_counter s < log_counter s + 1"
    by (rule word_less_plus_one)
  have len: "unat (log_counter s + 1) = length (concat (map snd (hm_push b ?l (logs_by_block s))))" for b
  proof -
    have "length (concat (map snd (hm_push b ?l (logs_by_block s)))) =
          Suc (length (concat (map snd (logs_by_block s))))"
      by (metis mset_concat_hm_push size_add_mset size_mset)
    with inv show ?thesis by (simp add: logs_ok_def unat_plus_one [OF no_wrap] del: length_concat)
  qed
  have d: "distinct (map log_log_index (concat (map snd (hm_push b ?l (logs_by_block s)))))" for b
  proof -
    have "mset (map log_log_index (concat (map snd (hm_push b ?l (logs_by_block s))))) =
          mset (map log_log_index (?l # concat (map snd (logs_by_block s))))"
      by (simp only: mset_map mset_concat_hm_push mset.simps)
    moreover have "distinct (map log_log_index (?l # concat (map snd (logs_by_block s))))"
      using inv by (auto simp: logs_ok_def simp del: set_concat)
    ultimately show ?thesis by (metis mset_eq_imp_distinct_iff)
  qed
  have "\<forall>l \<in> set (concat (map snd (logs_by_block s))). log_log_index l < log_counter s + 1"
    using inv lt unfolding logs_ok_def by (meson less_trans)
  with inv lt d len show ?thesis
    unfolding logs_inv_def insert_log_def Let_def
    by (simp add: logs_ok_def indexed_by_push mset_concat_hm_push subset_insertI2
        del: set_concat length_concat)
qed

lemma collect_matches_eq:
  "length acc \<le> GETLOGS_SAFETY_CEILING \<Longrightarrow>
     collect_matches P acc ls =
       (if GETLOGS_SAFETY_CEILING < length acc + length (filter P ls) then None
        else Some (acc @ filter P ls))"
  by (induction P acc ls rule: collect_matches.induct) auto

lemma sort_key_unique:
  assumes "mset xs = mset ys" and "inj_on f (set xs)"
  shows "sort_key f xs = sort_key f ys"
proof (rule sort_key_inj_key_eq)
  show "mset xs = mset (sort_key f ys)" using assms(1) by simp
qed (simp_all add: assms)

lemma inj_on_log_key:
  "distinct (map log_log_index ls) \<Longrightarrow> set ls' \<subseteq> set ls \<Longrightarrow> inj_on log_key (set ls')"
  by (rule inj_on_subset) (auto simp: distinct_map log_key_def inj_on_def)

lemma set_block_range: "set (block_range from to) = {b. from \<le> b \<and> b \<le> to}"
proof -
  have "b \<in> word_of_nat ` {unat from..unat to}" if "from \<le> b" "b \<le> to" for b :: u64
    using that by (intro image_eqI [of _ _ "unat b"]) (auto simp: word_le_nat_alt)
  moreover have "from \<le> word_of_nat n \<and> word_of_nat n \<le> to" if "unat from \<le> n" "n \<le> unat to" for n
  proof -
    have "n < 2 ^ 64" using that(2) unsigned_less [where ?'a = nat and w = to] by simp
    then have "unat (word_of_nat n :: u64) = n" by (simp add: unat_word_of_nat_small)
    with that show ?thesis by (simp add: word_le_nat_alt)
  qed
  moreover have "set (block_range from to) = word_of_nat ` {unat from..unat to}"
    by (simp add: block_range_def atLeastLessThanSuc_atLeastAtMost del: upt_Suc)
  ultimately show ?thesis by auto
qed

lemma distinct_block_range: "distinct (block_range from to)"
proof -
  have "inj_on (word_of_nat :: nat \<Rightarrow> u64) {unat from..<Suc (unat to)}"
  proof (rule inj_on_inverseI [where g = unat])
    fix n assume "n \<in> {unat from..<Suc (unat to)}"
    then have "n < 2 ^ 64" using unsigned_less [where ?'a = nat and w = to] by simp
    then show "unat (word_of_nat n :: u64) = n" by (simp add: unat_word_of_nat_small)
  qed
  then show ?thesis by (simp add: block_range_def distinct_map del: upt_Suc)
qed

lemma distinct_concat_indexed:
  assumes "indexed_by f m" and "distinct (concat (map snd m))" and "distinct ks"
  shows "distinct (concat (List.map_filter (hm_get m) ks))"
  using assms(3)
proof (induction ks)
  case Nil
  then show ?case by simp
next
  case (Cons k ks)
  show ?case
  proof (cases "hm_get m k")
    case None
    with Cons show ?thesis by simp
  next
    case (Some ls)
    have "distinct ls"
      using Some assms(2) by (auto dest!: hm_get_in simp: distinct_concat_iff)
    moreover have "set ls \<inter> set (concat (List.map_filter (hm_get m) ks)) = {}"
    proof (rule ccontr)
      assume "set ls \<inter> set (concat (List.map_filter (hm_get m) ks)) \<noteq> {}"
      then obtain l k' ls' where l: "l \<in> set ls" "l \<in> set ls'" and k': "k' \<in> set ks"
        and g: "hm_get m k' = Some ls'"
        by (auto simp: List.map_filter_def)
      then have "k' = k"
        using indexed_by_get [OF assms(1)] Some by metis
      with k' Cons.prems show False by simp
    qed
    ultimately show ?thesis using Some Cons by simp
  qed
qed

text \<open>What the scan visits: all logs of the range, each once.\<close>

lemma logs_invD:
  assumes "logs_inv s"
  shows "indexed_by log_block_number (logs_by_block s)"
    and "indexed_by (\<lambda>l. to_lowercase (log_transaction_hash l)) (logs_by_tx s)"
    and "distinct (map log_log_index (all_logs s))"
    and "distinct (all_logs s)"
    and "mset (all_logs s) = mset (concat (map snd (logs_by_tx s)))"
    and "l \<in> set (all_logs s) \<Longrightarrow> log_log_index l < log_counter s"
  using assms
  by (auto simp: logs_inv_def logs_ok_def all_logs_def distinct_map simp del: set_concat)

lemma range_scan:
  assumes "logs_inv s"
  shows "mset (concat (List.map_filter (hm_get (logs_by_block s)) (block_range from to))) =
         mset (filter (\<lambda>l. from \<le> log_block_number l \<and> log_block_number l \<le> to) (all_logs s))"
proof -
  note idx = logs_invD(1) [OF assms]
  have d: "distinct (concat (map snd (logs_by_block s)))"
    using logs_invD(4) [OF assms] by (simp add: all_logs_def)
  have "set (concat (List.map_filter (hm_get (logs_by_block s)) (block_range from to))) =
        {l \<in> set (all_logs s). from \<le> log_block_number l \<and> log_block_number l \<le> to}"
  proof (rule set_eqI)
    fix l
    have "l \<in> set (concat (List.map_filter (hm_get (logs_by_block s)) (block_range from to))) \<longleftrightarrow>
          (\<exists>b ls. from \<le> b \<and> b \<le> to \<and> hm_get (logs_by_block s) b = Some ls \<and> l \<in> set ls)"
      using set_block_range [of "from" to] by (auto simp: List.map_filter_def)
    also have "\<dots> \<longleftrightarrow> l \<in> {l \<in> set (all_logs s). from \<le> log_block_number l \<and> log_block_number l \<le> to}"
      using indexed_by_lookup [OF idx, of l] indexed_by_get [OF idx]
      unfolding all_logs_def by blast
    finally show "l \<in> set (concat (List.map_filter (hm_get (logs_by_block s)) (block_range from to)))
        \<longleftrightarrow> l \<in> {l \<in> set (all_logs s). from \<le> log_block_number l \<and> log_block_number l \<le> to}" .
  qed
  then show ?thesis
    using distinct_concat_indexed [OF idx d distinct_block_range]
      distinct_filter [OF logs_invD(4) [OF assms]]
    by (subst set_eq_iff_mset_eq_distinct [symmetric]) (simp_all del: set_concat mset_filter)
qed

lemma matches_in_range:
  "log_filter_matches E f l cb \<Longrightarrow> lf_block_hash f = None \<Longrightarrow>
     from_block_number f cb \<le> log_block_number l \<and> log_block_number l \<le> to_block_number f cb"
  by (auto simp: log_filter_matches_def block_matches_def split: if_splits)

text \<open>The candidates of \<^verbatim>\<open>get_logs\<close> contain every match once.\<close>

lemma candidates_matches:
  assumes "logs_inv s"
  shows "mset (filter (\<lambda>l. log_filter_matches E f l cb)
                (concat (if lf_block_hash f \<noteq> None then map snd (logs_by_block s)
                         else List.map_filter (hm_get (logs_by_block s))
                                (block_range (from_block_number f cb) (to_block_number f cb))))) =
         mset (filter (\<lambda>l. log_filter_matches E f l cb) (all_logs s))"
proof (cases "lf_block_hash f = None")
  case True
  have "filter_mset (\<lambda>l. log_filter_matches E f l cb)
          (filter_mset (\<lambda>l. from_block_number f cb \<le> log_block_number l \<and>
                            log_block_number l \<le> to_block_number f cb) (mset (all_logs s))) =
        filter_mset (\<lambda>l. log_filter_matches E f l cb) (mset (all_logs s))"
    unfolding filter_filter_mset by (rule filter_mset_cong) (auto dest: matches_in_range simp: True)
  then show ?thesis
    using range_scan [OF assms, of "from_block_number f cb" "to_block_number f cb"] True by simp
next
  case False
  then show ?thesis by (simp add: all_logs_def)
qed

lemma get_logs_result:
  assumes "logs_inv s"
  shows "fst (get_logs E f cb s) =
           (if GETLOGS_SAFETY_CEILING < length (matching_logs E f cb (all_logs s))
            then Inl (RowCap (from_block_number f cb) (to_block_number f cb))
            else Inr (matching_logs E f cb (all_logs s)))"
proof -
  let ?P = "\<lambda>l. log_filter_matches E f l cb"
  define c where
    "c = concat (if lf_block_hash f \<noteq> None then map snd (logs_by_block s)
                 else List.map_filter (hm_get (logs_by_block s))
                        (block_range (from_block_number f cb) (to_block_number f cb)))"
  have m: "mset (filter ?P c) = mset (filter ?P (all_logs s))"
    unfolding c_def using assms by (rule candidates_matches)
  have len: "length (filter ?P c) = length (matching_logs E f cb (all_logs s))"
    using mset_eq_length [OF m] by (simp add: matching_logs_def)
  have "set (filter ?P c) \<subseteq> set (all_logs s)"
    using mset_eq_setD [OF m] by auto
  then have srt: "sort_key log_key (filter ?P c) = matching_logs E f cb (all_logs s)"
    unfolding matching_logs_def
    by (intro sort_key_unique m inj_on_log_key [OF logs_invD(3) [OF assms]])
  have "fst (get_logs E f cb s) =
          (case collect_matches ?P [] c of
             None \<Rightarrow> Inl (RowCap (from_block_number f cb) (to_block_number f cb))
           | Some r \<Rightarrow> Inr (sort_key log_key r))"
    by (simp add: get_logs_def Let_def c_def split: option.split)
  then show ?thesis
    by (simp add: collect_matches_eq len srt)
qed

lemma logs_inv_get_logs [intro]: "logs_inv s \<Longrightarrow> logs_inv (snd (get_logs E f cb s))"
  by (auto simp: get_logs_def Let_def logs_inv_def logs_ok_def simp del: set_concat
      split: option.split)

section \<open>The PostgreSQL query is a superset\<close>

lemma lower_0x: "to_lowercase ''0x'' = ''0x''"
  by (simp add: to_lowercase_def lower_char_def Let_def)

lemma to_lowercase_0x_hex: "hex_ok E \<Longrightarrow> to_lowercase (''0x'' @ ext_hex_encode E bs) = ''0x'' @ ext_hex_encode E bs"
  by (simp only: to_lowercase_append lower_0x hex_ok_def)

lemma address_or_passthrough_pg:
  assumes "address_or_passthrough f l" and "address_alternatives_lower f = Some alts"
  shows "to_lowercase (log_address l) \<in> set alts \<or>
         sql_topic0_in l [to_lowercase UPDATE_HASH_CHAIN_VALUE_TOPIC]"
proof -
  obtain a where a: "lf_address f = Some a"
    using assms(2) by (auto simp: address_alternatives_lower_def)
  then have "address_matches a (to_lowercase (log_address l)) \<longleftrightarrow> to_lowercase (log_address l) \<in> set alts"
    using address_alternatives_exact [OF a] assms(2) by fastforce
  then show ?thesis
    using assms(1) a
    by (auto simp: address_or_passthrough_def Let_def sql_topic0_in_def split: option.splits if_splits)
qed

lemma topic0_pg:
  assumes "log_filter_matches E f l cb" and "topic0_alternatives_lower f = Some alts"
  shows "sql_topic0_in l alts"
  using topic0_alternatives_exact [OF assms(2)] matches_topic0 [OF assms(1)]
  by (fastforce simp: sql_topic0_in_def)

lemma matches_imp_pg_where:
  assumes "hex_ok E" and m: "log_filter_matches E f l cb" and "log_block_number l \<le> I64_MAX"
  shows "pg_where E f cb l"
proof -
  have b: "block_matches E f l cb" and a: "address_or_passthrough f l"
    using m by (auto simp: log_filter_matches_def split: if_splits)
  have "case lf_block_hash f of
          Some bh \<Rightarrow> ''0x'' @ ext_hex_encode E (be_bytes 32 (log_block_hash l)) = to_lowercase bh
        | None \<Rightarrow>
            (let from = from_block_number f cb; to_block = to_block_number f cb;
                 to = (if to_block \<le> I64_MAX then to_block else I64_MAX)
             in from \<le> log_block_number l \<and> log_block_number l \<le> to)"
  proof (cases "lf_block_hash f")
    case None
    then show ?thesis using b assms(3) by (simp add: block_matches_def Let_def not_less)
  next
    case (Some bh)
    then show ?thesis
      using b to_lowercase_0x_hex [OF assms(1), of "be_bytes 32 (log_block_hash l)"]
      by (simp only: block_matches_def option.case)
  qed
  then show ?thesis
    using address_or_passthrough_pg [OF a] topic0_pg [OF m]
    by (simp add: pg_where_def split: option.split)
qed

lemma pg_get_logs_result:
  assumes "hex_ok E" and "pg_rows_ok rows"
  shows "pg_get_logs E f cb rows =
           (if GETLOGS_SAFETY_CEILING < length (matching_logs E f cb rows)
            then Inl (RowCap (from_block_number f cb) (to_block_number f cb))
            else Inr (matching_logs E f cb rows))"
proof -
  let ?P = "\<lambda>l. log_filter_matches E f l cb"
  have "filter ?P (filter (pg_where E f cb) rows) = filter ?P rows"
    using assms unfolding filter_filter pg_rows_ok_def list_all_iff
    by (intro filter_cong refl) (auto intro: matches_imp_pg_where)
  then have eq: "filter ?P (sort_key log_key (filter (pg_where E f cb) rows)) = matching_logs E f cb rows"
    by (simp only: filter_sort matching_logs_def)
  show ?thesis
  proof (cases "lf_block_hash f = None \<and> I64_MAX < from_block_number f cb")
    case True
    have "filter ?P rows = []"
    proof (rule ccontr)
      assume "filter ?P rows \<noteq> []"
      then obtain r where "r \<in> set rows" and "?P r" by (auto simp: filter_empty_conv)
      with assms(2) True matches_in_range [of E f r cb] show False
        by (auto simp: pg_rows_ok_def list_all_iff)
    qed
    then have "matching_logs E f cb rows = []" by (simp add: matching_logs_def)
    with True show ?thesis by (simp add: pg_get_logs_def Let_def)
  next
    case False
    have "pg_get_logs E f cb rows =
            (case collect_matches ?P [] (sort_key log_key (filter (pg_where E f cb) rows)) of
               None \<Rightarrow> Inl (RowCap (from_block_number f cb) (to_block_number f cb))
             | Some out \<Rightarrow> Inr out)"
      using False by (auto simp: pg_get_logs_def Let_def)
    then show ?thesis by (simp add: collect_matches_eq eq)
  qed
qed

lemma matching_logs_perm:
  assumes "mset rows = mset ls" and "distinct (map log_log_index ls)"
  shows "matching_logs E f cb rows = matching_logs E f cb ls"
proof -
  let ?P = "\<lambda>l. log_filter_matches E f l cb"
  have m: "mset (filter ?P rows) = mset (filter ?P ls)" using assms(1) by simp
  have "set (filter ?P rows) \<subseteq> set ls" using mset_eq_setD [OF m] by auto
  then show ?thesis
    unfolding matching_logs_def by (intro sort_key_unique m inj_on_log_key [OF assms(2)])
qed

section \<open>Properties\<close>

definition demo_log :: "u64 \<Rightarrow> string \<Rightarrow> synthetic_log" where
  "demo_log b txh =
     \<lparr>log_address = ''0xAB'', log_topics = [CLAIM_EVENT_TOPIC], log_data = ''0x'',
      log_block_number = b, log_block_hash = 0, log_transaction_hash = txh,
      log_transaction_index = 0, log_log_index = 0, log_removed = False\<rparr>"

definition demo_filter :: log_filter where
  "demo_filter =
     \<lparr>lf_from_block = Some ''0x1'', lf_to_block = Some ''latest'',
      lf_address = Some (AddrSingle ''0xab''), lf_topics = None, lf_block_hash = None\<rparr>"

definition demo_log_store :: mem_store where
  "demo_log_store = insert_log (demo_log 2 ''0xAA'') (insert_log (demo_log 3 ''0xBB'') new_store)"

lemma logs_inv_new [simp]: "logs_inv new_store"
  by (simp add: logs_inv_def logs_ok_def indexed_by_def)

lemma all_logs_new [simp]: "all_logs new_store = []"
  by (simp add: all_logs_def)

lemma demo_log_store_inv: "logs_inv demo_log_store"
  unfolding demo_log_store_def
  by (intro logs_inv_insert logs_inv_new) (simp_all add: LOG_LIMIT_def)

lemma demo_log_store_logs:
  "all_logs demo_log_store =
     [(demo_log 3 ''0xBB''), (demo_log 2 ''0xAA'')\<lparr>log_log_index := 1\<rparr>]"
  by code_simp

text \<open>
  C17. An \<^verbatim>\<open>eth_getLogs\<close> query of the in-memory store is exact. It answers with an error precisely
  when more logs match than the safety ceiling allows. Otherwise the answer holds exactly the
  stored logs that \<^verbatim>\<open>LogFilter::matches\<close> accepts, each once, strictly ascending by block number and
  log index, whether the filter names a block hash (all blocks are scanned) or a range.
\<close>

theorem get_logs_exact:
  assumes "logs_inv s"
  shows "(case fst (get_logs E f cb s) of
            Inl e \<Rightarrow>
              e = RowCap (from_block_number f cb) (to_block_number f cb) \<and>
              GETLOGS_SAFETY_CEILING < card {l \<in> set (all_logs s). log_filter_matches E f l cb}
          | Inr r \<Rightarrow>
              length r \<le> GETLOGS_SAFETY_CEILING \<and>
              set r = {l \<in> set (all_logs s). log_filter_matches E f l cb} \<and>
              sorted_wrt (<) (map log_key r))"
proof -
  let ?r = "matching_logs E f cb (all_logs s)"
  have set_r: "set ?r = {l \<in> set (all_logs s). log_filter_matches E f l cb}"
    by (simp add: matching_logs_def)
  have "distinct ?r" using logs_invD(4) [OF assms] by (simp add: matching_logs_def)
  then have card_r: "card {l \<in> set (all_logs s). log_filter_matches E f l cb} = length ?r"
    using distinct_card set_r by metis
  have "inj_on log_key (set ?r)"
    using inj_on_log_key [OF logs_invD(3) [OF assms], of ?r] set_r by auto
  with \<open>distinct ?r\<close> have "sorted_wrt (<) (map log_key ?r)"
    by (simp add: strict_sorted_iff distinct_map matching_logs_def)
  with set_r card_r show ?thesis by (simp add: get_logs_result [OF assms])
qed

theorem get_logs_exact_witness:
  "logs_inv demo_log_store \<and>
   (case fst (get_logs demo_ext demo_filter 3 demo_log_store) of
      Inl e \<Rightarrow> False
    | Inr r \<Rightarrow> set r = set (all_logs demo_log_store) \<and> sorted_wrt (<) (map log_key r))"
proof -
  have "list_all (\<lambda>l. log_filter_matches demo_ext demo_filter l 3) (all_logs demo_log_store)"
    unfolding demo_log_store_logs by code_simp
  then have m: "{l \<in> set (all_logs demo_log_store). log_filter_matches demo_ext demo_filter l 3} =
                set (all_logs demo_log_store)"
    by (auto simp: list_all_iff)
  have "card (set (all_logs demo_log_store)) \<le> 2"
    by (rule order_trans [OF card_length]) (simp add: demo_log_store_logs)
  then show ?thesis
    using get_logs_exact [OF demo_log_store_inv, where E = demo_ext and f = demo_filter and cb = 3]
    by (simp add: demo_log_store_inv m GETLOGS_SAFETY_CEILING_def split: sum.splits)
qed

text \<open>
  C20. The PostgreSQL store and the in-memory store answer every \<^verbatim>\<open>eth_getLogs\<close> filter alike: over
  the same logs, in any row order, the pushed-down \<^verbatim>\<open>WHERE\<close> clause followed by the exact filter
  gives the same logs in the same order, or the same row-cap error. The clause loses no matching
  row, the clamped upper bound and the early empty answer above \<^verbatim>\<open>i64::MAX\<close> included.
\<close>

theorem pg_get_logs_agrees:
  assumes "logs_inv s" and "mset rows = mset (all_logs s)" and "pg_rows_ok rows" and "hex_ok E"
  shows "pg_get_logs E f cb rows = fst (get_logs E f cb s)"
  by (simp add: pg_get_logs_result [OF assms(4,3)] get_logs_result [OF assms(1)]
      matching_logs_perm [OF assms(2) logs_invD(3) [OF assms(1)]])

theorem pg_get_logs_agrees_witness:
  "pg_get_logs demo_ext demo_filter 3 (rev (all_logs demo_log_store)) =
     fst (get_logs demo_ext demo_filter 3 demo_log_store)"
  by (rule pg_get_logs_agrees)
    (simp_all add: demo_log_store_inv demo_hex demo_log_store_logs pg_rows_ok_def demo_log_def I64_MAX_def)

text \<open>
  A filter that passes the request caps spans at most 10000 blocks, has at most four topic
  positions and at most 32 addresses, so the block scan behind it is bounded; a filter that is
  rejected really exceeds the cap that its error names.
\<close>

theorem validate_getlogs_filter_caps:
  "case validate_getlogs_filter f cb of
      Inr _ \<Rightarrow>
        length (block_range (from_block_number f cb) (to_block_number f cb)) \<le> 10000 \<and>
        length (case lf_topics f of None \<Rightarrow> [] | Some ts \<Rightarrow> ts) \<le> 4 \<and>
        length (case address_alternatives_lower f of None \<Rightarrow> [] | Some as \<Rightarrow> as) \<le> 32
    | Inl (RangeTooLarge span) \<Rightarrow>
        10000 < unat (to_block_number f cb) + 1 - unat (from_block_number f cb)
    | Inl (TopicsTooLong n) \<Rightarrow> \<exists>ts. lf_topics f = Some ts \<and> n = length ts \<and> 4 < n
    | Inl (AddressesTooLong n) \<Rightarrow>
        \<exists>as. address_alternatives_lower f = Some as \<and> n = length as \<and> 32 < n"
proof (cases "validate_getlogs_filter f cb")
  case (Inr u)
  then have "length (block_range (from_block_number f cb) (to_block_number f cb)) \<le> 10000"
    using validate_bounds_span [of f cb] by (simp add: block_range_def del: upt_Suc)
  with Inr show ?thesis
    by (auto simp: validate_getlogs_filter_def Let_def MAX_GETLOGS_TOPICS_LEN_def
        MAX_GETLOGS_ADDRESSES_LEN_def address_alternatives_lower_def
        split: if_splits option.splits address_filter.splits)
next
  case (Inl e)
  then show ?thesis
    using validate_range_error [of f cb]
    by (auto simp: validate_getlogs_filter_def Let_def MAX_GETLOGS_TOPICS_LEN_def
        MAX_GETLOGS_ADDRESSES_LEN_def address_alternatives_lower_def
        split: if_splits option.splits address_filter.splits)
qed

end
