(* ===== verification/Store_Txns.thy ===== *)
theory Store_Txns
  imports Store_Logs "HOL-Library.List_Lexorder" "HOL-Library.Char_ord"
begin

text \<open>
  The transaction rows of the store (\<^verbatim>\<open>src/src/store/memory.rs\<close>): admission, commit with its
  success-always-wins rule, expiry, the receipt and nonce-frontier reads, the recovery backoff and the
  claim-calldata repair backlog. The lemmas describe what each operation does to one row.
\<close>

section \<open>Admission\<close>

definition receipt_of_entry :: "txn_entry \<Rightarrow> txn_receipt" where
  "receipt_of_entry entry =
     \<lparr>tr_id = te_id entry, tr_envelope = te_envelope entry, tr_signer = te_signer entry,
      tr_expires_at = te_expires_at entry, tr_result = None, tr_block_num = 0,
      tr_logs = te_logs entry, tr_recovery_attempts = 0, tr_next_recovery_at = None\<rparr>"

definition txn_begin :: "externals \<Rightarrow> tx_hash \<Rightarrow> txn_entry \<Rightarrow> mem_store \<Rightarrow> unit fallible \<times> mem_store" where
  "txn_begin E h entry s =
     (if hm_contains (transactions s) h then (Inl (TxnAlreadyExists h), s)
      else (Inr (), s\<lparr>transactions :=
              lru_put E TRANSACTIONS_CAPACITY h (receipt_of_entry entry) (transactions s)\<rparr>))"

definition refresh_pending :: "txn_entry \<Rightarrow> txn_receipt \<Rightarrow> txn_receipt" where
  "refresh_pending entry r =
     (if tr_result r = None
      then r\<lparr>tr_id := (if te_id entry \<noteq> None then te_id entry else tr_id r),
             tr_expires_at := (if te_expires_at entry \<noteq> None then te_expires_at entry else tr_expires_at r),
             tr_logs := (if te_logs entry \<noteq> [] then te_logs entry else tr_logs r)\<rparr>
      else r)"

definition txn_begin_if_absent ::
    "externals \<Rightarrow> tx_hash \<Rightarrow> txn_entry \<Rightarrow> mem_store \<Rightarrow> bool fallible \<times> mem_store" where
  "txn_begin_if_absent E h entry s =
     (case hm_get (transactions s) h of
        Some receipt \<Rightarrow>
          (Inr False, s\<lparr>transactions := lru_modify h (refresh_pending entry) (transactions s)\<rparr>)
      | None \<Rightarrow>
          (Inr True, s\<lparr>transactions :=
             lru_put E TRANSACTIONS_CAPACITY h (receipt_of_entry entry) (transactions s)\<rparr>))"

section \<open>Commit\<close>

definition is_err :: "'e + 'a \<Rightarrow> bool" where
  "is_err r = (case r of Inl _ \<Rightarrow> True | Inr _ \<Rightarrow> False)"

datatype txn_state = StPending | StFailed | StSuccess

definition txn_state_of :: "txn_receipt \<Rightarrow> txn_state" where
  "txn_state_of r =
     (case tr_result r of None \<Rightarrow> StPending | Some (Inr _) \<Rightarrow> StSuccess | Some (Inl _) \<Rightarrow> StFailed)"

definition commit_applies :: "txn_state \<Rightarrow> txn_result \<Rightarrow> bool" where
  "commit_applies st result =
     (case (st, \<not> is_err result) of
        (StSuccess, _) \<Rightarrow> False
      | (_, True) \<Rightarrow> True
      | (StPending, False) \<Rightarrow> True
      | (StFailed, False) \<Rightarrow> False)"

definition txn_log ::
    "externals \<Rightarrow> tx_hash \<Rightarrow> u64 \<Rightarrow> b256 \<Rightarrow> log_data_t \<Rightarrow> synthetic_log" where
  "txn_log E h block_num block_hash ld =
     \<lparr>log_address = ext_bridge_address E,
      log_topics = map (ext_fmt_hash E) (ld_topics ld),
      log_data = ext_display_bytes E (ld_data ld),
      log_block_number = block_num,
      log_block_hash = block_hash,
      log_transaction_hash = ext_fmt_hash E h,
      log_transaction_index = 0,
      log_log_index = 0,
      log_removed = False\<rparr>"

definition txn_commit ::
    "externals \<Rightarrow> tx_hash \<Rightarrow> txn_result \<Rightarrow> u64 \<Rightarrow> b256 \<Rightarrow> mem_store \<Rightarrow> unit fallible \<times> mem_store" where
  "txn_commit E h result block_num block_hash s =
     (if is_err result \<and> hm_contains (tx_note_links s) (ext_fmt_hash E h) then (Inr (), s)
      else case hm_get (transactions s) h of
             None \<Rightarrow> (Inl (TxnNotFound h), s)
           | Some receipt \<Rightarrow>
               if \<not> commit_applies (txn_state_of receipt) result
               then (Inr (), s\<lparr>transactions := lru_touch h (transactions s)\<rparr>)
               else
                 let s1 = s\<lparr>transactions :=
                        lru_modify h (\<lambda>r. r\<lparr>tr_result := Some result, tr_block_num := block_num\<rparr>)
                          (transactions s)\<rparr>
                 in if is_err result then (Inr (), s1)
                    else let s2 = s1\<lparr>claim_calldata_pending :=
                                claim_calldata_pending s1 - {ext_fmt_hash E h}\<rparr>
                         in (Inr (), fold (\<lambda>ld st. snd (add_log (txn_log E h block_num block_hash ld) st))
                                       (tr_logs receipt) s2))"

definition txn_commit_confirmed_duplicate ::
    "tx_hash \<Rightarrow> txn_result \<Rightarrow> u64 \<Rightarrow> mem_store \<Rightarrow> unit fallible \<times> mem_store" where
  "txn_commit_confirmed_duplicate h result block_num s =
     (case hm_get (transactions s) h of
        None \<Rightarrow> (Inl (TxnNotFound h), s)
      | Some receipt \<Rightarrow>
          (Inr (), s\<lparr>transactions := lru_modify h
             (\<lambda>r. if tr_result r = None
                  then r\<lparr>tr_result := Some result, tr_block_num := block_num, tr_logs := []\<rparr>
                  else r) (transactions s)\<rparr>))"

section \<open>Reads\<close>

definition txn_receipt_get :: "tx_hash \<Rightarrow> mem_store \<Rightarrow> (txn_result \<times> u64) option" where
  "txn_receipt_get h s =
     (case hm_get (transactions s) h of
        None \<Rightarrow> None
      | Some receipt \<Rightarrow>
          (case tr_result receipt of
             None \<Rightarrow> None
           | Some result \<Rightarrow> Some (result, tr_block_num receipt)))"

record txn_data =
  td_id :: "b256 option"
  td_envelope :: tx_envelope
  td_signer :: address
  td_expires_at :: "u64 option"
  td_result :: "txn_result option"
  td_block_num :: u64
  td_logs :: "log_data_t list"

definition txn_get :: "tx_hash \<Rightarrow> mem_store \<Rightarrow> txn_data option" where
  "txn_get h s =
     map_option
       (\<lambda>r. \<lparr>td_id = tr_id r, td_envelope = tr_envelope r, td_signer = tr_signer r,
             td_expires_at = tr_expires_at r, td_result = tr_result r,
             td_block_num = tr_block_num r, td_logs = tr_logs r\<rparr>)
       (hm_get (transactions s) h)"

record pending_nonce_frontier =
  pf_lowest_pending :: "u64 option"
  pf_lowest_unlinked :: "u64 option"

definition min_nonce :: "u64 \<Rightarrow> u64 option \<Rightarrow> u64 option" where
  "min_nonce nonce cur = Some (case cur of None \<Rightarrow> nonce | Some c \<Rightarrow> min c nonce)"

definition link_submitted :: "externals \<Rightarrow> mem_store \<Rightarrow> tx_hash \<Rightarrow> bool" where
  "link_submitted E s h =
     (case hm_get (tx_note_links s) (ext_fmt_hash E h) of
        None \<Rightarrow> False
      | Some link \<Rightarrow> nh_state link = HSubmitted)"

definition frontier_step ::
    "externals \<Rightarrow> string \<Rightarrow> mem_store \<Rightarrow> tx_hash \<times> txn_receipt \<Rightarrow> pending_nonce_frontier \<Rightarrow>
       pending_nonce_frontier" where
  "frontier_step E addr s row fr =
     (let h = fst row; receipt = snd row
      in if tr_result receipt \<noteq> None \<or>
            to_lowercase (ext_fmt_address E (tr_signer receipt)) \<noteq> to_lowercase addr then fr
         else
           let nonce = envelope_nonce (tr_envelope receipt);
               fr1 = fr\<lparr>pf_lowest_pending := min_nonce nonce (pf_lowest_pending fr)\<rparr>
           in if \<not> link_submitted E s h
              then fr1\<lparr>pf_lowest_unlinked := min_nonce nonce (pf_lowest_unlinked fr1)\<rparr>
              else fr1)"

definition pending_nonce_frontier_of :: "externals \<Rightarrow> string \<Rightarrow> mem_store \<Rightarrow> pending_nonce_frontier" where
  "pending_nonce_frontier_of E addr s =
     fold (frontier_step E addr s) (transactions s)
       \<lparr>pf_lowest_pending = None, pf_lowest_unlinked = None\<rparr>"

definition txn_pending_by_miden_id :: "b256 \<Rightarrow> mem_store \<Rightarrow> tx_hash option" where
  "txn_pending_by_miden_id i s =
     map_option fst (find (\<lambda>(_, receipt). tr_result receipt = None \<and> tr_id receipt = Some i) (transactions s))"

text \<open>A failing commit inside the two loops is logged and skipped.\<close>

definition txn_commit_pending ::
    "externals \<Rightarrow> b256 list \<Rightarrow> u64 \<Rightarrow> b256 \<Rightarrow> mem_store \<Rightarrow> mem_store" where
  "txn_commit_pending E ids block_num block_hash s =
     fold (\<lambda>i st. case txn_pending_by_miden_id i st of
                    None \<Rightarrow> st
                  | Some h \<Rightarrow> snd (txn_commit E h (Inr ()) block_num block_hash st)) ids s"

definition txn_expire_pending :: "externals \<Rightarrow> u64 \<Rightarrow> b256 \<Rightarrow> mem_store \<Rightarrow> mem_store" where
  "txn_expire_pending E block_num block_hash s =
     (let expired = map fst (filter (\<lambda>(_, r). tr_result r = None \<and>
                         (case tr_expires_at r of None \<Rightarrow> - 1 | Some e \<Rightarrow> e) \<le> block_num)
                       (transactions s))
      in fold (\<lambda>h st. snd (txn_commit E h (Inl ''expired'') block_num block_hash st)) expired s)"

section \<open>Recovery\<close>

record recoverable_pending_txn =
  rp_tx_hash :: tx_hash
  rp_signer :: string
  rp_nonce :: u64
  rp_envelope :: tx_envelope
  rp_miden_tx_id :: "string option"
  rp_handoff :: "note_handoff_state option"
  rp_recovery_attempts :: u32
  rp_next_recovery_at :: "u64 option"
  rp_age_secs :: u64

definition recoverable_pending_txns :: "externals \<Rightarrow> nat \<Rightarrow> mem_store \<Rightarrow> recoverable_pending_txn list" where
  "recoverable_pending_txns E limit s =
     (if limit = 0 then []
      else take limit
        (sort_key (\<lambda>p. (rp_signer p, rp_nonce p))
          (map (\<lambda>(h, r).
                 \<lparr>rp_tx_hash = h, rp_signer = ext_fmt_address E (tr_signer r),
                  rp_nonce = envelope_nonce (tr_envelope r), rp_envelope = tr_envelope r,
                  rp_miden_tx_id = map_option (ext_fmt_txid E) (tr_id r),
                  rp_handoff = map_option nh_state (hm_get (tx_note_links s) (ext_fmt_hash E h)),
                  rp_recovery_attempts = tr_recovery_attempts r,
                  rp_next_recovery_at = tr_next_recovery_at r, rp_age_secs = 0\<rparr>)
            (filter (\<lambda>(_, r). tr_result r = None) (transactions s)))))"

definition record_recovery_attempt ::
    "externals \<Rightarrow> tx_hash \<Rightarrow> u64 \<Rightarrow> mem_store \<Rightarrow> u32 fallible \<times> mem_store" where
  "record_recovery_attempt E h next_recovery_at s =
     (let linked = hm_contains (tx_note_links s) (ext_fmt_hash E h)
      in case hm_get (transactions s) h of
           None \<Rightarrow> (Inl (NotEligibleOrphan h), s)
         | Some r \<Rightarrow>
             if tr_result r = None \<and> tr_id r = None \<and> \<not> linked
             then let n = saturating_add (tr_recovery_attempts r) 1
                  in (Inr n, s\<lparr>transactions := lru_modify h
                        (\<lambda>r. r\<lparr>tr_recovery_attempts := n, tr_next_recovery_at := Some next_recovery_at\<rparr>)
                        (transactions s)\<rparr>)
             else (Inl (NotEligibleOrphan h), s\<lparr>transactions := lru_touch h (transactions s)\<rparr>))"

definition clear_recovery_backoff :: "tx_hash \<Rightarrow> mem_store \<Rightarrow> mem_store" where
  "clear_recovery_backoff h s =
     s\<lparr>transactions := lru_modify h
        (\<lambda>r. r\<lparr>tr_recovery_attempts := 0, tr_next_recovery_at := None\<rparr>) (transactions s)\<rparr>"

section \<open>The claim-calldata repair backlog\<close>

definition seed_claim_calldata_repair_backlog :: "externals \<Rightarrow> mem_store \<Rightarrow> nat \<times> mem_store" where
  "seed_claim_calldata_repair_backlog E s =
     (let claim_topic = to_lowercase CLAIM_EVENT_TOPIC;
          is_claim = (\<lambda>logs. list_ex (\<lambda>l. case first_topic l of
                                None \<Rightarrow> False | Some t \<Rightarrow> eq_ignore_ascii_case t claim_topic) logs);
          repaired = (\<lambda>txh. case ext_parse_hash E txh of
                        None \<Rightarrow> False
                      | Some h \<Rightarrow> (case hm_get (transactions s) h of
                                     None \<Rightarrow> False | Some r \<Rightarrow> tr_result r = Some (Inr ())));
          pending = set (map fst (filter (\<lambda>(txh, logs). is_claim logs \<and> \<not> repaired txh) (logs_by_tx s)))
      in (card pending, s\<lparr>claim_calldata_pending := pending\<rparr>))"

definition count_claim_events_awaiting_calldata :: "mem_store \<Rightarrow> nat" where
  "count_claim_events_awaiting_calldata s = card (claim_calldata_pending s)"

section \<open>What a log insertion leaves alone\<close>

lemma insert_log_frame [simp]:
  "transactions (insert_log l s) = transactions s"
  "tx_note_links (insert_log l s) = tx_note_links s"
  "note_tx_links (insert_log l s) = note_tx_links s"
  "claimed (insert_log l s) = claimed s"
  "nonces (insert_log l s) = nonces s"
  "nonce_reservations (insert_log l s) = nonce_reservations s"
  "processed_notes (insert_log l s) = processed_notes s"
  "deposit_counter (insert_log l s) = deposit_counter s"
  "let_gate_baseline (insert_log l s) = let_gate_baseline s"
  "seen_gers (insert_log l s) = seen_gers s"
  "latest_ger (insert_log l s) = latest_ger s"
  "injected_gers (insert_log l s) = injected_gers s"
  "hash_chain_value (insert_log l s) = hash_chain_value s"
  "faucets (insert_log l s) = faucets s"
  "claim_watcher_processed (insert_log l s) = claim_watcher_processed s"
  "l1_evidence_policy (insert_log l s) = l1_evidence_policy s"
  "claim_calldata_pending (insert_log l s) = claim_calldata_pending s"
  "unclaimable (insert_log l s) = unclaimable s"
  "unbridgeable_bridge_outs (insert_log l s) = unbridgeable_bridge_outs s"
  "b2agg_note_ids (insert_log l s) = b2agg_note_ids s"
  by (simp_all add: insert_log_def Let_def)

definition emit_logs :: "synthetic_log list \<Rightarrow> mem_store \<Rightarrow> mem_store" where
  "emit_logs ls s = fold insert_log ls s"

lemma emit_logs_frame [simp]:
  "transactions (emit_logs ls s) = transactions s"
  "tx_note_links (emit_logs ls s) = tx_note_links s"
  "note_tx_links (emit_logs ls s) = note_tx_links s"
  "claimed (emit_logs ls s) = claimed s"
  "nonces (emit_logs ls s) = nonces s"
  "nonce_reservations (emit_logs ls s) = nonce_reservations s"
  "processed_notes (emit_logs ls s) = processed_notes s"
  "deposit_counter (emit_logs ls s) = deposit_counter s"
  "let_gate_baseline (emit_logs ls s) = let_gate_baseline s"
  "seen_gers (emit_logs ls s) = seen_gers s"
  "latest_ger (emit_logs ls s) = latest_ger s"
  "injected_gers (emit_logs ls s) = injected_gers s"
  "hash_chain_value (emit_logs ls s) = hash_chain_value s"
  "faucets (emit_logs ls s) = faucets s"
  "claim_watcher_processed (emit_logs ls s) = claim_watcher_processed s"
  "l1_evidence_policy (emit_logs ls s) = l1_evidence_policy s"
  "claim_calldata_pending (emit_logs ls s) = claim_calldata_pending s"
  by (simp_all add: emit_logs_def fold_frame)

lemma length_all_logs_emit [simp]: "length (all_logs (emit_logs ls s)) = length (all_logs s) + length ls"
  by (induction ls arbitrary: s) (simp_all add: emit_logs_def)

lemma logs_inv_emit [intro]:
  "logs_inv s \<Longrightarrow> length (all_logs s) + length ls < LOG_LIMIT \<Longrightarrow> logs_inv (emit_logs ls s)"
proof (induction ls arbitrary: s)
  case Nil
  then show ?case by (simp add: emit_logs_def)
next
  case (Cons l ls)
  have "logs_inv (insert_log l s)" using Cons.prems by (intro logs_inv_insert) simp_all
  then show ?case using Cons.IH [of "insert_log l s"] Cons.prems by (simp add: emit_logs_def)
qed

lemma fold_add_log_emit:
  "fold (\<lambda>ld st. snd (add_log (txn_log E h bn bh ld) st)) lds s =
     emit_logs (map (txn_log E h bn bh) lds) s"
  by (simp add: emit_logs_def fold_map add_log_def comp_def)

section \<open>Commit\<close>

lemma commit_applies_iff:
  "commit_applies st result \<longleftrightarrow> st = StPending \<or> (st = StFailed \<and> \<not> is_err result)"
  by (cases st; cases "is_err result") (simp_all add: commit_applies_def)

lemma txn_commit_row:
  "hm_get (transactions (snd (txn_commit E h result bn bh s))) h' =
     (if h' = h \<and> \<not> (is_err result \<and> hm_contains (tx_note_links s) (ext_fmt_hash E h))
      then map_option (\<lambda>r. if commit_applies (txn_state_of r) result
                           then r\<lparr>tr_result := Some result, tr_block_num := bn\<rparr> else r)
             (hm_get (transactions s) h)
      else hm_get (transactions s) h')"
  by (auto simp: txn_commit_def Let_def fold_add_log_emit split: option.split)

lemma txn_commit_links [simp]:
  "tx_note_links (snd (txn_commit E h result bn bh s)) = tx_note_links s"
  by (simp add: txn_commit_def Let_def fold_add_log_emit split: option.split)

lemma all_logs_update [simp]:
  "all_logs (s\<lparr>transactions := x\<rparr>) = all_logs s"
  "all_logs (s\<lparr>claim_calldata_pending := y\<rparr>) = all_logs s"
  by (simp_all add: all_logs_def)

lemma txn_commit_log_count:
  "length (all_logs (snd (txn_commit E h result bn bh s))) =
     length (all_logs s) +
     (case hm_get (transactions s) h of
        Some r \<Rightarrow> if \<not> is_err result \<and> txn_state_of r \<noteq> StSuccess then length (tr_logs r) else 0
      | None \<Rightarrow> 0)"
  by (auto simp: txn_commit_def Let_def fold_add_log_emit commit_applies_iff split: option.split)
    (metis txn_state.exhaust)+

definition run_commits ::
    "externals \<Rightarrow> tx_hash \<Rightarrow> (txn_result \<times> u64 \<times> b256) list \<Rightarrow> mem_store \<Rightarrow> mem_store" where
  "run_commits E h cs s = fold (\<lambda>(result, bn, bh) st. snd (txn_commit E h result bn bh st)) cs s"

lemma txn_receipt_get_row:
  "txn_receipt_get h s =
     (case hm_get (transactions s) h of
        None \<Rightarrow> None | Some r \<Rightarrow> map_option (\<lambda>res. (res, tr_block_num r)) (tr_result r))"
  by (simp add: txn_receipt_get_def split: option.split)

lemma run_commits_simps [simp]:
  "run_commits E h [] s = s"
  "run_commits E h ((result, bn, bh) # cs) s =
     run_commits E h cs (snd (txn_commit E h result bn bh s))"
  by (simp_all add: run_commits_def)

lemma run_commits_settled:
  "hm_get (transactions s) h = Some r \<Longrightarrow> txn_state_of r = StSuccess \<Longrightarrow>
     hm_get (transactions (run_commits E h cs s)) h = Some r \<and>
     length (all_logs (run_commits E h cs s)) = length (all_logs s)"
  by (induction cs arbitrary: s)
    (auto simp: txn_commit_row commit_applies_iff txn_commit_log_count)

text \<open>Where a sequence of commit attempts of one unlinked transaction ends, from its first row on.\<close>

definition commits_outcome ::
    "txn_receipt \<Rightarrow> (txn_result \<times> u64 \<times> b256) list \<Rightarrow> (txn_result \<times> u64) option" where
  "commits_outcome r cs =
     (if txn_state_of r = StSuccess then Some (Inr (), tr_block_num r)
      else case find (\<lambda>c. \<not> is_err (fst c)) cs of
             Some (_, bn, _) \<Rightarrow> Some (Inr (), bn)
           | None \<Rightarrow>
               (case tr_result r of
                  Some res \<Rightarrow> Some (res, tr_block_num r)
                | None \<Rightarrow> (case cs of [] \<Rightarrow> None | (result, bn, _) # _ \<Rightarrow> Some (result, bn))))"

lemma txn_state_of_cases:
  "txn_state_of r = StPending \<longleftrightarrow> tr_result r = None"
  "txn_state_of r = StFailed \<longleftrightarrow> (\<exists>e. tr_result r = Some (Inl e))"
  "txn_state_of r = StSuccess \<longleftrightarrow> tr_result r = Some (Inr ())"
  by (auto simp: txn_state_of_def split: option.splits sum.splits)

lemma is_err_simps [simp]: "is_err (Inl e)" "\<not> is_err (Inr a)"
  by (simp_all add: is_err_def)

lemma run_commits_outcome:
  assumes "hm_get (transactions s) h = Some r" and "hm_get (tx_note_links s) (ext_fmt_hash E h) = None"
  shows "txn_receipt_get h (run_commits E h cs s) = commits_outcome r cs \<and>
         length (all_logs (run_commits E h cs s)) =
           length (all_logs s) +
           (if txn_state_of r \<noteq> StSuccess \<and> list_ex (\<lambda>c. \<not> is_err (fst c)) cs
            then length (tr_logs r) else 0)"
  using assms
proof (induction cs arbitrary: s r)
  case Nil
  then show ?case
    by (auto simp: txn_receipt_get_row commits_outcome_def txn_state_of_cases split: option.split)
next
  case (Cons c cs)
  obtain result bn bh where c: "c = (result, bn, bh)" by (cases c)
  let ?s = "snd (txn_commit E h result bn bh s)"
  let ?r = "if commit_applies (txn_state_of r) result
            then r\<lparr>tr_result := Some result, tr_block_num := bn\<rparr> else r"
  have row: "hm_get (transactions ?s) h = Some ?r"
    using Cons.prems by (simp add: txn_commit_row)
  have IH: "txn_receipt_get h (run_commits E h cs ?s) = commits_outcome ?r cs \<and>
            length (all_logs (run_commits E h cs ?s)) =
              length (all_logs ?s) +
              (if txn_state_of ?r \<noteq> StSuccess \<and> list_ex (\<lambda>c. \<not> is_err (fst c)) cs
               then length (tr_logs ?r) else 0)"
    using row Cons.prems(2) by (intro Cons.IH) simp_all
  show ?case
  proof (cases result)
    case (Inr u)
    with IH Cons.prems(1) c show ?thesis
      by (cases "txn_state_of r") (auto simp: commit_applies_iff commits_outcome_def
          txn_state_of_cases txn_commit_log_count split: option.splits)
  next
    case (Inl e)
    with IH Cons.prems(1) c show ?thesis
      by (cases "txn_state_of r") (auto simp: commit_applies_iff commits_outcome_def
          txn_state_of_cases txn_commit_log_count split: option.splits)
  qed
qed

lemma logs_inv_update [simp]:
  "logs_inv (s\<lparr>transactions := x\<rparr>) = logs_inv s"
  "logs_inv (s\<lparr>claim_calldata_pending := y\<rparr>) = logs_inv s"
  by (simp_all add: logs_inv_def)

lemma logs_inv_txn_commit:
  assumes "logs_inv s" and "length (all_logs (snd (txn_commit E h result bn bh s))) < LOG_LIMIT"
  shows "logs_inv (snd (txn_commit E h result bn bh s))"
  using assms
  by (auto simp: txn_commit_def Let_def fold_add_log_emit split: option.splits if_splits)

section \<open>Expiry\<close>

definition expires_by :: "u64 \<Rightarrow> txn_receipt \<Rightarrow> bool" where
  "expires_by bn r = (tr_result r = None \<and> (case tr_expires_at r of None \<Rightarrow> - 1 | Some e \<Rightarrow> e) \<le> bn)"

lemma expire_fold_row:
  "hm_get (transactions (fold (\<lambda>h st. snd (txn_commit E h (Inl m) bn bh st)) hs s)) h =
     map_option (\<lambda>r. if h \<in> set hs \<and> tr_result r = None \<and> hm_get (tx_note_links s) (ext_fmt_hash E h) = None
                     then r\<lparr>tr_result := Some (Inl m), tr_block_num := bn\<rparr> else r)
       (hm_get (transactions s) h)"
proof (induction hs arbitrary: s h)
  case Nil
  then show ?case by (cases "hm_get (transactions s) h") simp_all
next
  case (Cons a hs)
  show ?case
    by (cases "hm_get (transactions s) h"; cases "h = a")
      (simp_all add: Cons.IH txn_commit_row commit_applies_iff txn_state_of_cases)
qed

lemma txn_expire_pending_row:
  assumes "hm_wf (transactions s)"
  shows "hm_get (transactions (txn_expire_pending E bn bh s)) h =
           map_option (\<lambda>r. if expires_by bn r \<and> hm_get (tx_note_links s) (ext_fmt_hash E h) = None
                           then r\<lparr>tr_result := Some (Inl ''expired''), tr_block_num := bn\<rparr> else r)
             (hm_get (transactions s) h)"
proof (cases "hm_get (transactions s) h")
  case None
  then show ?thesis by (simp add: txn_expire_pending_def Let_def expire_fold_row)
next
  case (Some r)
  let ?expired = "map fst (filter (\<lambda>(_, r). tr_result r = None \<and>
                         (case tr_expires_at r of None \<Rightarrow> - 1 | Some e \<Rightarrow> e) \<le> bn) (transactions s))"
  have "h \<in> set ?expired \<longleftrightarrow> expires_by bn r"
    using Some hm_set_iff [OF assms, of h] by (force simp: expires_by_def)
  then show ?thesis
    using Some unfolding txn_expire_pending_def Let_def expire_fold_row
    by (auto simp: expires_by_def)
qed

section \<open>The pending-nonce frontier\<close>

definition pending_of :: "externals \<Rightarrow> string \<Rightarrow> txn_receipt \<Rightarrow> bool" where
  "pending_of E addr r =
     (tr_result r = None \<and> to_lowercase (ext_fmt_address E (tr_signer r)) = to_lowercase addr)"

definition lowest :: "u64 set \<Rightarrow> u64 option" where
  "lowest N = (if N = {} then None else Some (Min N))"

lemma min_nonce_lowest: "finite N \<Longrightarrow> min_nonce n (lowest N) = lowest (insert n N)"
  by (auto simp: min_nonce_def lowest_def min.commute)

definition nonces_where :: "(tx_hash \<times> txn_receipt \<Rightarrow> bool) \<Rightarrow> (tx_hash \<times> txn_receipt) set \<Rightarrow> u64 set" where
  "nonces_where P rows = (\<lambda>x. envelope_nonce (tr_envelope (snd x))) ` {x \<in> rows. P x}"

lemma nonces_where_insert:
  "nonces_where P (insert x A) =
     (if P x then insert (envelope_nonce (tr_envelope (snd x))) (nonces_where P A) else nonces_where P A)"
  by (auto simp: nonces_where_def)

lemma finite_nonces_where [simp]: "finite A \<Longrightarrow> finite (nonces_where P A)"
  by (simp add: nonces_where_def)

definition frontier_of :: "externals \<Rightarrow> string \<Rightarrow> mem_store \<Rightarrow> (tx_hash \<times> txn_receipt) set \<Rightarrow> pending_nonce_frontier"
  where
  "frontier_of E addr s rows =
     \<lparr>pf_lowest_pending = lowest (nonces_where (\<lambda>x. pending_of E addr (snd x)) rows),
      pf_lowest_unlinked =
        lowest (nonces_where (\<lambda>x. pending_of E addr (snd x) \<and> \<not> link_submitted E s (fst x)) rows)\<rparr>"

lemma frontier_step_insert:
  "finite A \<Longrightarrow> frontier_step E addr s x (frontier_of E addr s A) = frontier_of E addr s (insert x A)"
  by (auto simp: frontier_step_def frontier_of_def nonces_where_insert pending_of_def Let_def
      min_nonce_lowest)

lemma pending_nonce_frontier_spec:
  "pending_nonce_frontier_of E addr s = frontier_of E addr s (set (transactions s))"
  using fold_insert_union [of "frontier_step E addr s" "frontier_of E addr s" "{}" "transactions s"]
  by (simp add: pending_nonce_frontier_of_def frontier_step_insert)
    (simp add: frontier_of_def lowest_def nonces_where_def)

section \<open>Properties\<close>

definition demo_envelope :: "tx_hash \<Rightarrow> u64 \<Rightarrow> tx_envelope" where
  "demo_envelope h nonce =
     Legacy \<lparr>stx_hash = h, stx_chain_id = Some 1, stx_nonce = nonce, stx_to = None, stx_input = []\<rparr>"

definition demo_entry :: "tx_hash \<Rightarrow> u64 \<Rightarrow> txn_entry" where
  "demo_entry h nonce =
     \<lparr>te_id = None, te_envelope = demo_envelope h nonce, te_signer = 7, te_expires_at = Some 5,
      te_logs = [\<lparr>ld_topics = [], ld_data = []\<rparr>]\<rparr>"

definition demo_txn_store :: mem_store where
  "demo_txn_store = new_store\<lparr>transactions := [(9, receipt_of_entry (demo_entry 9 3))]\<rparr>"

lemma demo_txn_store_simps [simp]:
  "hm_get (transactions demo_txn_store) 9 = Some (receipt_of_entry (demo_entry 9 3))"
  "hm_wf (transactions demo_txn_store)"
  "tx_note_links demo_txn_store = []"
  "all_logs demo_txn_store = []"
  by (simp_all add: demo_txn_store_def hm_get_def hm_wf_def hm_keys_def all_logs_def)

text \<open>
  C15. Success always wins, whatever the order of the observations. Take any sequence of commit
  attempts, successes and failures in any order, on one admitted transaction that has no note
  handoff. Its receipt ends as the first success (at that block) as soon as one attempt
  succeeded, also after earlier failures; only if none succeeded is it the first failure. A row
  that was already successful stays as it is. The transaction's logs are emitted exactly once in
  the whole sequence, at the first success, and never for a failure.
\<close>

theorem txn_commit_success_wins:
  assumes "hm_get (transactions s) h = Some r"
    and "hm_get (tx_note_links s) (ext_fmt_hash E h) = None"
  shows "txn_receipt_get h (run_commits E h cs s) =
           (if tr_result r = Some (Inr ()) then Some (Inr (), tr_block_num r)
            else case find (\<lambda>c. \<not> is_err (fst c)) cs of
                   Some (_, bn, _) \<Rightarrow> Some (Inr (), bn)
                 | None \<Rightarrow>
                     (case (tr_result r, cs) of
                        (Some res, _) \<Rightarrow> Some (res, tr_block_num r)
                      | (None, (res, bn, _) # _) \<Rightarrow> Some (res, bn)
                      | (None, []) \<Rightarrow> None)) \<and>
         length (all_logs (run_commits E h cs s)) =
           length (all_logs s) +
           (if tr_result r \<noteq> Some (Inr ()) \<and> list_ex (\<lambda>c. \<not> is_err (fst c)) cs
            then length (tr_logs r) else 0)"
  using run_commits_outcome [OF assms, of cs]
  by (auto simp: commits_outcome_def txn_state_of_cases split: option.splits list.splits)

theorem txn_commit_success_wins_witness:
  "txn_receipt_get 9
     (run_commits demo_ext 9 [(Inl ''x'', 4, 0), (Inr (), 6, 0), (Inl ''y'', 7, 0), (Inr (), 8, 0)]
       demo_txn_store) = Some (Inr (), 6) \<and>
   length (all_logs (run_commits demo_ext 9
     [(Inl ''x'', 4, 0), (Inr (), 6, 0), (Inl ''y'', 7, 0), (Inr (), 8, 0)] demo_txn_store)) = 1"
  using txn_commit_success_wins [where s = demo_txn_store and h = 9 and E = demo_ext and
      r = "receipt_of_entry (demo_entry 9 3)" and
      cs = "[(Inl ''x'', 4, 0), (Inr (), 6, 0), (Inl ''y'', 7, 0), (Inr (), 8, 0)]"]
  by (simp add: receipt_of_entry_def demo_entry_def)

text \<open>
  Once a note handoff is linked to a transaction, no failure observation changes anything: a
  commit with an error leaves the whole store as it is, so a linked transaction never shows a
  failed receipt through it, while a success still settles a pending row.
\<close>

theorem txn_commit_linked_never_fails:
  assumes "hm_contains (tx_note_links s) (ext_fmt_hash E h)"
  shows "txn_commit E h (Inl m) bn bh s = (Inr (), s) \<and>
         (\<forall>r. hm_get (transactions s) h = Some r \<longrightarrow> tr_result r \<noteq> Some (Inr ()) \<longrightarrow>
            txn_receipt_get h (snd (txn_commit E h (Inr ()) bn bh s)) = Some (Inr (), bn))"
proof -
  have "txn_commit E h (Inl m) bn bh s = (Inr (), s)"
    using assms by (simp add: txn_commit_def)
  moreover have "commit_applies (txn_state_of r) (Inr ())" if "tr_result r \<noteq> Some (Inr ())" for r
    using that by (cases "txn_state_of r") (simp_all add: commit_applies_iff txn_state_of_cases)
  ultimately show ?thesis
    by (simp add: txn_receipt_get_row txn_commit_row)
qed

theorem txn_commit_linked_never_fails_witness:
  "txn_commit demo_ext 9 (Inl ''x'') 4 0
       (demo_txn_store\<lparr>tx_note_links := [(ext_fmt_hash demo_ext 9,
          \<lparr>nh_note_commitment = ''c'', nh_note_id = None, nh_state = HSubmitted,
           nh_expiration_block = None\<rparr>)]\<rparr>) =
     (Inr (), demo_txn_store\<lparr>tx_note_links := [(ext_fmt_hash demo_ext 9,
          \<lparr>nh_note_commitment = ''c'', nh_note_id = None, nh_state = HSubmitted,
           nh_expiration_block = None\<rparr>)]\<rparr>)"
  by (rule conjunct1 [OF txn_commit_linked_never_fails]) (simp add: hm_get_def)

text \<open>
  Expiry at a block turns into failed receipts exactly the pending, unlinked rows whose
  expiration has come (a row without one never expires below the maximal block number); rows
  that are settled, not yet due, or protected by a note handoff stay untouched.
\<close>

theorem txn_expire_pending_exact:
  assumes "hm_wf (transactions s)" and "hm_get (transactions s) h = Some r"
  shows "hm_get (transactions (txn_expire_pending E bn bh s)) h =
           Some (if tr_result r = None \<and> \<not> hm_contains (tx_note_links s) (ext_fmt_hash E h) \<and>
                    (case tr_expires_at r of None \<Rightarrow> bn = - 1 | Some e \<Rightarrow> e \<le> bn)
                 then r\<lparr>tr_result := Some (Inl ''expired''), tr_block_num := bn\<rparr> else r)"
proof -
  have "expires_by bn r \<longleftrightarrow> tr_result r = None \<and>
          (case tr_expires_at r of None \<Rightarrow> bn = - 1 | Some e \<Rightarrow> e \<le> bn)"
    by (auto simp: expires_by_def word_order.extremum_unique split: option.split)
  then show ?thesis using assms by (auto simp: txn_expire_pending_row)
qed

theorem txn_expire_pending_exact_witness:
  "txn_receipt_get 9 (txn_expire_pending demo_ext 5 0 demo_txn_store) = Some (Inl ''expired'', 5) \<and>
   txn_receipt_get 9 (txn_expire_pending demo_ext 4 0 demo_txn_store) = None"
  using txn_expire_pending_exact [where s = demo_txn_store and h = 9 and E = demo_ext and bn = 5 and bh = 0]
    txn_expire_pending_exact [where s = demo_txn_store and h = 9 and E = demo_ext and bn = 4 and bh = 0]
  by (simp add: txn_receipt_get_row receipt_of_entry_def demo_entry_def)

text \<open>
  The pending-nonce frontier reports, for a signer given in any letter case, the minimum nonce
  over all its pending rows and the minimum over those not yet handed to Miden; it reports
  nothing exactly when there is no such row.
\<close>

theorem pending_nonce_frontier_minima:
  "pf_lowest_pending (pending_nonce_frontier_of E addr s) =
     lowest {envelope_nonce (tr_envelope r) | h r. (h, r) \<in> set (transactions s) \<and> pending_of E addr r} \<and>
   pf_lowest_unlinked (pending_nonce_frontier_of E addr s) =
     lowest {envelope_nonce (tr_envelope r) | h r. (h, r) \<in> set (transactions s) \<and> pending_of E addr r \<and>
               \<not> link_submitted E s h}"
proof -
  have "nonces_where P rows = {envelope_nonce (tr_envelope r) | h r. (h, r) \<in> rows \<and> P (h, r)}" for P rows
    by (force simp: nonces_where_def)
  then show ?thesis
    by (simp add: pending_nonce_frontier_spec frontier_of_def)
qed

end
