(* ===== verification/Store_Handoff.thy ===== *)
theory Store_Handoff
  imports Store_Txns
begin

text \<open>
  Note handoffs (\<^verbatim>\<open>src/src/store/memory.rs\<close>): the link between an Ethereum transaction and the Miden
  note that carries it, written before the note is submitted (\<open>HPrepared\<close>) and confirmed once the
  submission is certain (\<open>HSubmitted\<close>), with a reverse index from the note commitment. Confirming and
  clearing a handoff also moves the claim its transaction owns.
\<close>

section \<open>Links\<close>

definition record_tx_note_link :: "string \<Rightarrow> string \<Rightarrow> mem_store \<Rightarrow> mem_store" where
  "record_tx_note_link txh note_commitment s =
     (if hm_contains (tx_note_links s) txh then s
      else s\<lparr>tx_note_links := hm_insert txh
               \<lparr>nh_note_commitment = note_commitment, nh_note_id = None, nh_state = HSubmitted,
                nh_expiration_block = None\<rparr> (tx_note_links s),
             note_tx_links := hm_or_insert note_commitment txh (note_tx_links s)\<rparr>)"

definition get_note_link_for_tx :: "string \<Rightarrow> mem_store \<Rightarrow> string option" where
  "get_note_link_for_tx txh s = map_option nh_note_commitment (hm_get (tx_note_links s) txh)"

definition get_tx_for_note :: "string \<Rightarrow> mem_store \<Rightarrow> string option" where
  "get_tx_for_note note_commitment s = hm_get (note_tx_links s) note_commitment"

definition get_note_handoff_for_tx :: "string \<Rightarrow> mem_store \<Rightarrow> note_handoff_record option" where
  "get_note_handoff_for_tx txh s = hm_get (tx_note_links s) txh"

definition pending_note_handoff_txs :: "externals \<Rightarrow> tx_hash option \<Rightarrow> nat \<Rightarrow> mem_store \<Rightarrow> tx_hash list" where
  "pending_note_handoff_txs E after limit s =
     (if limit = 0 then []
      else
        let pending = map fst (filter (\<lambda>(h, txn). tr_result txn = None \<and>
                         (case hm_get (tx_note_links s) (ext_fmt_hash E h) of
                            None \<Rightarrow> False | Some link \<Rightarrow> nh_note_id link \<noteq> None)) (transactions s))
        in take limit (filter (\<lambda>h. case after of None \<Rightarrow> True | Some a \<Rightarrow> a < h) (sort pending)))"

definition prepare_note_handoff ::
    "string \<Rightarrow> string \<Rightarrow> string \<Rightarrow> u64 \<Rightarrow> mem_store \<Rightarrow> unit fallible \<times> mem_store" where
  "prepare_note_handoff txh note_commitment note_id expiration_block s =
     (case hm_get (tx_note_links s) txh of
        Some existing \<Rightarrow>
          if nh_note_commitment existing \<noteq> note_commitment \<or> nh_note_id existing \<noteq> Some note_id
          then (Inl (LinkedToDifferentNote txh), s)
          else (Inr (), s)
      | None \<Rightarrow>
          (Inr (), s\<lparr>tx_note_links := hm_insert txh
                       \<lparr>nh_note_commitment = note_commitment, nh_note_id = Some note_id,
                        nh_state = HPrepared, nh_expiration_block = Some expiration_block\<rparr>
                       (tx_note_links s),
                     note_tx_links := hm_or_insert note_commitment txh (note_tx_links s)\<rparr>))"

section \<open>Confirmation\<close>

definition submit_link :: "note_handoff_record \<Rightarrow> note_handoff_record" where
  "submit_link r = r\<lparr>nh_state := HSubmitted, nh_expiration_block := None\<rparr>"

text \<open>The loop over \<^verbatim>\<open>claimed.values_mut()\<close> for the claims the transaction owns.\<close>

definition submit_owned_claims ::
    "externals \<Rightarrow> string \<Rightarrow> (u256, claim_record) hashmap \<Rightarrow> (u256, claim_record) hashmap" where
  "submit_owned_claims E txh m =
     (case ext_parse_hash E txh of
        None \<Rightarrow> m
      | Some owner \<Rightarrow>
          hm_map (\<lambda>c. if clm_owner_tx_hash c = Some owner \<and> clm_state c = CPrepared
                      then c\<lparr>clm_state := CSubmitted, clm_lease_expires_at := None\<rparr> else c) m)"

definition confirm_note_handoff :: "externals \<Rightarrow> string \<Rightarrow> string \<Rightarrow> mem_store \<Rightarrow> bool \<times> mem_store" where
  "confirm_note_handoff E txh note_commitment s =
     (case hm_get (tx_note_links s) txh of
        None \<Rightarrow> (False, s)
      | Some rec \<Rightarrow>
          if nh_note_commitment rec \<noteq> note_commitment then (False, s)
          else (True, s\<lparr>tx_note_links := hm_insert txh (submit_link rec) (tx_note_links s),
                        claimed := submit_owned_claims E txh (claimed s)\<rparr>))"

definition confirm_one :: "externals \<Rightarrow> string \<Rightarrow> mem_store \<Rightarrow> mem_store" where
  "confirm_one E txh s =
     (case hm_get (tx_note_links s) txh of
        None \<Rightarrow> s
      | Some link \<Rightarrow> s\<lparr>tx_note_links := hm_insert txh (submit_link link) (tx_note_links s),
                       claimed := submit_owned_claims E txh (claimed s)\<rparr>)"

definition confirm_note_handoff_by_commitment ::
    "externals \<Rightarrow> string \<Rightarrow> mem_store \<Rightarrow> string option \<times> mem_store" where
  "confirm_note_handoff_by_commitment E note_commitment s =
     (let preferred = hm_get (note_tx_links s) note_commitment;
          matching = sort (map fst (filter (\<lambda>(_, link). nh_note_commitment link = note_commitment)
                                     (tx_note_links s)))
      in case matching of
           [] \<Rightarrow> (None, s)
         | first # _ \<Rightarrow>
             (Some (case preferred of None \<Rightarrow> first | Some txh \<Rightarrow> txh),
              fold (confirm_one E) matching s))"

definition confirm_prepared_note_handoffs :: "externals \<Rightarrow> string list \<Rightarrow> mem_store \<Rightarrow> u64 \<times> mem_store" where
  "confirm_prepared_note_handoffs E note_ids s =
     (let matches = map (\<lambda>(txh, link). (txh, nh_note_commitment link))
                      (filter (\<lambda>(_, link). nh_state link = HPrepared \<and>
                                 (case nh_note_id link of None \<Rightarrow> False | Some i \<Rightarrow> i \<in> set note_ids))
                        (tx_note_links s))
      in fold (\<lambda>(txh, commitment) (confirmed, st).
                 let (ok, st') = confirm_note_handoff E txh commitment st
                 in (confirmed + (if ok then 1 else 0), st')) matches (0, s))"

section \<open>Clearing an expired preparation\<close>

definition reopen_failed :: "txn_receipt \<Rightarrow> txn_receipt" where
  "reopen_failed r =
     (case tr_result r of Some (Inl _) \<Rightarrow> r\<lparr>tr_result := None, tr_block_num := 0\<rparr> | _ \<Rightarrow> r)"

text \<open>What happens to the claim the transaction owns: \<open>None\<close> refuses the clearing.\<close>

definition release_prepared_claim ::
    "externals \<Rightarrow> string \<Rightarrow> (u256, claim_record) hashmap \<Rightarrow> (u256, claim_record) hashmap option" where
  "release_prepared_claim E txh m =
     (case ext_parse_hash E txh of
        None \<Rightarrow> Some m
      | Some owner \<Rightarrow>
          (case find (\<lambda>(_, c). clm_owner_tx_hash c = Some owner) m of
             None \<Rightarrow> Some m
           | Some (gi, c) \<Rightarrow>
               (case clm_state c of
                  CPrepared \<Rightarrow> Some (hm_remove gi m)
                | CLanded \<Rightarrow> None
                | _ \<Rightarrow> None)))"

definition clear_expired_prepared_note_handoff ::
    "externals \<Rightarrow> string \<Rightarrow> string \<Rightarrow> mem_store \<Rightarrow> bool \<times> mem_store" where
  "clear_expired_prepared_note_handoff E txh note_commitment s =
     (case hm_get (tx_note_links s) txh of
        None \<Rightarrow> (False, s)
      | Some rec \<Rightarrow>
          if nh_state rec \<noteq> HPrepared \<or> nh_note_commitment rec \<noteq> note_commitment \<or>
             (case nh_expiration_block rec of None \<Rightarrow> True | Some x \<Rightarrow> reconcile_cursor s \<le> x)
          then (False, s)
          else case release_prepared_claim E txh (claimed s) of
                 None \<Rightarrow> (False, s)
               | Some claimed' \<Rightarrow>
                   (True, s\<lparr>claimed := claimed',
                            tx_note_links := hm_remove txh (tx_note_links s),
                            note_tx_links :=
                              (if hm_get (note_tx_links s) note_commitment = Some txh
                               then hm_remove note_commitment (note_tx_links s) else note_tx_links s),
                            transactions :=
                              (case ext_parse_hash E txh of
                                 None \<Rightarrow> transactions s
                               | Some h \<Rightarrow> lru_modify h reopen_failed (transactions s))\<rparr>))"

section \<open>The lifecycle of a link and of a claim\<close>

text \<open>
  The specification of one link: it is written once, may be confirmed, and disappears only as an
  expired preparation (\<open>cur\<close> is the reconcile cursor). The note it names never changes.
\<close>

inductive link_step :: "u64 \<Rightarrow> note_handoff_record option \<Rightarrow> note_handoff_record option \<Rightarrow> bool" for cur where
  link_new: "link_step cur None (Some l)"
| link_submit: "link_step cur (Some l) (Some (submit_link l))"
| link_expire: "nh_state l = HPrepared \<Longrightarrow> nh_expiration_block l = Some x \<Longrightarrow> x < cur \<Longrightarrow>
    link_step cur (Some l) None"

text \<open>
  The specification of the lock on one global index. A fence grows with every change of hands; a
  prepared claim can only be submitted, landed or expire; a landed one only lands again.
\<close>

inductive claim_step :: "claim_record option \<Rightarrow> claim_record option \<Rightarrow> bool" where
  claim_acquire: "clm_state c = CExecuting \<Longrightarrow> claim_step None (Some c)"
| claim_reclaim: "clm_state c = CExecuting \<Longrightarrow> clm_state c' = CExecuting \<Longrightarrow>
    clm_fence c' = clm_fence c + 1 \<Longrightarrow> claim_step (Some c) (Some c')"
| claim_refresh: "clm_state c = CExecuting \<Longrightarrow> clm_owner_tx_hash c = None \<Longrightarrow>
    claim_step (Some c) (Some (c\<lparr>clm_acquired_at := t\<rparr>))"
| claim_release: "clm_state c = CExecuting \<Longrightarrow> claim_step (Some c) None"
| claim_prepare: "clm_state c = CExecuting \<Longrightarrow>
    claim_step (Some c) (Some (c\<lparr>clm_state := CPrepared, clm_lease_expires_at := None\<rparr>))"
| claim_submit: "clm_state c = CPrepared \<Longrightarrow>
    claim_step (Some c) (Some (c\<lparr>clm_state := CSubmitted, clm_lease_expires_at := None\<rparr>))"
| claim_expire: "clm_state c = CPrepared \<Longrightarrow> claim_step (Some c) None"
| claim_land: "claim_step (Some c)
    (Some (c\<lparr>clm_state := CLanded, clm_lease_expires_at := None, clm_fence := clm_fence c + 1\<rparr>))"
| claim_land_new: "clm_state c = CLanded \<Longrightarrow> claim_step None (Some c)"

inductive_cases link_stepE: "link_step cur (Some l) y"
inductive_cases claim_stepE: "claim_step (Some c) y"

lemma submit_link_simps [simp]:
  "nh_state (submit_link l) = HSubmitted"
  "nh_note_commitment (submit_link l) = nh_note_commitment l"
  "nh_note_id (submit_link l) = nh_note_id l"
  "submit_link (submit_link l) = submit_link l"
  by (simp_all add: submit_link_def)

lemma link_step_submitted:
  assumes "(link_step cur)\<^sup>*\<^sup>* (Some l) y" and "nh_state l = HSubmitted"
  shows "\<exists>l'. y = Some l' \<and> nh_state l' = HSubmitted \<and> nh_note_commitment l' = nh_note_commitment l"
  using assms by (induction rule: rtranclp_induct) (auto elim!: link_stepE)

lemma claim_step_landed:
  assumes "claim_step\<^sup>*\<^sup>* (Some c) y" and "clm_state c = CLanded"
  shows "\<exists>c'. y = Some c' \<and> clm_state c' = CLanded"
  using assms by (induction rule: rtranclp_induct) (auto elim!: claim_stepE)

lemma claim_step_submitted:
  assumes "claim_step\<^sup>*\<^sup>* (Some c) y" and "clm_state c = CSubmitted \<or> clm_state c = CLanded"
  shows "\<exists>c'. y = Some c' \<and> (clm_state c' = CSubmitted \<or> clm_state c' = CLanded)"
  using assms by (induction rule: rtranclp_induct) (auto elim!: claim_stepE)

section \<open>What the operations do to links and claims\<close>

lemma hm_get_submit_owned_claims:
  "hm_get (submit_owned_claims E txh m) gi =
     map_option (\<lambda>c. if ext_parse_hash E txh \<noteq> None \<and> clm_owner_tx_hash c = ext_parse_hash E txh \<and>
                        clm_state c = CPrepared
                     then c\<lparr>clm_state := CSubmitted, clm_lease_expires_at := None\<rparr> else c) (hm_get m gi)"
  by (cases "ext_parse_hash E txh"; cases "hm_get m gi") (simp_all add: submit_owned_claims_def)

lemma submit_owned_claims_step:
  "claim_step\<^sup>*\<^sup>* (hm_get m gi) (hm_get (submit_owned_claims E txh m) gi)"
  by (cases "hm_get m gi") (auto simp: hm_get_submit_owned_claims intro: claim_submit)

lemma hm_wf_submit_owned_claims [simp]: "hm_wf (submit_owned_claims E txh m) = hm_wf m"
  by (simp add: submit_owned_claims_def split: option.split)

lemma confirm_note_handoff_one:
  "snd (confirm_note_handoff E txh c s) =
     (if map_option nh_note_commitment (hm_get (tx_note_links s) txh) = Some c
      then confirm_one E txh s else s)"
  by (auto simp: confirm_note_handoff_def confirm_one_def split: option.split)

lemma confirm_one_link:
  "hm_get (tx_note_links (confirm_one E t s)) t' =
     (if t' = t then map_option submit_link (hm_get (tx_note_links s) t) else hm_get (tx_note_links s) t')"
  by (simp add: confirm_one_def split: option.split)

lemma confirm_one_wf:
  "hm_wf (tx_note_links s) \<Longrightarrow> hm_wf (tx_note_links (confirm_one E t s))"
  "hm_wf (claimed s) \<Longrightarrow> hm_wf (claimed (confirm_one E t s))"
  by (simp_all add: confirm_one_def split: option.split)

lemma confirm_one_frame [simp]:
  "note_tx_links (confirm_one E t s) = note_tx_links s"
  "transactions (confirm_one E t s) = transactions s"
  "reconcile_cursor (confirm_one E t s) = reconcile_cursor s"
  by (simp_all add: confirm_one_def split: option.split)

lemma confirm_one_claim_step: "claim_step\<^sup>*\<^sup>* (hm_get (claimed s) gi) (hm_get (claimed (confirm_one E t s)) gi)"
  by (simp add: confirm_one_def submit_owned_claims_step split: option.split)

lemma fold_confirm_one_link:
  "hm_get (tx_note_links (fold (confirm_one E) ts s)) t =
     (if t \<in> set ts then map_option submit_link (hm_get (tx_note_links s) t) else hm_get (tx_note_links s) t)"
  by (induction ts arbitrary: s) (simp_all add: confirm_one_link option.map_comp comp_def)

lemma fold_confirm_one_claim_step:
  "claim_step\<^sup>*\<^sup>* (hm_get (claimed s) gi) (hm_get (claimed (fold (confirm_one E) ts s)) gi)"
  by (induction ts arbitrary: s) (auto intro: rtranclp_trans [OF confirm_one_claim_step])

lemma confirm_prepared_as_fold:
  "snd (fold (\<lambda>(txh, commitment) (confirmed, st).
          let (ok, st') = confirm_note_handoff E txh commitment st
          in (confirmed + (if ok then 1 else 0), st')) ms (n, s)) =
     fold (\<lambda>(txh, commitment) st. snd (confirm_note_handoff E txh commitment st)) ms s"
  by (induction ms arbitrary: n s) (simp_all add: case_prod_unfold Let_def)

text \<open>A store reached by confirmations only: links and claims make lifecycle steps.\<close>

definition confirms :: "mem_store \<Rightarrow> mem_store \<Rightarrow> bool" where
  "confirms s s' =
     ((\<forall>t. hm_get (tx_note_links s') t = hm_get (tx_note_links s) t \<or>
           hm_get (tx_note_links s') t = map_option submit_link (hm_get (tx_note_links s) t)) \<and>
      (\<forall>gi. claim_step\<^sup>*\<^sup>* (hm_get (claimed s) gi) (hm_get (claimed s') gi)) \<and>
      note_tx_links s' = note_tx_links s \<and>
      (hm_wf (tx_note_links s) \<longrightarrow> hm_wf (tx_note_links s')) \<and>
      (hm_wf (claimed s) \<longrightarrow> hm_wf (claimed s')))"

lemma confirms_refl [simp]: "confirms s s"
  by (simp add: confirms_def)

lemma map_submit_link_idem: "map_option submit_link (map_option submit_link x) = map_option submit_link x"
  by (cases x) simp_all

lemma confirms_trans:
  assumes "confirms a b" and "confirms b c"
  shows "confirms a c"
proof -
  have "hm_get (tx_note_links c) t = hm_get (tx_note_links a) t \<or>
        hm_get (tx_note_links c) t = map_option submit_link (hm_get (tx_note_links a) t)" for t
    using assms unfolding confirms_def by (metis map_submit_link_idem)
  with assms show ?thesis unfolding confirms_def by (auto intro: rtranclp_trans)
qed

lemma confirms_one: "confirms s (confirm_one E t s)"
  by (auto simp: confirms_def confirm_one_link confirm_one_claim_step confirm_one_wf)

lemma confirms_handoff: "confirms s (snd (confirm_note_handoff E t c s))"
  by (simp add: confirm_note_handoff_one confirms_one)

lemma confirms_fold: "(\<And>x s. confirms s (f x s)) \<Longrightarrow> confirms s (fold f xs s)"
  by (induction xs arbitrary: s) (auto intro: confirms_trans)

lemma confirms_by_commitment: "confirms s (snd (confirm_note_handoff_by_commitment E c s))"
  by (auto simp: confirm_note_handoff_by_commitment_def Let_def split: list.split
      intro: confirms_trans [OF confirms_one confirms_fold] confirms_one)

lemma confirms_prepared: "confirms s (snd (confirm_prepared_note_handoffs E ids s))"
  unfolding confirm_prepared_note_handoffs_def Let_def confirm_prepared_as_fold [unfolded Let_def]
  by (rule confirms_fold) (auto simp: confirms_handoff split: prod.split)

lemma find_Some_in: "find P xs = Some x \<Longrightarrow> x \<in> set xs \<and> P x"
  by (auto simp: find_Some_iff)

lemma release_prepared_claim_cases:
  assumes "release_prepared_claim E txh m = Some m'" and "hm_wf m"
  shows "hm_get m' gi = hm_get m gi \<or>
         (\<exists>c. hm_get m gi = Some c \<and> clm_state c = CPrepared \<and>
            clm_owner_tx_hash c = ext_parse_hash E txh \<and> hm_get m' gi = None)"
  using assms(1)
  by (auto simp: release_prepared_claim_def split: option.splits claim_state.splits
      dest!: find_Some_in hm_in_get [OF assms(2)]) blast+

lemma release_prepared_claim_wf:
  "release_prepared_claim E txh m = Some m' \<Longrightarrow> hm_wf m \<Longrightarrow> hm_wf m'"
  by (auto simp: release_prepared_claim_def split: option.splits claim_state.splits)

lemma release_prepared_claim_step:
  assumes "release_prepared_claim E txh m = Some m'" and "hm_wf m"
  shows "claim_step\<^sup>*\<^sup>* (hm_get m gi) (hm_get m' gi)"
  using release_prepared_claim_cases [OF assms, of gi]
  by (auto intro: r_into_rtranclp [where r = claim_step, OF claim_expire])

lemma clear_expired_cases:
  obtains (refused) "clear_expired_prepared_note_handoff E txh c s = (False, s)"
  | (cleared) rec x m' where "hm_get (tx_note_links s) txh = Some rec" and "nh_state rec = HPrepared"
      and "nh_note_commitment rec = c" and "nh_expiration_block rec = Some x" and "x < reconcile_cursor s"
      and "release_prepared_claim E txh (claimed s) = Some m'"
      and "clear_expired_prepared_note_handoff E txh c s =
             (True, s\<lparr>claimed := m', tx_note_links := hm_remove txh (tx_note_links s),
                      note_tx_links := (if hm_get (note_tx_links s) c = Some txh
                         then hm_remove c (note_tx_links s) else note_tx_links s),
                      transactions := (case ext_parse_hash E txh of None \<Rightarrow> transactions s
                         | Some h \<Rightarrow> lru_modify h reopen_failed (transactions s))\<rparr>)"
proof (cases "hm_get (tx_note_links s) txh")
  case None
  then show thesis by (intro refused) (simp add: clear_expired_prepared_note_handoff_def)
next
  case (Some rec)
  let ?guard = "nh_state rec \<noteq> HPrepared \<or> nh_note_commitment rec \<noteq> c \<or>
    (case nh_expiration_block rec of None \<Rightarrow> True | Some x \<Rightarrow> reconcile_cursor s \<le> x)"
  show thesis
  proof (cases ?guard)
    case True
    with Some show thesis by (intro refused) (simp add: clear_expired_prepared_note_handoff_def)
  next
    case False
    then obtain x where x: "nh_expiration_block rec = Some x" "x < reconcile_cursor s"
      by (auto split: option.splits)
    show thesis
    proof (cases "release_prepared_claim E txh (claimed s)")
      case None
      with Some False show thesis
        by (intro refused) (simp add: clear_expired_prepared_note_handoff_def)
    next
      case rel: (Some m')
      from Some False x rel show thesis
        by (intro cleared [of rec x m']) (simp_all add: clear_expired_prepared_note_handoff_def)
    qed
  qed
qed

section \<open>The reverse index\<close>

definition links_inv :: "mem_store \<Rightarrow> bool" where
  "links_inv s =
     (hm_wf (tx_note_links s) \<and> hm_wf (note_tx_links s) \<and>
      (\<forall>(c, t) \<in> set (note_tx_links s).
         map_option nh_note_commitment (hm_get (tx_note_links s) t) = Some c))"

lemma links_inv_iff:
  "links_inv s \<longleftrightarrow>
     hm_wf (tx_note_links s) \<and> hm_wf (note_tx_links s) \<and>
     (\<forall>c t. hm_get (note_tx_links s) c = Some t \<longrightarrow>
        map_option nh_note_commitment (hm_get (tx_note_links s) t) = Some c)"
  unfolding links_inv_def
  by (intro conj_cong refl) (simp add: hm_set_iff split_beta Ball_def)

lemma links_inv_cong:
  "tx_note_links s' = tx_note_links s \<Longrightarrow> note_tx_links s' = note_tx_links s \<Longrightarrow> links_inv s' = links_inv s"
  by (simp add: links_inv_def)

lemma links_invD:
  "links_inv s \<Longrightarrow> hm_get (note_tx_links s) c = Some t \<Longrightarrow>
     \<exists>l. hm_get (tx_note_links s) t = Some l \<and> nh_note_commitment l = c"
  by (simp add: links_inv_iff)

lemma links_inv_fresh:
  assumes "links_inv s" and "hm_get (tx_note_links s) t = None" and "nh_note_commitment l = c"
  shows "links_inv (s\<lparr>tx_note_links := hm_insert t l (tx_note_links s),
                      note_tx_links := hm_or_insert c t (note_tx_links s)\<rparr>)"
proof -
  have "hm_get (note_tx_links s) c' \<noteq> Some t" for c'
    using assms(2) links_invD [OF assms(1), of c' t] by auto
  with assms show ?thesis by (auto simp: links_inv_iff split: option.splits)
qed

lemma links_inv_record [intro]: "links_inv s \<Longrightarrow> links_inv (record_tx_note_link t c s)"
  by (auto simp: record_tx_note_link_def intro: links_inv_fresh)

lemma links_inv_prepare [intro]: "links_inv s \<Longrightarrow> links_inv (snd (prepare_note_handoff t c i x s))"
  by (auto simp: prepare_note_handoff_def intro: links_inv_fresh split: option.split)

lemma links_inv_confirms:
  assumes "links_inv s" and "confirms s s'"
  shows "links_inv s'"
proof -
  have "map_option nh_note_commitment (hm_get (tx_note_links s') t) =
        map_option nh_note_commitment (hm_get (tx_note_links s) t)" for t
    using assms(2) unfolding confirms_def
    by (cases "hm_get (tx_note_links s) t") (metis option.map_disc_iff option.simps(9) submit_link_simps(2))+
  with assms show ?thesis by (simp add: links_inv_iff confirms_def)
qed

lemma links_inv_drop:
  assumes "links_inv s" and "hm_get (tx_note_links s) t = Some l" and "nh_note_commitment l = c"
  shows "links_inv (s\<lparr>tx_note_links := hm_remove t (tx_note_links s),
                      note_tx_links := (if hm_get (note_tx_links s) c = Some t
                         then hm_remove c (note_tx_links s) else note_tx_links s)\<rparr>)"
    (is "links_inv (s\<lparr>tx_note_links := ?fwd, note_tx_links := ?rev\<rparr>)")
proof -
  have only: "c' = c" if "hm_get (note_tx_links s) c' = Some t" for c'
    using assms(2,3) links_invD [OF assms(1) that] by simp
  have key: "hm_get (note_tx_links s) c' = Some t' \<and> t' \<noteq> t" if "hm_get ?rev c' = Some t'" for c' t'
  proof -
    have g: "hm_get (note_tx_links s) c' = Some t'" "hm_get (note_tx_links s) c = Some t \<Longrightarrow> c' \<noteq> c"
      using that by (simp_all split: if_split_asm)
    then show ?thesis using only [of c'] by blast
  qed
  have wf: "hm_wf ?fwd" "hm_wf ?rev"
    using assms(1) by (simp_all add: links_inv_def)
  have "map_option nh_note_commitment (hm_get ?fwd t') = Some c'" if "hm_get ?rev c' = Some t'" for c' t'
    using key [OF that] links_invD [OF assms(1), of c' t'] by auto
  with wf show ?thesis by (simp add: links_inv_iff del: hm_get_remove map_option_eq_Some split del: if_split)
qed

lemma links_inv_clear [intro]:
  assumes "links_inv s"
  shows "links_inv (snd (clear_expired_prepared_note_handoff E t c s))"
proof (cases rule: clear_expired_cases [of E t c s])
  case refused
  with assms show ?thesis by simp
next
  case (cleared rec x m')
  have "links_inv (snd (clear_expired_prepared_note_handoff E t c s)) =
        links_inv (s\<lparr>tx_note_links := hm_remove t (tx_note_links s),
                      note_tx_links := (if hm_get (note_tx_links s) c = Some t
                         then hm_remove c (note_tx_links s) else note_tx_links s)\<rparr>)"
    unfolding cleared(7) by (rule links_inv_cong) simp_all
  with links_inv_drop [OF assms cleared(1,3)] show ?thesis by simp
qed

section \<open>Properties\<close>

text \<open>
  Clearing an expired preparation is safe. A refused clearing changes nothing. A granted one
  had a prepared (never a submitted) handoff for that very note whose expiration block the
  reconcile cursor had passed; every claim either stays as it was or was prepared by this
  transaction and is released; the link and its reverse entry are gone, every other link stays;
  and the transaction's receipt is reopened exactly when it had failed.
\<close>

theorem clear_expired_handoff_safe:
  assumes "hm_wf (claimed s)"
  shows "case clear_expired_prepared_note_handoff E txh c s of
           (False, s') \<Rightarrow> s' = s
         | (True, s') \<Rightarrow>
             (\<exists>rec x. hm_get (tx_note_links s) txh = Some rec \<and> nh_state rec = HPrepared \<and>
                nh_note_commitment rec = c \<and> nh_expiration_block rec = Some x \<and> x < reconcile_cursor s) \<and>
             (\<forall>gi. hm_get (claimed s') gi = hm_get (claimed s) gi \<or>
                (\<exists>cl. hm_get (claimed s) gi = Some cl \<and> clm_state cl = CPrepared \<and>
                   clm_owner_tx_hash cl = ext_parse_hash E txh \<and> hm_get (claimed s') gi = None)) \<and>
             (\<forall>t. hm_get (tx_note_links s') t = (if t = txh then None else hm_get (tx_note_links s) t)) \<and>
             hm_get (note_tx_links s') c \<noteq> Some txh \<and>
             (\<forall>h. hm_get (transactions s') h =
                (if ext_parse_hash E txh = Some h
                 then map_option reopen_failed (hm_get (transactions s) h) else hm_get (transactions s) h))"
proof (rule clear_expired_cases [of E txh c s])
  assume "clear_expired_prepared_note_handoff E txh c s = (False, s)"
  then show ?thesis by simp
next
  fix rec x m'
  assume *: "hm_get (tx_note_links s) txh = Some rec" "nh_state rec = HPrepared"
    "nh_note_commitment rec = c" "nh_expiration_block rec = Some x" "x < reconcile_cursor s"
    and rel: "release_prepared_claim E txh (claimed s) = Some m'"
    and eq: "clear_expired_prepared_note_handoff E txh c s =
             (True, s\<lparr>claimed := m', tx_note_links := hm_remove txh (tx_note_links s),
                      note_tx_links := (if hm_get (note_tx_links s) c = Some txh
                         then hm_remove c (note_tx_links s) else note_tx_links s),
                      transactions := (case ext_parse_hash E txh of None \<Rightarrow> transactions s
                         | Some h \<Rightarrow> lru_modify h reopen_failed (transactions s))\<rparr>)"
  have "hm_get m' gi = hm_get (claimed s) gi \<or>
        (\<exists>cl. hm_get (claimed s) gi = Some cl \<and> clm_state cl = CPrepared \<and>
           clm_owner_tx_hash cl = ext_parse_hash E txh \<and> hm_get m' gi = None)" for gi
    using release_prepared_claim_cases [OF rel assms] .
  with * show ?thesis unfolding eq by (auto split: option.split)
qed

definition demo_handoff_store :: mem_store where
  "demo_handoff_store =
     demo_txn_store\<lparr>reconcile_cursor := 6,
       tx_note_links := [(ext_fmt_hash demo_ext 9,
          \<lparr>nh_note_commitment = ''c'', nh_note_id = Some ''n'', nh_state = HPrepared,
           nh_expiration_block = Some 5\<rparr>)],
       note_tx_links := [(''c'', ext_fmt_hash demo_ext 9)],
       claimed := [(77, \<lparr>clm_owner_tx_hash = Some 9, clm_state = CPrepared, clm_acquired_at = 0,
                         clm_lease_expires_at = None, clm_fence = 1\<rparr>)]\<rparr>"

lemma demo_handoff_cleared:
  "fst (clear_expired_prepared_note_handoff demo_ext (ext_fmt_hash demo_ext 9) ''c'' demo_handoff_store)"
  by (simp add: clear_expired_prepared_note_handoff_def demo_handoff_store_def hm_get_def
      release_prepared_claim_def demo_hash_text)

theorem clear_expired_handoff_safe_witness:
  "hm_wf (claimed demo_handoff_store) \<and>
   (case clear_expired_prepared_note_handoff demo_ext (ext_fmt_hash demo_ext 9) ''c'' demo_handoff_store of
      (ok, s') \<Rightarrow> ok \<and> hm_get (tx_note_links s') (ext_fmt_hash demo_ext 9) = None)"
proof -
  have wf: "hm_wf (claimed demo_handoff_store)"
    by (simp add: demo_handoff_store_def hm_wf_def hm_keys_def)
  show ?thesis
    using clear_expired_handoff_safe [OF wf, where E = demo_ext and txh = "ext_fmt_hash demo_ext 9" and c = "''c''"]
      demo_handoff_cleared
    by (cases "clear_expired_prepared_note_handoff demo_ext (ext_fmt_hash demo_ext 9) ''c'' demo_handoff_store")
      (auto simp: wf)
qed

definition handoff_pending :: "externals \<Rightarrow> mem_store \<Rightarrow> tx_hash set" where
  "handoff_pending E s =
     {h. \<exists>r link. hm_get (transactions s) h = Some r \<and> tr_result r = None \<and>
         hm_get (tx_note_links s) (ext_fmt_hash E h) = Some link \<and> nh_note_id link \<noteq> None}"

lemma take_sorted_least:
  "sorted xs \<Longrightarrow> x \<in> set (take n xs) \<Longrightarrow> y \<in> set (drop n xs) \<Longrightarrow> x \<le> (y :: 'a::linorder)"
  by (metis append_take_drop_id sorted_append)

text \<open>
  Paging through the pending handoffs misses nothing. A page holds at most \<open>limit\<close>
  transactions, strictly ascending, all pending with an exact note handoff and above the cursor
  \<open>after\<close>; and whatever such transaction is not on the page lies above everything on it, so a page
  that is not full is the last one and the next page can continue from the largest hash.
\<close>

theorem pending_note_handoff_page:
  assumes "hm_wf (transactions s)" and "0 < limit"
  shows "let page = pending_note_handoff_txs E after limit s;
             rest = {h \<in> handoff_pending E s. \<forall>a. after = Some a \<longrightarrow> a < h}
         in sorted_wrt (<) page \<and> length page = min limit (card rest) \<and> set page \<subseteq> rest \<and>
            (\<forall>x \<in> set page. \<forall>y \<in> rest - set page. x < y)"
proof -
  let ?p = "map fst (filter (\<lambda>(h, txn). tr_result txn = None \<and>
              (case hm_get (tx_note_links s) (ext_fmt_hash E h) of
                 None \<Rightarrow> False | Some link \<Rightarrow> nh_note_id link \<noteq> None)) (transactions s))"
  define xs where "xs = filter (\<lambda>h. case after of None \<Rightarrow> True | Some a \<Rightarrow> a < h) (sort ?p)"
  have d: "distinct ?p"
    using assms(1) by (simp add: hm_wf_def hm_keys_def distinct_map_filter)
  then have dxs: "distinct xs" and sxs: "sorted xs"
    by (simp_all add: xs_def sorted_filter [where f = id, simplified])
  have "set ?p = handoff_pending E s"
    using hm_set_iff [OF assms(1)] by (force simp: handoff_pending_def split: option.splits)
  then have set_xs: "set xs = {h \<in> handoff_pending E s. \<forall>a. after = Some a \<longrightarrow> a < h}"
    by (auto simp: xs_def split: option.splits)
  have page: "pending_note_handoff_txs E after limit s = take limit xs"
    using assms(2) by (simp add: pending_note_handoff_txs_def xs_def Let_def)
  have "x < y" if "x \<in> set (take limit xs)" "y \<in> set xs - set (take limit xs)" for x y
  proof -
    have "y \<in> set (drop limit xs)" using that(2) by (metis Diff_iff Un_iff append_take_drop_id set_append)
    then have "x \<le> y" using take_sorted_least [OF sxs that(1)] by blast
    moreover have "x \<noteq> y" using that by auto
    ultimately show ?thesis by simp
  qed
  moreover have "sorted_wrt (<) (take limit xs)"
    using dxs sxs by (simp add: strict_sorted_iff sorted_wrt_take)
  moreover have "length xs = card (set xs)" using dxs by (simp add: distinct_card)
  ultimately show ?thesis
    by (auto simp: Let_def page set_xs [symmetric] min.commute dest: in_set_takeD)
qed

theorem pending_note_handoff_page_witness:
  "sorted_wrt (<) (pending_note_handoff_txs demo_ext None 3 demo_handoff_store) \<and>
   9 \<in> set (pending_note_handoff_txs demo_ext None 3 demo_handoff_store)"
proof -
  have wf: "hm_wf (transactions demo_handoff_store)"
    by (simp add: demo_handoff_store_def)
  have "pending_note_handoff_txs demo_ext None 3 demo_handoff_store = [9]"
    by (simp add: pending_note_handoff_txs_def demo_handoff_store_def demo_txn_store_def
        receipt_of_entry_def hm_get_def)
  then show ?thesis
    using pending_note_handoff_page [OF wf, where limit = 3 and E = demo_ext and after = None] by (simp add: Let_def)
qed

end
