(* ===== verification/Store_Claims.thy ===== *)
theory Store_Claims
  imports Store_Handoff
begin

text \<open>
  Claims (\<^verbatim>\<open>src/src/store/memory.rs\<close>): the fenced lock on a bridge claim's global index, its submission
  together with the note handoff, the unfenced predecessors that the trait still offers, and the
  claim watcher that lands a claim when its note is seen consumed. A lifecycle automaton per
  global index is the specification; the operations refine it.
\<close>

section \<open>The fenced lock\<close>

definition try_claim_fenced :: "u256 \<Rightarrow> tx_hash \<Rightarrow> time \<Rightarrow> time \<Rightarrow> mem_store \<Rightarrow> u64 option \<times> mem_store" where
  "try_claim_fenced gi owner lease now s =
     (if hm_contains (claimed s) gi then (None, s)
      else (Some 1, s\<lparr>claimed := hm_insert gi
              \<lparr>clm_owner_tx_hash = Some owner, clm_state = CExecuting, clm_acquired_at = now,
               clm_lease_expires_at = Some (now + lease), clm_fence = 1\<rparr> (claimed s)\<rparr>))"

definition claim_expired :: "time \<Rightarrow> time \<Rightarrow> claim_record \<Rightarrow> bool" where
  "claim_expired lease now c =
     (case clm_lease_expires_at c of
        Some deadline \<Rightarrow> deadline \<le> now
      | None \<Rightarrow> lease \<le> now - clm_acquired_at c)"

definition try_reclaim_claim_fenced ::
    "u256 \<Rightarrow> tx_hash \<Rightarrow> time \<Rightarrow> time \<Rightarrow> mem_store \<Rightarrow> u64 option \<times> mem_store" where
  "try_reclaim_claim_fenced gi owner lease now s =
     (case hm_get (claimed s) gi of
        None \<Rightarrow> (None, s)
      | Some c \<Rightarrow>
          if clm_state c \<noteq> CExecuting \<or>
             (clm_owner_tx_hash c \<noteq> Some owner \<and> \<not> claim_expired lease now c)
          then (None, s)
          else (Some (clm_fence c + 1), s\<lparr>claimed := hm_insert gi
                  (c\<lparr>clm_owner_tx_hash := Some owner, clm_acquired_at := now,
                     clm_lease_expires_at := Some (now + lease), clm_fence := clm_fence c + 1\<rparr>)
                  (claimed s)\<rparr>))"

definition prepare_claim_submission_fenced ::
    "externals \<Rightarrow> u256 \<Rightarrow> tx_hash \<Rightarrow> u64 \<Rightarrow> tx_hash \<Rightarrow> string \<Rightarrow> string \<Rightarrow> u64 \<Rightarrow> time \<Rightarrow> mem_store \<Rightarrow>
       bool fallible \<times> mem_store" where
  "prepare_claim_submission_fenced E gi owner fence h note_commitment note_id expiration_block now s =
     (let tx_key = ext_fmt_hash E h
      in case hm_get (tx_note_links s) tx_key of
           Some existing \<Rightarrow>
             if nh_note_commitment existing \<noteq> note_commitment \<or> nh_note_id existing \<noteq> Some note_id
             then (Inl (LinkedToDifferentClaimNote tx_key), s)
             else (Inr False, s)
         | None \<Rightarrow>
             (case hm_get (claimed s) gi of
                None \<Rightarrow> (Inr False, s)
              | Some c \<Rightarrow>
                  if clm_owner_tx_hash c \<noteq> Some owner \<or> clm_fence c \<noteq> fence \<or>
                     clm_state c \<noteq> CExecuting \<or>
                     (case clm_lease_expires_at c of None \<Rightarrow> True | Some deadline \<Rightarrow> deadline \<le> now)
                  then (Inr False, s)
                  else (Inr True,
                        s\<lparr>tx_note_links := hm_insert tx_key
                            \<lparr>nh_note_commitment = note_commitment, nh_note_id = Some note_id,
                             nh_state = HPrepared, nh_expiration_block = Some expiration_block\<rparr>
                            (tx_note_links s),
                          claimed := hm_insert gi
                            (c\<lparr>clm_state := CPrepared, clm_lease_expires_at := None\<rparr>) (claimed s),
                          note_tx_links := hm_or_insert note_commitment tx_key (note_tx_links s)\<rparr>)))"

definition unclaim_fenced :: "u256 \<Rightarrow> tx_hash \<Rightarrow> u64 \<Rightarrow> mem_store \<Rightarrow> bool \<times> mem_store" where
  "unclaim_fenced gi owner fence s =
     (let removable = (case hm_get (claimed s) gi of
                         None \<Rightarrow> False
                       | Some c \<Rightarrow> clm_owner_tx_hash c = Some owner \<and> clm_fence c = fence \<and>
                                   clm_state c = CExecuting)
      in (removable, if removable then s\<lparr>claimed := hm_remove gi (claimed s)\<rparr> else s))"

section \<open>The unfenced operations\<close>

definition try_claim :: "u256 \<Rightarrow> time \<Rightarrow> mem_store \<Rightarrow> unit fallible \<times> mem_store" where
  "try_claim gi now s =
     (if hm_contains (claimed s) gi then (Inl (ClaimAlreadySubmitted gi), s)
      else (Inr (), s\<lparr>claimed := hm_insert gi
              \<lparr>clm_owner_tx_hash = None, clm_state = CExecuting, clm_acquired_at = now,
               clm_lease_expires_at = None, clm_fence = 0\<rparr> (claimed s)\<rparr>))"

definition try_reclaim_expired :: "u256 \<Rightarrow> time \<Rightarrow> time \<Rightarrow> mem_store \<Rightarrow> bool \<times> mem_store" where
  "try_reclaim_expired gi ttl now s =
     (case hm_get (claimed s) gi of
        Some c \<Rightarrow>
          if clm_owner_tx_hash c = None \<and> clm_state c = CExecuting \<and> ttl \<le> now - clm_acquired_at c
          then (True, s\<lparr>claimed := hm_insert gi (c\<lparr>clm_acquired_at := now\<rparr>) (claimed s)\<rparr>)
          else (False, s)
      | None \<Rightarrow> (False, s))"

definition unclaim :: "u256 \<Rightarrow> mem_store \<Rightarrow> mem_store" where
  "unclaim gi s = s\<lparr>claimed := hm_remove gi (claimed s)\<rparr>"

definition is_claimed :: "u256 \<Rightarrow> mem_store \<Rightarrow> bool" where
  "is_claimed gi s = hm_contains (claimed s) gi"

section \<open>The claim watcher\<close>

definition is_claim_note_processed :: "string \<Rightarrow> mem_store \<Rightarrow> bool" where
  "is_claim_note_processed note_id s = hm_contains (claim_watcher_processed s) note_id"

definition mark_claim_note_processed :: "string \<Rightarrow> b256 \<Rightarrow> mem_store \<Rightarrow> mem_store" where
  "mark_claim_note_processed note_id gi s =
     s\<lparr>claim_watcher_processed := hm_insert note_id gi (claim_watcher_processed s)\<rparr>"

definition claim_log_for :: "externals \<Rightarrow> b256 \<Rightarrow> synthetic_log \<Rightarrow> bool" where
  "claim_log_for E gi l =
     (let prefix = ''0x'' @ ext_hex_encode E (be_bytes 32 gi)
      in first_topic l = Some CLAIM_EVENT_TOPIC \<and> length prefix \<le> length (log_data l) \<and>
         eq_ignore_ascii_case (take (length prefix) (log_data l)) prefix)"

definition has_claim_event_for_global_index :: "externals \<Rightarrow> b256 \<Rightarrow> mem_store \<Rightarrow> bool" where
  "has_claim_event_for_global_index E gi s =
     (if list_ex (\<lambda>(_, g). g = gi) (claim_watcher_processed s) then True
      else list_ex (\<lambda>(_, ls). list_ex (claim_log_for E gi) ls) (logs_by_block s))"

definition land_claim :: "u256 \<Rightarrow> time \<Rightarrow> (u256, claim_record) hashmap \<Rightarrow> (u256, claim_record) hashmap" where
  "land_claim gi now m =
     (case hm_get m gi of
        Some c \<Rightarrow> hm_insert gi
          (c\<lparr>clm_state := CLanded, clm_lease_expires_at := None, clm_fence := clm_fence c + 1\<rparr>) m
      | None \<Rightarrow> hm_insert gi
          \<lparr>clm_owner_tx_hash = None, clm_state = CLanded, clm_acquired_at = now,
           clm_lease_expires_at = None, clm_fence = 1\<rparr> m)"

definition confirm_link_of :: "string \<Rightarrow> (string, note_handoff_record) hashmap \<Rightarrow> (string, note_handoff_record) hashmap"
  where
  "confirm_link_of key m =
     (case hm_get m key of None \<Rightarrow> m | Some link \<Rightarrow> hm_insert key (submit_link link) m)"

definition settle_success :: "u64 \<Rightarrow> txn_receipt \<Rightarrow> txn_receipt" where
  "settle_success bn r = r\<lparr>tr_result := Some (Inr ()), tr_block_num := bn\<rparr>"

definition settle_receipt :: "externals \<Rightarrow> string \<Rightarrow> u64 \<Rightarrow> txn_receipt lru \<Rightarrow> txn_receipt lru" where
  "settle_receipt E txh bn m =
     (case ext_parse_hash E txh of None \<Rightarrow> m | Some h \<Rightarrow> lru_modify h (settle_success bn) m)"

definition commit_manual_claim_event_atomic ::
    "externals \<Rightarrow> string \<Rightarrow> string \<Rightarrow> u64 \<Rightarrow> b256 \<Rightarrow> string \<Rightarrow> b256 \<Rightarrow> u32 \<Rightarrow> b160 \<Rightarrow> b160 \<Rightarrow> u64 \<Rightarrow>
       time \<Rightarrow> mem_store \<Rightarrow> mem_store" where
  "commit_manual_claim_event_atomic E note_id bridge_addr block_number block_hash txh global_index
       origin_network origin_address destination_address amount now s =
     (let inserted = \<not> hm_contains (claim_watcher_processed s) note_id;
          s1 = s\<lparr>tx_note_links := confirm_link_of (to_lowercase txh) (tx_note_links s),
                 claimed := land_claim global_index now (claimed s),
                 claim_watcher_processed :=
                   hm_or_insert note_id global_index (claim_watcher_processed s),
                 transactions := settle_receipt E txh block_number (transactions s)\<rparr>
      in if \<not> inserted then s1
         else insert_log
                \<lparr>log_address = bridge_addr,
                 log_topics = [CLAIM_EVENT_TOPIC],
                 log_data = encode_claim_event_data_u64 E global_index origin_network
                   origin_address destination_address amount,
                 log_block_number = block_number,
                 log_block_hash = block_hash,
                 log_transaction_hash = to_lowercase txh,
                 log_transaction_index = 0,
                 log_log_index = 0,
                 log_removed = False\<rparr> s1)"

section \<open>The operations refine the lifecycle\<close>

lemmas claim_step_intros =
  r_into_rtranclp [where r = claim_step, OF claim_acquire]
  r_into_rtranclp [where r = claim_step, OF claim_reclaim]
  r_into_rtranclp [where r = claim_step, OF claim_refresh]
  r_into_rtranclp [where r = claim_step, OF claim_release]
  r_into_rtranclp [where r = claim_step, OF claim_prepare]
  r_into_rtranclp [where r = claim_step, OF claim_land]
  r_into_rtranclp [where r = claim_step, OF claim_land_new]

lemma try_claim_fenced_step:
  "claim_step\<^sup>*\<^sup>* (hm_get (claimed s) g) (hm_get (claimed (snd (try_claim_fenced gi owner lease now s))) g)"
  by (auto simp: try_claim_fenced_def intro: claim_step_intros)

lemma try_reclaim_claim_fenced_step:
  "claim_step\<^sup>*\<^sup>* (hm_get (claimed s) g)
     (hm_get (claimed (snd (try_reclaim_claim_fenced gi owner lease now s))) g)"
  by (auto simp: try_reclaim_claim_fenced_def intro: claim_step_intros split: option.split)

lemma prepare_claim_submission_fenced_step:
  "claim_step\<^sup>*\<^sup>* (hm_get (claimed s) g)
     (hm_get (claimed (snd (prepare_claim_submission_fenced E gi owner f h c i x now s))) g)"
  by (auto simp: prepare_claim_submission_fenced_def Let_def intro: claim_step_intros split: option.split)

lemma unclaim_fenced_step:
  "claim_step\<^sup>*\<^sup>* (hm_get (claimed s) g) (hm_get (claimed (snd (unclaim_fenced gi owner f s))) g)"
  by (auto simp: unclaim_fenced_def Let_def intro: claim_step_intros split: option.split)

lemma try_claim_step:
  "claim_step\<^sup>*\<^sup>* (hm_get (claimed s) g) (hm_get (claimed (snd (try_claim gi now s))) g)"
  by (auto simp: try_claim_def intro: claim_step_intros)

lemma try_reclaim_expired_step:
  "claim_step\<^sup>*\<^sup>* (hm_get (claimed s) g) (hm_get (claimed (snd (try_reclaim_expired gi ttl now s))) g)"
  by (auto simp: try_reclaim_expired_def intro: claim_step_intros split: option.split)

lemma land_claim_step: "claim_step\<^sup>*\<^sup>* (hm_get m g) (hm_get (land_claim gi now m) g)"
  by (auto simp: land_claim_def intro: claim_step_intros split: option.split)

lemma clear_expired_claim_step:
  "hm_wf (claimed s) \<Longrightarrow>
     claim_step\<^sup>*\<^sup>* (hm_get (claimed s) g) (hm_get (claimed (snd (clear_expired_prepared_note_handoff E t c s))) g)"
  by (cases rule: clear_expired_cases [of E t c s]) (auto intro: release_prepared_claim_step)

lemma hm_get_land_claim_same:
  "\<exists>c. hm_get (land_claim gi now m) gi = Some c \<and> clm_state c = CLanded"
  by (simp add: land_claim_def split: option.split)

lemma commit_manual_claimed [simp]:
  "claimed (commit_manual_claim_event_atomic E n ba bn bh txh gi on oa da am now s) =
     land_claim gi now (claimed s)"
  "tx_note_links (commit_manual_claim_event_atomic E n ba bn bh txh gi on oa da am now s) =
     confirm_link_of (to_lowercase txh) (tx_note_links s)"
  "transactions (commit_manual_claim_event_atomic E n ba bn bh txh gi on oa da am now s) =
     settle_receipt E txh bn (transactions s)"
  "note_tx_links (commit_manual_claim_event_atomic E n ba bn bh txh gi on oa da am now s) = note_tx_links s"
  "claim_watcher_processed (commit_manual_claim_event_atomic E n ba bn bh txh gi on oa da am now s) =
     hm_or_insert n gi (claim_watcher_processed s)"
  by (simp_all add: commit_manual_claim_event_atomic_def Let_def)

section \<open>Runs of the fenced protocol\<close>

datatype claim_op =
    OpTryClaim u256 tx_hash time time
  | OpReclaim u256 tx_hash time time
  | OpPrepare u256 tx_hash u64 tx_hash string string u64 time
  | OpUnclaim u256 tx_hash u64
  | OpConfirm string string
  | OpConfirmByCommitment string
  | OpConfirmPrepared "string list"
  | OpClearExpired string string
  | OpLand string string u64 b256 string b256 u32 b160 b160 u64 time

definition claim_exec :: "externals \<Rightarrow> claim_op \<Rightarrow> mem_store \<Rightarrow> mem_store" where
  "claim_exec E op s =
     (case op of
        OpTryClaim gi owner lease now \<Rightarrow> snd (try_claim_fenced gi owner lease now s)
      | OpReclaim gi owner lease now \<Rightarrow> snd (try_reclaim_claim_fenced gi owner lease now s)
      | OpPrepare gi owner f h c i x now \<Rightarrow> snd (prepare_claim_submission_fenced E gi owner f h c i x now s)
      | OpUnclaim gi owner f \<Rightarrow> snd (unclaim_fenced gi owner f s)
      | OpConfirm t c \<Rightarrow> snd (confirm_note_handoff E t c s)
      | OpConfirmByCommitment c \<Rightarrow> snd (confirm_note_handoff_by_commitment E c s)
      | OpConfirmPrepared ids \<Rightarrow> snd (confirm_prepared_note_handoffs E ids s)
      | OpClearExpired t c \<Rightarrow> snd (clear_expired_prepared_note_handoff E t c s)
      | OpLand n ba bn bh txh gi on oa da am now \<Rightarrow>
          commit_manual_claim_event_atomic E n ba bn bh txh gi on oa da am now s)"

lemma claim_exec_wf: "hm_wf (claimed s) \<Longrightarrow> hm_wf (claimed (claim_exec E op s))"
proof (cases op)
  case (OpClearExpired t c)
  assume "hm_wf (claimed s)"
  with OpClearExpired show ?thesis
    by (cases rule: clear_expired_cases [of E t c s])
      (auto simp: claim_exec_def intro: release_prepared_claim_wf)
qed (use confirms_handoff [of s E] confirms_by_commitment [of s E] confirms_prepared [of s E] in
    \<open>auto simp: claim_exec_def try_claim_fenced_def try_reclaim_claim_fenced_def
      prepare_claim_submission_fenced_def unclaim_fenced_def land_claim_def Let_def confirms_def
      split: option.split\<close>)

lemma claim_exec_step:
  assumes "hm_wf (claimed s)"
  shows "claim_step\<^sup>*\<^sup>* (hm_get (claimed s) g) (hm_get (claimed (claim_exec E op s)) g)"
  using assms confirms_handoff [of s E] confirms_by_commitment [of s E] confirms_prepared [of s E]
  by (cases op)
    (simp_all add: claim_exec_def try_claim_fenced_step try_reclaim_claim_fenced_step
      prepare_claim_submission_fenced_step unclaim_fenced_step land_claim_step
      clear_expired_claim_step confirms_def)

interpretation claims: refining_run "claim_exec E" "\<lambda>s. hm_wf (claimed s)"
    "\<lambda>s. hm_get (claimed s) g" claim_step for E g
  by unfold_locales (auto intro: claim_exec_wf claim_exec_step)

section \<open>Finding a claim event by its global index\<close>

lemma take_hex_prefix:
  "hex_bytewise E \<Longrightarrow>
     take (length (''0x'' @ ext_hex_encode E as)) (''0x'' @ ext_hex_encode E (as @ bs)) =
     ''0x'' @ ext_hex_encode E as"
  by (simp add: hex_bytewise_def)

lemma be_bytes_32_inject: "be_bytes 32 a = be_bytes 32 b \<longleftrightarrow> (a :: b256) = b"
proof
  assume "be_bytes 32 a = be_bytes 32 b"
  then have "(from_be_bytes (be_bytes 32 a) :: b256) = from_be_bytes (be_bytes 32 b)" by simp
  then show "a = b" by (simp add: from_be_bytes_be_bytes)
qed simp

lemma claim_log_for_encoded:
  assumes "hex_ok E" and "hex_bytewise E" and "first_topic l = Some CLAIM_EVENT_TOPIC"
    and "log_data l = encode_claim_event_data_u64 E gi' on oa da am"
  shows "claim_log_for E gi l \<longleftrightarrow> gi = gi'"
proof -
  let ?rest = "replicate 28 0 @ be_bytes 4 on @ replicate 12 0 @ be_bytes 20 oa @ replicate 12 0
                 @ be_bytes 20 da @ be_bytes 32 (from_be_bytes (replicate 24 0 @ be_bytes 8 am) :: b256)"
  have data: "log_data l = ''0x'' @ ext_hex_encode E (be_bytes 32 gi' @ ?rest)"
    by (simp add: assms(4) encode_claim_event_data_u64_def encode_claim_event_data_def claim_event_bytes_def)
  have len: "length (ext_hex_encode E (be_bytes 32 gi)) = length (ext_hex_encode E (be_bytes 32 gi'))"
    using assms(2) by (simp add: hex_bytewise_def)
  have le: "length (''0x'' @ ext_hex_encode E (be_bytes 32 gi)) \<le> length (log_data l)"
    using assms(2) unfolding data by (simp add: hex_bytewise_def)
  have "take (length (''0x'' @ ext_hex_encode E (be_bytes 32 gi))) (log_data l) =
        ''0x'' @ ext_hex_encode E (be_bytes 32 gi')"
    using take_hex_prefix [OF assms(2), of "be_bytes 32 gi'" ?rest] len unfolding data by simp
  then have "claim_log_for E gi l \<longleftrightarrow>
      ''0x'' @ ext_hex_encode E (be_bytes 32 gi') = ''0x'' @ ext_hex_encode E (be_bytes 32 gi)"
    using assms(3) le to_lowercase_0x_hex [OF assms(1)]
    by (simp only: claim_log_for_def Let_def eq_ignore_ascii_case_def simp_thms)
  then show ?thesis using assms(1) by (auto simp: hex_encode_inject be_bytes_32_inject)
qed

lemma has_claim_event_iff:
  "has_claim_event_for_global_index E gi s \<longleftrightarrow>
     (\<exists>n. (n, gi) \<in> set (claim_watcher_processed s)) \<or> (\<exists>l \<in> set (all_logs s). claim_log_for E gi l)"
  by (force simp: has_claim_event_for_global_index_def list_ex_iff all_logs_def)

lemma set_all_logs_insert:
  "set (all_logs (insert_log l s)) = insert (l\<lparr>log_log_index := log_counter s\<rparr>) (set (all_logs s))"
  using mset_all_logs_insert [of l s] by (metis set_mset_add_mset_insert set_mset_mset)

lemma claim_log_for_index [simp]: "claim_log_for E gi (l\<lparr>log_log_index := i\<rparr>) = claim_log_for E gi l"
  by (simp add: claim_log_for_def first_topic_def)

section \<open>Properties\<close>

definition demo_claim_store :: mem_store where
  "demo_claim_store = snd (try_claim_fenced 77 9 10 0 new_store)"

lemma demo_claim_store_simps [simp]:
  "claimed demo_claim_store = [(77, \<lparr>clm_owner_tx_hash = Some 9, clm_state = CExecuting,
     clm_acquired_at = 0, clm_lease_expires_at = Some 10, clm_fence = 1\<rparr>)]"
  "tx_note_links demo_claim_store = []"
  "hm_wf (claimed demo_claim_store)"
  by (simp_all add: demo_claim_store_def try_claim_fenced_def hm_insert_def hm_wf_def
      hm_keys_def)



text \<open>
  A submitted claim is never taken back: once the claim of a global index is submitted or
  landed, it is still submitted or landed after every further run of the fenced protocol (and a
  landed one is still landed), so no operation releases its lock and no other transaction can
  acquire it.
\<close>

theorem submitted_claim_is_permanent:
  assumes "hm_wf (claimed s)" and "hm_get (claimed s) g = Some c"
    and "clm_state c = CSubmitted \<or> clm_state c = CLanded"
  shows "\<exists>c'. hm_get (claimed (fold (claim_exec E) ops s)) g = Some c' \<and>
           (clm_state c' = CLanded \<or> (clm_state c = CSubmitted \<and> clm_state c' = CSubmitted)) \<and>
           fst (try_claim_fenced g owner lease now (fold (claim_exec E) ops s)) = None \<and>
           fst (try_reclaim_claim_fenced g owner lease now (fold (claim_exec E) ops s)) = None"
proof -
  have step: "claim_step\<^sup>*\<^sup>* (Some c) (hm_get (claimed (fold (claim_exec E) ops s)) g)"
    using claims.run_refines [OF assms(1), of g E ops] assms(2) by simp
  obtain c' where c': "hm_get (claimed (fold (claim_exec E) ops s)) g = Some c'"
      "clm_state c' = CSubmitted \<or> clm_state c' = CLanded"
    using claim_step_submitted [OF step assms(3)] by blast
  moreover have "clm_state c = CLanded \<Longrightarrow> clm_state c' = CLanded"
    using claim_step_landed [OF step] c' by auto
  ultimately show ?thesis
    using assms(3) by (auto simp: try_claim_fenced_def try_reclaim_claim_fenced_def)
qed

theorem submitted_claim_is_permanent_witness:
  "\<exists>c'. hm_get (claimed (fold (claim_exec demo_ext) [OpUnclaim 77 9 1, OpReclaim 77 8 1 99]
      (new_store\<lparr>claimed := [(77, \<lparr>clm_owner_tx_hash = Some 9, clm_state = CSubmitted,
          clm_acquired_at = 0, clm_lease_expires_at = None, clm_fence = 1\<rparr>)]\<rparr>))) 77 = Some c' \<and>
      (clm_state c' = CLanded \<or> clm_state c' = CSubmitted)"
  using submitted_claim_is_permanent [where E = demo_ext and g = 77 and
      ops = "[OpUnclaim 77 9 1, OpReclaim 77 8 1 99]" and
      s = "new_store\<lparr>claimed := [(77, \<lparr>clm_owner_tx_hash = Some 9, clm_state = CSubmitted,
          clm_acquired_at = 0, clm_lease_expires_at = None, clm_fence = 1\<rparr>)]\<rparr>"]
  by (fastforce simp: hm_wf_def hm_keys_def hm_get_def)

text \<open>
  Fencing works: when a reclaim has taken a claim over, the token of the previous holder is
  dead. Its preparation is refused and its release is refused, both without any effect, for
  whatever note and at whatever time; a reclaim only ever succeeds on a claim that is still
  executing, and from another owner only after its lease ran out.
\<close>

theorem reclaim_fences_out_previous_holder:
  assumes "try_reclaim_claim_fenced gi owner' lease now s = (Some f', s')"
  shows "\<exists>c. hm_get (claimed s) gi = Some c \<and> clm_state c = CExecuting \<and> f' = clm_fence c + 1 \<and>
           (clm_owner_tx_hash c = Some owner' \<or> claim_expired lease now c) \<and>
           (\<forall>owner h cm i x t.
              fst (prepare_claim_submission_fenced E gi owner (clm_fence c) h cm i x t s') \<noteq> Inr True \<and>
              snd (prepare_claim_submission_fenced E gi owner (clm_fence c) h cm i x t s') = s' \<and>
              unclaim_fenced gi owner (clm_fence c) s' = (False, s'))"
proof -
  obtain c where c: "hm_get (claimed s) gi = Some c" "clm_state c = CExecuting" "f' = clm_fence c + 1"
      "clm_owner_tx_hash c = Some owner' \<or> claim_expired lease now c"
      "s' = s\<lparr>claimed := hm_insert gi (c\<lparr>clm_owner_tx_hash := Some owner', clm_acquired_at := now,
           clm_lease_expires_at := Some (now + lease), clm_fence := clm_fence c + 1\<rparr>) (claimed s)\<rparr>"
    using assms by (auto simp: try_reclaim_claim_fenced_def split: option.splits if_splits)
  then show ?thesis
    by (auto simp: prepare_claim_submission_fenced_def unclaim_fenced_def Let_def split: option.splits)
qed

theorem reclaim_fences_out_previous_holder_witness:
  "try_reclaim_claim_fenced 77 8 10 20 demo_claim_store \<noteq> (None, demo_claim_store) \<and>
   unclaim_fenced 77 9 1 (snd (try_reclaim_claim_fenced 77 8 10 20 demo_claim_store)) =
     (False, snd (try_reclaim_claim_fenced 77 8 10 20 demo_claim_store))"
proof -
  obtain s' where r: "try_reclaim_claim_fenced 77 8 10 20 demo_claim_store = (Some 2, s')"
    by (simp add: try_reclaim_claim_fenced_def hm_get_def claim_expired_def)
  show ?thesis
    using reclaim_fences_out_previous_holder [OF r, where E = demo_ext] by (auto simp: r hm_get_def)
qed

text \<open>
  C10. Preparing a submission is the single hand-over of a claim: it succeeds only for the owner
  with the current fence, on an executing claim, before the lease runs out, and for a
  transaction that has no handoff yet; it then writes the exact link and moves the claim in the
  same step. Afterwards nobody can acquire, reclaim, release or prepare that claim.
\<close>

theorem prepare_claim_is_exclusive:
  assumes "prepare_claim_submission_fenced E gi owner f h cm i x now s = (Inr True, s')"
  shows "(\<exists>c d. hm_get (claimed s) gi = Some c \<and> clm_owner_tx_hash c = Some owner \<and> clm_fence c = f \<and>
            clm_state c = CExecuting \<and> clm_lease_expires_at c = Some d \<and> now < d) \<and>
         hm_get (tx_note_links s) (ext_fmt_hash E h) = None \<and>
         hm_get (tx_note_links s') (ext_fmt_hash E h) =
           Some \<lparr>nh_note_commitment = cm, nh_note_id = Some i, nh_state = HPrepared,
                 nh_expiration_block = Some x\<rparr> \<and>
         (\<forall>owner' f' h' cm' i' x' lease t.
            fst (try_claim_fenced gi owner' lease t s') = None \<and>
            fst (try_reclaim_claim_fenced gi owner' lease t s') = None \<and>
            unclaim_fenced gi owner' f' s' = (False, s') \<and>
            fst (prepare_claim_submission_fenced E gi owner' f' h' cm' i' x' t s') \<noteq> Inr True)"
proof -
  obtain c where "hm_get (tx_note_links s) (ext_fmt_hash E h) = None" "hm_get (claimed s) gi = Some c"
      "clm_owner_tx_hash c = Some owner" "clm_fence c = f" "clm_state c = CExecuting"
      "\<exists>d. clm_lease_expires_at c = Some d \<and> now < d"
      "s' = s\<lparr>tx_note_links := hm_insert (ext_fmt_hash E h)
                \<lparr>nh_note_commitment = cm, nh_note_id = Some i, nh_state = HPrepared,
                 nh_expiration_block = Some x\<rparr> (tx_note_links s),
              claimed := hm_insert gi (c\<lparr>clm_state := CPrepared, clm_lease_expires_at := None\<rparr>) (claimed s),
              note_tx_links := hm_or_insert cm (ext_fmt_hash E h) (note_tx_links s)\<rparr>"
    using assms
    by (auto simp: prepare_claim_submission_fenced_def Let_def not_le split: option.splits if_splits)
  then show ?thesis
    by (auto simp: try_claim_fenced_def try_reclaim_claim_fenced_def unclaim_fenced_def
        prepare_claim_submission_fenced_def Let_def split: option.splits)
qed

theorem prepare_claim_is_exclusive_witness:
  "fst (prepare_claim_submission_fenced demo_ext 77 9 1 9 ''c'' ''n'' 5 3 demo_claim_store) = Inr True \<and>
   fst (try_reclaim_claim_fenced 77 8 1 999
     (snd (prepare_claim_submission_fenced demo_ext 77 9 1 9 ''c'' ''n'' 5 3 demo_claim_store))) = None"
proof -
  obtain s' where r: "prepare_claim_submission_fenced demo_ext 77 9 1 9 ''c'' ''n'' 5 3 demo_claim_store
      = (Inr True, s')"
    by (simp add: prepare_claim_submission_fenced_def Let_def hm_get_def)
  show ?thesis using prepare_claim_is_exclusive [OF r] by (simp add: r)
qed

text \<open>
  Landing a claim is complete and exact. After the watcher has committed the event of a fresh
  claim note, the claim of that global index is landed, its event is found, the linked receipt (if
  any) is successful at that block, and the lookup of every other global index answers as
  before: the prefix comparison on the event data never mistakes one index for another.
\<close>

theorem landed_claim_is_found:
  assumes "hex_ok E" and "hex_bytewise E" and "\<not> is_claim_note_processed n s"
    and "s' = commit_manual_claim_event_atomic E n ba bn bh txh gi on oa da am now s"
  shows "(\<exists>c. hm_get (claimed s') gi = Some c \<and> clm_state c = CLanded) \<and>
         (\<forall>g. has_claim_event_for_global_index E g s' \<longleftrightarrow>
              g = gi \<or> has_claim_event_for_global_index E g s) \<and>
         (\<forall>h r. ext_parse_hash E txh = Some h \<longrightarrow> hm_get (transactions s) h = Some r \<longrightarrow>
            txn_receipt_get h s' = Some (Inr (), bn))"
proof -
  let ?l = "\<lparr>log_address = ba, log_topics = [CLAIM_EVENT_TOPIC],
       log_data = encode_claim_event_data_u64 E gi on oa da am, log_block_number = bn,
       log_block_hash = bh, log_transaction_hash = to_lowercase txh, log_transaction_index = 0,
       log_log_index = 0, log_removed = False\<rparr>"
  have logs: "set (all_logs s') = insert (?l\<lparr>log_log_index := log_counter s\<rparr>) (set (all_logs s))"
    using assms(3) unfolding assms(4) commit_manual_claim_event_atomic_def Let_def is_claim_note_processed_def
    by (simp add: set_all_logs_insert del: synthetic_log.update_convs) (simp add: all_logs_def)
  have "claim_log_for E g ?l \<longleftrightarrow> g = gi" for g
    by (rule claim_log_for_encoded [OF assms(1,2)]) (simp_all add: first_topic_def)
  then have cl: "claim_log_for E g (?l\<lparr>log_log_index := log_counter s\<rparr>) \<longleftrightarrow> g = gi" for g
    by (simp only: claim_log_for_index)
  have w: "(\<exists>m. (m, g) \<in> set (claim_watcher_processed s')) \<longleftrightarrow>
           g = gi \<or> (\<exists>m. (m, g) \<in> set (claim_watcher_processed s))" for g
    using assms(3) unfolding assms(4) is_claim_note_processed_def
    by (auto simp: hm_or_insert_def set_hm_insert_fresh)
  have "has_claim_event_for_global_index E g s' \<longleftrightarrow> g = gi \<or> has_claim_event_for_global_index E g s" for g
    unfolding has_claim_event_iff logs w using cl by auto
  moreover have "\<exists>c. hm_get (claimed s') gi = Some c \<and> clm_state c = CLanded"
    unfolding assms(4) by (simp add: hm_get_land_claim_same)
  ultimately show ?thesis
    unfolding assms(4) by (auto simp: txn_receipt_get_row settle_receipt_def settle_success_def)
qed

theorem landed_claim_is_found_witness:
  "has_claim_event_for_global_index demo_ext 5
     (commit_manual_claim_event_atomic demo_ext ''n'' ''0xab'' 3 0 ''tx'' 5 0 1 2 7 0 new_store) \<and>
   \<not> has_claim_event_for_global_index demo_ext 6
     (commit_manual_claim_event_atomic demo_ext ''n'' ''0xab'' 3 0 ''tx'' 5 0 1 2 7 0 new_store)"
proof -
  have "\<not> is_claim_note_processed ''n'' new_store" and "\<not> has_claim_event_for_global_index demo_ext 6 new_store"
    by (simp_all add: is_claim_note_processed_def has_claim_event_for_global_index_def)
  then show ?thesis
    using landed_claim_is_found [OF demo_hex demo_hex_bytewise _ refl, where n = "''n''" and s = new_store and gi = 5]
    by simp
qed

end
