(* ===== verification/Store_Nonces.thy ===== *)
theory Store_Nonces
  imports Store_Claims
begin

text \<open>
  Nonces and admission leases (\<^verbatim>\<open>src/src/store/memory.rs\<close>): the per-signer nonce with its
  compare-and-swap, the fenced reservation of a (signer, nonce) slot that decides which of several
  concurrent submissions may execute, and the atomic write of a reverted receipt together with the
  nonce. An address is compared in lower case throughout.
\<close>

section \<open>Nonces\<close>

definition nonce_get :: "string \<Rightarrow> mem_store \<Rightarrow> u64" where
  "nonce_get addr s = (case hm_get (nonces s) (to_lowercase addr) of None \<Rightarrow> 0 | Some n \<Rightarrow> n)"

definition nonce_increment :: "string \<Rightarrow> mem_store \<Rightarrow> u64 \<times> mem_store" where
  "nonce_increment addr s =
     (let prev = nonce_get addr s
      in (prev, s\<lparr>nonces := hm_insert (to_lowercase addr) (prev + 1) (nonces s)\<rparr>))"

definition nonce_advance_cas :: "string \<Rightarrow> u64 \<Rightarrow> mem_store \<Rightarrow> bool \<times> mem_store" where
  "nonce_advance_cas addr expected s =
     (let key = to_lowercase addr;
          m = hm_or_insert key 0 (nonces s)
      in if hm_get m key = Some expected
         then (True, s\<lparr>nonces := hm_insert key (expected + 1) m\<rparr>)
         else (False, s\<lparr>nonces := m\<rparr>))"

section \<open>Reservations\<close>

definition reserve_nonce ::
    "string \<Rightarrow> u64 \<Rightarrow> tx_hash \<Rightarrow> time \<Rightarrow> time \<Rightarrow> mem_store \<Rightarrow> nonce_reservation \<times> mem_store" where
  "reserve_nonce addr nonce h lease now s =
     (let key = (to_lowercase addr, nonce)
      in case hm_get (nonce_reservations s) key of
           None \<Rightarrow>
             (Won 1, s\<lparr>nonce_reservations := hm_insert key
                \<lparr>rsv_tx_hash = h, rsv_state = RExecuting, rsv_lease_expires_at = now + lease,
                 rsv_fence = 1\<rparr> (nonce_reservations s)\<rparr>)
         | Some r \<Rightarrow>
             (let takeover = (rsv_tx_hash r = h \<and>
                    (rsv_state r = ReleasedFailure \<or> rsv_state r = ReleasedSuccess \<or>
                     rsv_lease_expires_at r \<le> now));
                  abandoned_state = ((rsv_state r = RExecuting \<and> rsv_lease_expires_at r \<le> now) \<or>
                    rsv_state r = ReleasedFailure);
                  abandoned = (rsv_tx_hash r \<noteq> h \<and> abandoned_state \<and>
                    \<not> hm_contains (transactions s) (rsv_tx_hash r))
              in if takeover \<or> abandoned
                 then (Won (rsv_fence r + 1), s\<lparr>nonce_reservations := hm_insert key
                        \<lparr>rsv_tx_hash = h, rsv_state = RExecuting, rsv_lease_expires_at = now + lease,
                         rsv_fence = rsv_fence r + 1\<rparr> (nonce_reservations s)\<rparr>)
                 else if rsv_tx_hash r = h then (OwnedBySame, s)
                 else (HeldByOther (rsv_tx_hash r), s)))"

definition renew_reservation ::
    "string \<Rightarrow> u64 \<Rightarrow> tx_hash \<Rightarrow> time \<Rightarrow> time \<Rightarrow> mem_store \<Rightarrow> bool \<times> mem_store" where
  "renew_reservation addr nonce h lease now s =
     (let key = (to_lowercase addr, nonce)
      in case hm_get (nonce_reservations s) key of
           Some r \<Rightarrow>
             if rsv_tx_hash r = h \<and> rsv_state r \<noteq> ReleasedFailure
             then (True, s\<lparr>nonce_reservations :=
                     hm_insert key (r\<lparr>rsv_lease_expires_at := now + lease\<rparr>) (nonce_reservations s)\<rparr>)
             else (False, s)
         | None \<Rightarrow> (False, s))"

definition release_reservation ::
    "string \<Rightarrow> u64 \<Rightarrow> tx_hash \<Rightarrow> u64 \<Rightarrow> bool \<Rightarrow> time \<Rightarrow> mem_store \<Rightarrow> mem_store" where
  "release_reservation addr nonce h fence success now s =
     (let key = (to_lowercase addr, nonce)
      in case hm_get (nonce_reservations s) key of
           Some r \<Rightarrow>
             if rsv_tx_hash r = h \<and> rsv_fence r = fence \<and> rsv_state r = RExecuting
             then s\<lparr>nonce_reservations := hm_insert key
                    (if success then r\<lparr>rsv_state := ReleasedSuccess\<rparr>
                     else r\<lparr>rsv_lease_expires_at := now, rsv_state := ReleasedFailure\<rparr>)
                    (nonce_reservations s)\<rparr>
             else s
         | None \<Rightarrow> s)"

section \<open>Reverted receipts\<close>

definition may_write_reverted :: "externals \<Rightarrow> tx_hash \<Rightarrow> mem_store \<Rightarrow> bool" where
  "may_write_reverted E h s =
     (case map_option tr_result (hm_get (transactions s) h) of
        None \<Rightarrow> True
      | Some None \<Rightarrow> \<not> hm_contains (tx_note_links s) (ext_fmt_hash E h)
      | Some (Some (Inr _)) \<Rightarrow> False
      | Some (Some (Inl _)) \<Rightarrow> True)"

definition commit_reverted_receipt_and_advance_nonce ::
    "externals \<Rightarrow> tx_hash \<Rightarrow> txn_entry \<Rightarrow> string \<Rightarrow> u64 \<Rightarrow> string \<Rightarrow> u64 \<Rightarrow> mem_store \<Rightarrow> bool \<times> mem_store"
  where
  "commit_reverted_receipt_and_advance_nonce E h entry reason block_num addr expected_nonce s =
     (let s1 = (if may_write_reverted E h s
                then s\<lparr>transactions := lru_put E TRANSACTIONS_CAPACITY h
                       ((receipt_of_entry entry)\<lparr>tr_result := Some (Inl reason),
                          tr_block_num := block_num, tr_logs := []\<rparr>) (transactions s)\<rparr>
                else s);
          key = to_lowercase addr;
          m = hm_or_insert key 0 (nonces s1)
      in if hm_get m key = Some expected_nonce
         then (True, s1\<lparr>nonces := hm_insert key (expected_nonce + 1) m\<rparr>)
         else (False, s1\<lparr>nonces := m\<rparr>))"

section \<open>Lemmas\<close>

lemma nonce_get_cas:
  "nonce_get a (snd (nonce_advance_cas addr expected s)) =
     (if to_lowercase a = to_lowercase addr \<and> nonce_get addr s = expected then expected + 1
      else nonce_get a s)"
  "fst (nonce_advance_cas addr expected s) \<longleftrightarrow> nonce_get addr s = expected"
  by (auto simp: nonce_get_def nonce_advance_cas_def Let_def split: option.splits)

lemma cas_reverted:
  "snd (commit_reverted_receipt_and_advance_nonce E h entry reason bn addr n s) =
     (let s1 = (if may_write_reverted E h s
                then s\<lparr>transactions := lru_put E TRANSACTIONS_CAPACITY h
                       ((receipt_of_entry entry)\<lparr>tr_result := Some (Inl reason),
                          tr_block_num := bn, tr_logs := []\<rparr>) (transactions s)\<rparr>
                else s)
      in snd (nonce_advance_cas addr n s1))"
  "fst (commit_reverted_receipt_and_advance_nonce E h entry reason bn addr n s) =
     (nonce_get addr s = n)"
  by (auto simp: commit_reverted_receipt_and_advance_nonce_def nonce_advance_cas_def nonce_get_def Let_def
      split: option.splits)

section \<open>Runs of compare-and-swaps\<close>

text \<open>One compare-and-swap, seen by one signer: the nonce it consumed, if it was this signer's.\<close>

definition cas_step :: "string \<Rightarrow> string \<times> u64 \<Rightarrow> mem_store \<Rightarrow> u64 option \<times> mem_store" where
  "cas_step addr p s =
     (let (ok, s') = nonce_advance_cas (fst p) (snd p) s
      in (if ok \<and> to_lowercase (fst p) = to_lowercase addr then Some (snd p) else None, s'))"

interpretation cas: dispenser "cas_step addr" "\<lambda>s. nonce_get addr s - 1" for addr
proof
  show "w = nonce_get addr s - 1 + 1 \<and> nonce_get addr (snd (cas_step addr op s)) - 1 = nonce_get addr s - 1 + 1"
    if "fst (cas_step addr op s) = Some w" for op s w
  proof -
    have "to_lowercase (fst op) = to_lowercase addr" "nonce_get (fst op) s = w" "snd op = w"
      using that by (auto simp: cas_step_def case_prod_unfold Let_def nonce_get_cas split: if_splits)
    then have "nonce_get addr s = w" and "nonce_get addr (snd (cas_step addr op s)) = w + 1"
      by (auto simp: cas_step_def case_prod_unfold Let_def nonce_get_cas) (simp add: nonce_get_def)
    then show ?thesis by simp
  qed
  show "nonce_get addr (snd (cas_step addr op s)) - 1 = nonce_get addr s - 1"
    if "fst (cas_step addr op s) = None" for op s
    using that by (auto simp: cas_step_def case_prod_unfold Let_def nonce_get_cas split: if_splits)
qed

section \<open>Runs of reservations\<close>

datatype rsv_op =
    Reserve string u64 tx_hash time time
  | Renew string u64 tx_hash time time
  | Release string u64 tx_hash u64 bool time

text \<open>One operation, seen by one slot: the fence it granted on this slot, if any.\<close>

definition rsv_step :: "string \<times> u64 \<Rightarrow> rsv_op \<Rightarrow> mem_store \<Rightarrow> u64 option \<times> mem_store" where
  "rsv_step slot op s =
     (case op of
        Reserve addr nonce h lease now \<Rightarrow>
          (let (res, s') = reserve_nonce addr nonce h lease now s
           in (case res of Won f \<Rightarrow> if (to_lowercase addr, nonce) = slot then Some f else None | _ \<Rightarrow> None, s'))
      | Renew addr nonce h lease now \<Rightarrow> (None, snd (renew_reservation addr nonce h lease now s))
      | Release addr nonce h f ok now \<Rightarrow> (None, release_reservation addr nonce h f ok now s))"

definition slot_fence :: "string \<times> u64 \<Rightarrow> mem_store \<Rightarrow> u64" where
  "slot_fence slot s = (case hm_get (nonce_reservations s) slot of None \<Rightarrow> 0 | Some r \<Rightarrow> rsv_fence r)"

interpretation fences: dispenser "rsv_step slot" "slot_fence slot" for slot
proof
  show "w = slot_fence slot s + 1 \<and> slot_fence slot (snd (rsv_step slot op s)) = slot_fence slot s + 1"
    if "fst (rsv_step slot op s) = Some w" for op s w
    using that
    by (cases op) (auto simp: rsv_step_def slot_fence_def reserve_nonce_def Let_def
        split: option.splits if_splits prod.splits)
  show "slot_fence slot (snd (rsv_step slot op s)) = slot_fence slot s"
    if "fst (rsv_step slot op s) = None" for op s
    using that
    by (cases op) (auto simp: rsv_step_def slot_fence_def reserve_nonce_def renew_reservation_def
        release_reservation_def Let_def split: option.splits if_splits prod.splits)
qed

section \<open>Properties\<close>

text \<open>
  C27. Every nonce of a signer is consumed exactly once and in order. Over any run of
  compare-and-swap attempts, by any signers in any letter case and with any expected values, the
  attempts of one signer that succeed consume consecutive nonces from its current one on, and no
  value twice (short of a run that consumes the whole 64-bit range).
\<close>

theorem nonces_consumed_consecutively:
  "dispensed (cas_step addr) ps s =
     map (\<lambda>i. nonce_get addr s + of_nat i) [0..<length (dispensed (cas_step addr) ps s)] \<and>
   (distinct (dispensed (cas_step addr) ps s) \<or> 2 ^ 64 < length (dispensed (cas_step addr) ps s))"
proof -
  have "dispensed (cas_step addr) ps s =
      map (\<lambda>i. nonce_get addr s + of_nat i) [0..<length (dispensed (cas_step addr) ps s)]"
    using cas.consecutive [of addr ps s] by simp
  moreover have "distinct (dispensed (cas_step addr) ps s) \<or> 2 ^ 64 < length (dispensed (cas_step addr) ps s)"
    using cas.distinct_dispensed [of addr ps s] by (auto simp: not_less)
  ultimately show ?thesis by blast
qed

text \<open>
  A fence token of a nonce slot is granted once. Over any run of reservations, renewals and
  releases, by any transactions at any times, the fences won on one slot are consecutive from the
  slot's current fence on; so two executors of a slot never hold the same token and a later winner
  always holds the larger one (short of a run of more than the 64-bit range).
\<close>

theorem reservation_fences_granted_once:
  "dispensed (rsv_step slot) ops s =
     map (\<lambda>i. slot_fence slot s + 1 + of_nat i) [0..<length (dispensed (rsv_step slot) ops s)] \<and>
   (distinct (dispensed (rsv_step slot) ops s) \<or> 2 ^ 64 < length (dispensed (rsv_step slot) ops s))"
  using fences.consecutive [of slot ops s] fences.distinct_dispensed [of slot ops s]
  by (auto simp: not_less)

text \<open>
  A live lease excludes everybody else. While the reservation of a slot is executing and its
  lease has not run out, a reservation by any other transaction is refused and names the holder, one
  by the holder itself reports that it is already running, a release with another fence or by
  another transaction does nothing, and none of these calls changes the store.
\<close>

theorem live_reservation_excludes:
  assumes "hm_get (nonce_reservations s) (to_lowercase addr, n) = Some r"
    and "rsv_state r = RExecuting" and "now < rsv_lease_expires_at r"
  shows "reserve_nonce addr n h lease now s =
           (if h = rsv_tx_hash r then OwnedBySame else HeldByOther (rsv_tx_hash r), s) \<and>
         (h \<noteq> rsv_tx_hash r \<or> f \<noteq> rsv_fence r \<longrightarrow> release_reservation addr n h f ok now s = s)"
  using assms by (auto simp: reserve_nonce_def release_reservation_def Let_def)

theorem live_reservation_excludes_witness:
  "reserve_nonce ''0xAB'' 3 8 10 5 (snd (reserve_nonce ''0xab'' 3 9 10 0 new_store)) =
     (HeldByOther 9, snd (reserve_nonce ''0xab'' 3 9 10 0 new_store))"
proof -
  have lc: "to_lowercase ''0xAB'' = to_lowercase ''0xab''"
    by code_simp
  have "hm_get (nonce_reservations (snd (reserve_nonce ''0xab'' 3 9 10 0 new_store))) (to_lowercase ''0xAB'', 3)
      = Some \<lparr>rsv_tx_hash = 9, rsv_state = RExecuting, rsv_lease_expires_at = 10, rsv_fence = 1\<rparr>"
    unfolding lc by (simp add: reserve_nonce_def Let_def)
  from live_reservation_excludes [OF this, of 5 8 10] show ?thesis by simp
qed

text \<open>
  An admitted transaction keeps its nonce slot. As long as the holder of a slot has a durable
  transaction row, no reservation by a different transaction succeeds, whatever the state of the
  lease; without a row it succeeds exactly when the slot was abandoned (an executing lease that ran
  out, or a released failure), so an abandoned slot does not block its signer.
\<close>

theorem admitted_transaction_keeps_slot:
  assumes "hm_get (nonce_reservations s) (to_lowercase addr, n) = Some r" and "rsv_tx_hash r \<noteq> h"
  shows "(\<exists>f. fst (reserve_nonce addr n h lease now s) = Won f) \<longleftrightarrow>
         \<not> hm_contains (transactions s) (rsv_tx_hash r) \<and>
         (rsv_state r = ReleasedFailure \<or> (rsv_state r = RExecuting \<and> rsv_lease_expires_at r \<le> now))"
  using assms by (auto simp: reserve_nonce_def Let_def)

theorem admitted_transaction_keeps_slot_witness:
  "\<exists>f. fst (reserve_nonce ''a'' 3 8 10 50 (snd (reserve_nonce ''a'' 3 9 10 0 new_store))) = Won f"
proof -
  have "hm_get (nonce_reservations (snd (reserve_nonce ''a'' 3 9 10 0 new_store))) (to_lowercase ''a'', 3)
      = Some \<lparr>rsv_tx_hash = 9, rsv_state = RExecuting, rsv_lease_expires_at = 10, rsv_fence = 1\<rparr>"
    by (simp add: reserve_nonce_def Let_def)
  from admitted_transaction_keeps_slot [OF this, of 8 10 50] show ?thesis
    by (simp add: reserve_nonce_def Let_def)
qed



end
