(* ===== verification/Store_Ger.thy ===== *)
theory Store_Ger
  imports Store_Nonces
begin

text \<open>
  Global exit roots (\<^verbatim>\<open>src/src/store/memory.rs\<close>): which roots were seen, with the exit roots and L1
  origin the evidence scan wrote, which were injected, and the atomic commit that rolls the hash
  chain and emits its event once per transaction.
\<close>

section \<open>Operations\<close>

definition has_seen_ger :: "b256 \<Rightarrow> mem_store \<Rightarrow> bool" where
  "has_seen_ger ger s = hm_contains (seen_gers s) ger"

definition mark_ger_seen :: "b256 \<Rightarrow> ger_entry \<Rightarrow> mem_store \<Rightarrow> bool \<times> mem_store" where
  "mark_ger_seen ger entry s =
     (if hm_contains (seen_gers s) ger then (False, s)
      else (True, s\<lparr>seen_gers := hm_insert ger entry (seen_gers s), latest_ger := Some ger\<rparr>))"

definition get_latest_ger :: "mem_store \<Rightarrow> b256 option" where
  "get_latest_ger s = latest_ger s"

definition get_ger_entry :: "b256 \<Rightarrow> mem_store \<Rightarrow> ger_entry option" where
  "get_ger_entry ger s = hm_get (seen_gers s) ger"

definition set_ger_exit_roots :: "b256 \<Rightarrow> b256 \<Rightarrow> b256 \<Rightarrow> u64 \<Rightarrow> u64 \<Rightarrow> mem_store \<Rightarrow> mem_store" where
  "set_ger_exit_roots ger mainnet_exit_root rollup_exit_root l1_block_number l1_timestamp s =
     (let entry = (case hm_get (seen_gers s) ger of
                     Some e \<Rightarrow> e
                   | None \<Rightarrow> \<lparr>ge_mainnet_exit_root = None, ge_rollup_exit_root = None,
                              ge_block_number = 0, ge_timestamp = 0, ge_evidence_verified = False\<rparr>)
      in s\<lparr>seen_gers := hm_insert ger
            (entry\<lparr>ge_mainnet_exit_root := Some mainnet_exit_root,
                   ge_rollup_exit_root := Some rollup_exit_root,
                   ge_block_number := l1_block_number, ge_timestamp := l1_timestamp,
                   ge_evidence_verified := True\<rparr>) (seen_gers s)\<rparr>)"

definition is_ger_injected :: "b256 \<Rightarrow> mem_store \<Rightarrow> bool" where
  "is_ger_injected ger s = (ger \<in> injected_gers s)"

definition roll_hash_chain :: "externals \<Rightarrow> b256 \<Rightarrow> b256 \<Rightarrow> b256" where
  "roll_hash_chain E chain ger = ext_keccak E (be_bytes 32 chain @ be_bytes 32 ger)"

text \<open>The emission, skipped when the transaction already has a log.\<close>

definition emit_ger_event :: "externals \<Rightarrow> u64 \<Rightarrow> b256 \<Rightarrow> string \<Rightarrow> b256 \<Rightarrow> mem_store \<Rightarrow> mem_store" where
  "emit_ger_event E block_number block_hash txh ger s =
     (if hm_contains (logs_by_tx s) (to_lowercase txh) then s
      else
        let new_hash_chain = roll_hash_chain E (hash_chain_value s) ger
        in insert_log
             \<lparr>log_address = L2_GLOBAL_EXIT_ROOT_ADDRESS,
              log_topics = [UPDATE_HASH_CHAIN_VALUE_TOPIC,
                            ''0x'' @ ext_hex_encode E (be_bytes 32 ger),
                            ''0x'' @ ext_hex_encode E (be_bytes 32 new_hash_chain)],
              log_data = ''0x'',
              log_block_number = block_number,
              log_block_hash = block_hash,
              log_transaction_hash = to_lowercase txh,
              log_transaction_index = 0,
              log_log_index = 0,
              log_removed = False\<rparr>
             (s\<lparr>hash_chain_value := new_hash_chain\<rparr>))"

definition see_ger ::
    "b256 \<Rightarrow> b256 option \<Rightarrow> b256 option \<Rightarrow> u64 \<Rightarrow> u64 \<Rightarrow> mem_store \<Rightarrow> mem_store" where
  "see_ger ger mainnet_exit_root rollup_exit_root block_number timestamp s =
     (if hm_contains (seen_gers s) ger then s
      else s\<lparr>seen_gers := hm_insert ger
               \<lparr>ge_mainnet_exit_root = mainnet_exit_root, ge_rollup_exit_root = rollup_exit_root,
                ge_block_number = block_number, ge_timestamp = timestamp,
                ge_evidence_verified = False\<rparr> (seen_gers s),
             latest_ger := Some ger\<rparr>)"

definition commit_ger_event_atomic ::
    "externals \<Rightarrow> u64 \<Rightarrow> b256 \<Rightarrow> string \<Rightarrow> b256 \<Rightarrow> b256 option \<Rightarrow> b256 option \<Rightarrow> u64 \<Rightarrow> mem_store \<Rightarrow> mem_store"
  where
  "commit_ger_event_atomic E block_number block_hash txh ger mainnet_exit_root rollup_exit_root
       timestamp s =
     (let s1 = s\<lparr>tx_note_links := confirm_link_of (to_lowercase txh) (tx_note_links s)\<rparr>;
          s2 = see_ger ger mainnet_exit_root rollup_exit_root block_number timestamp s1;
          s3 = emit_ger_event E block_number block_hash txh ger s2
      in s3\<lparr>injected_gers := insert ger (injected_gers s3),
            transactions := settle_receipt E txh block_number (transactions s3)\<rparr>)"

section \<open>Lemmas\<close>

lemma see_ger_frame [simp]:
  "logs_by_tx (see_ger g a b n t s) = logs_by_tx s"
  "hash_chain_value (see_ger g a b n t s) = hash_chain_value s"
  "tx_note_links (see_ger g a b n t s) = tx_note_links s"
  "note_tx_links (see_ger g a b n t s) = note_tx_links s"
  "injected_gers (see_ger g a b n t s) = injected_gers s"
  "transactions (see_ger g a b n t s) = transactions s"
  "claimed (see_ger g a b n t s) = claimed s"
  "all_logs (see_ger g a b n t s) = all_logs s"
  "logs_inv (see_ger g a b n t s) = logs_inv s"
  by (simp_all add: see_ger_def all_logs_def logs_inv_def)

lemma emit_ger_frame [simp]:
  "tx_note_links (emit_ger_event E n bh txh g s) = tx_note_links s"
  "note_tx_links (emit_ger_event E n bh txh g s) = note_tx_links s"
  "seen_gers (emit_ger_event E n bh txh g s) = seen_gers s"
  "latest_ger (emit_ger_event E n bh txh g s) = latest_ger s"
  "injected_gers (emit_ger_event E n bh txh g s) = injected_gers s"
  "transactions (emit_ger_event E n bh txh g s) = transactions s"
  "claimed (emit_ger_event E n bh txh g s) = claimed s"
  by (simp_all add: emit_ger_event_def Let_def)

lemma hm_get_logs_by_tx_insert:
  "hm_get (logs_by_tx (insert_log l s)) k \<noteq> None \<longleftrightarrow>
     k = to_lowercase (log_transaction_hash l) \<or> hm_get (logs_by_tx s) k \<noteq> None"
  by (simp add: insert_log_def Let_def)

lemma emit_ger_logged:
  "hm_get (logs_by_tx (emit_ger_event E n bh txh g s)) k \<noteq> None \<longleftrightarrow>
     k = to_lowercase txh \<or> hm_get (logs_by_tx s) k \<noteq> None"
  using hm_get_logs_by_tx_insert by (auto simp: emit_ger_event_def Let_def)

lemma emit_ger_chain:
  "hash_chain_value (emit_ger_event E n bh txh g s) =
     (if hm_get (logs_by_tx s) (to_lowercase txh) = None then roll_hash_chain E (hash_chain_value s) g
      else hash_chain_value s)"
  by (auto simp: emit_ger_event_def Let_def)

lemma commit_ger_frame [simp]:
  "logs_by_tx (commit_ger_event_atomic E n bh txh g a b t s) =
     logs_by_tx (emit_ger_event E n bh txh g
       (see_ger g a b n t (s\<lparr>tx_note_links := confirm_link_of (to_lowercase txh) (tx_note_links s)\<rparr>)))"
  "claimed (commit_ger_event_atomic E n bh txh g a b t s) = claimed s"
  "note_tx_links (commit_ger_event_atomic E n bh txh g a b t s) = note_tx_links s"
  "tx_note_links (commit_ger_event_atomic E n bh txh g a b t s) =
     confirm_link_of (to_lowercase txh) (tx_note_links s)"
  "transactions (commit_ger_event_atomic E n bh txh g a b t s) = settle_receipt E txh n (transactions s)"
  "injected_gers (commit_ger_event_atomic E n bh txh g a b t s) = insert g (injected_gers s)"
  by (simp_all add: commit_ger_event_atomic_def Let_def)

lemma commit_ger_logged:
  "hm_get (logs_by_tx (commit_ger_event_atomic E n bh txh g a b t s)) k \<noteq> None \<longleftrightarrow>
     k = to_lowercase txh \<or> hm_get (logs_by_tx s) k \<noteq> None"
  unfolding commit_ger_frame(1) emit_ger_logged by simp

lemma commit_ger_chain:
  "hash_chain_value (commit_ger_event_atomic E n bh txh g a b t s) =
     (if hm_get (logs_by_tx s) (to_lowercase txh) = None then roll_hash_chain E (hash_chain_value s) g
      else hash_chain_value s)"
  by (simp add: commit_ger_event_atomic_def Let_def emit_ger_chain)

lemma confirm_link_of_idem: "confirm_link_of k (confirm_link_of k m) = confirm_link_of k m"
proof (cases "hm_get m k")
  case None
  then show ?thesis by (simp add: confirm_link_of_def)
next
  case (Some l)
  have "hm_insert k v (hm_insert k v m) = hm_insert k v m" for v
    by (induction m) (simp_all add: hm_insert_def)
  with Some show ?thesis by (simp add: confirm_link_of_def)
qed

lemma lru_modify_idem:
  assumes "\<And>v. f (f v) = f v"
  shows "lru_modify k f (lru_modify k f c) = lru_modify k f c"
proof (cases "hm_get c k")
  case None
  then show ?thesis by (simp add: lru_modify_def)
next
  case (Some v)
  have "hm_remove k ((k, w) # hm_remove k c) = hm_remove k c" for w
    by (simp add: hm_remove_def delete_idem)
  with Some assms show ?thesis by (simp add: lru_modify_def hm_get_Cons)
qed

lemma settle_receipt_idem: "settle_receipt E txh n (settle_receipt E txh n m) = settle_receipt E txh n m"
  by (simp add: settle_receipt_def settle_success_def lru_modify_idem split: option.split)

lemma commit_ger_settled:
  assumes "confirm_link_of (to_lowercase txh) (tx_note_links s) = tx_note_links s"
    and "hm_get (seen_gers s) g \<noteq> None" and "hm_get (logs_by_tx s) (to_lowercase txh) \<noteq> None"
    and "g \<in> injected_gers s" and "settle_receipt E txh n (transactions s) = transactions s"
  shows "commit_ger_event_atomic E n bh txh g a b t s = s"
proof -
  have "see_ger g a b n t s = s" using assms(2) by (auto simp: see_ger_def)
  moreover have "emit_ger_event E n bh txh g s = s" using assms(3) by (auto simp: emit_ger_event_def)
  ultimately show ?thesis
    using assms(1,4,5) by (simp add: commit_ger_event_atomic_def Let_def insert_absorb)
qed

lemma commit_ger_logged_self:
  "hm_get (logs_by_tx (commit_ger_event_atomic E n bh txh g a b t s)) (to_lowercase txh) \<noteq> None"
  by (simp only: commit_ger_logged simp_thms)

lemma commit_ger_seen: "hm_get (seen_gers (commit_ger_event_atomic E n bh txh g a b t s)) g \<noteq> None"
  by (simp add: commit_ger_event_atomic_def Let_def see_ger_def)

section \<open>Runs of commits\<close>

record ger_commit =
  gc_block_number :: u64
  gc_block_hash :: b256
  gc_tx_hash :: string
  gc_ger :: b256
  gc_mainnet :: "b256 option"
  gc_rollup :: "b256 option"
  gc_timestamp :: u64

definition ger_exec :: "externals \<Rightarrow> ger_commit \<Rightarrow> mem_store \<Rightarrow> mem_store" where
  "ger_exec E c s =
     commit_ger_event_atomic E (gc_block_number c) (gc_block_hash c) (gc_tx_hash c) (gc_ger c)
       (gc_mainnet c) (gc_rollup c) (gc_timestamp c) s"

text \<open>The roots of a run whose transaction had no log yet, each transaction counted once.\<close>

fun fresh_gers :: "(string \<Rightarrow> bool) \<Rightarrow> ger_commit list \<Rightarrow> b256 list" where
  "fresh_gers logged [] = []"
| "fresh_gers logged (c # cs) =
     (let k = to_lowercase (gc_tx_hash c)
      in if logged k then fresh_gers logged cs
         else gc_ger c # fresh_gers (\<lambda>k'. k' = k \<or> logged k') cs)"

lemma ger_run_chain:
  "hash_chain_value (fold (ger_exec E) cs s) =
     foldl (roll_hash_chain E) (hash_chain_value s)
       (fresh_gers (\<lambda>k. hm_get (logs_by_tx s) k \<noteq> None) cs)"
proof (induction cs arbitrary: s)
  case Nil
  then show ?case by simp
next
  case (Cons c cs)
  let ?k = "to_lowercase (gc_tx_hash c)"
  have logged: "(\<lambda>k. hm_get (logs_by_tx (ger_exec E c s)) k \<noteq> None) =
      (\<lambda>k'. k' = ?k \<or> hm_get (logs_by_tx s) k' \<noteq> None)"
    by (rule ext) (simp only: ger_exec_def commit_ger_logged)
  have absorb: "(\<lambda>k'. k' = ?k \<or> hm_get (logs_by_tx s) k' \<noteq> None) = (\<lambda>k. hm_get (logs_by_tx s) k \<noteq> None)"
    if "hm_get (logs_by_tx s) ?k \<noteq> None"
    using that by auto
  have IH: "hash_chain_value (fold (ger_exec E) cs (ger_exec E c s)) =
      foldl (roll_hash_chain E) (hash_chain_value (ger_exec E c s))
        (fresh_gers (\<lambda>k'. k' = ?k \<or> hm_get (logs_by_tx s) k' \<noteq> None) cs)"
    using Cons.IH [of "ger_exec E c s"] unfolding logged .
  have chain: "hash_chain_value (ger_exec E c s) =
      (if hm_get (logs_by_tx s) ?k = None then roll_hash_chain E (hash_chain_value s) (gc_ger c)
       else hash_chain_value s)"
    by (simp add: ger_exec_def commit_ger_chain)
  show ?case
  proof (cases "hm_get (logs_by_tx s) ?k = None")
    case True
    with IH chain show ?thesis by (simp add: Let_def)
  next
    case False
    have "fresh_gers (\<lambda>k'. k' = ?k \<or> hm_get (logs_by_tx s) k' \<noteq> None) cs =
        fresh_gers (\<lambda>k. hm_get (logs_by_tx s) k \<noteq> None) cs"
      unfolding absorb [OF False] by (rule refl)
    with False IH chain show ?thesis by (auto simp: Let_def)
  qed
qed

section \<open>The registry of roots\<close>

definition gers_inv :: "mem_store \<Rightarrow> bool" where
  "gers_inv s =
     (hm_wf (seen_gers s) \<and> (\<forall>g \<in> injected_gers s. hm_contains (seen_gers s) g) \<and>
      (case latest_ger s of None \<Rightarrow> True | Some g \<Rightarrow> hm_contains (seen_gers s) g))"

lemma gers_inv_mark: "gers_inv s \<Longrightarrow> gers_inv (snd (mark_ger_seen g e s))"
  by (auto simp: gers_inv_def mark_ger_seen_def split: option.splits)

lemma gers_inv_roots: "gers_inv s \<Longrightarrow> gers_inv (set_ger_exit_roots g m r n t s)"
  by (auto simp: gers_inv_def set_ger_exit_roots_def Let_def split: option.splits)

lemma commit_ger_registry:
  "seen_gers (commit_ger_event_atomic E n bh txh g a b t s) = seen_gers (see_ger g a b n t s)"
  "latest_ger (commit_ger_event_atomic E n bh txh g a b t s) = latest_ger (see_ger g a b n t s)"
  by (simp_all add: commit_ger_event_atomic_def Let_def see_ger_def)

lemma gers_inv_commit: "gers_inv s \<Longrightarrow> gers_inv (commit_ger_event_atomic E n bh txh g a b t s)"
  by (auto simp: gers_inv_def commit_ger_registry see_ger_def split: option.splits)

interpretation marks: first_write_reported fst snd "\<lambda>(g, e) s. mark_ger_seen g e s" get_ger_entry
  by unfold_locales (auto simp: mark_ger_seen_def get_ger_entry_def split: prod.splits)

section \<open>Properties\<close>

definition demo_ger_commit :: "string \<Rightarrow> b256 \<Rightarrow> ger_commit" where
  "demo_ger_commit txh g =
     \<lparr>gc_block_number = 4, gc_block_hash = 0, gc_tx_hash = txh, gc_ger = g, gc_mainnet = None,
      gc_rollup = None, gc_timestamp = 0\<rparr>"

text \<open>
  A retried commit of a global exit root changes nothing: the second run of the very same
  commit leaves the whole store as the first one left it. The hash chain is not rolled and the
  event is not emitted a second time, although the retry passes every step of the code.
\<close>

theorem commit_ger_idempotent:
  "commit_ger_event_atomic E n bh txh g a b t (commit_ger_event_atomic E n bh txh g a b t s) =
     commit_ger_event_atomic E n bh txh g a b t s"
  by (intro commit_ger_settled commit_ger_seen commit_ger_logged_self)
    (simp_all add: confirm_link_of_idem settle_receipt_idem)

text \<open>
  C30. The hash chain is the fold of the injected roots. Over any run of commits, retries and
  mixed-case repeats included, the chain value is the starting value rolled over exactly the roots
  whose transaction had no event yet, each once, in the order of their first commits.
\<close>

theorem ger_hash_chain_is_fold:
  "hash_chain_value (fold (ger_exec E) cs s) =
     foldl (roll_hash_chain E) (hash_chain_value s)
       (fresh_gers (\<lambda>k. hm_get (logs_by_tx s) k \<noteq> None) cs)"
  by (rule ger_run_chain)

text \<open>
  C33. The root reported as latest depends on whether the L1 evidence or the injection arrives
  first. For a root not seen before: if the injection is committed first, the root becomes the
  latest one, and the evidence keeps it so; if the evidence scan writes it first, the commit of the
  same injection finds it already seen and the latest root stays the old one.
\<close>

theorem latest_ger_depends_on_arrival_order:
  assumes "\<not> has_seen_ger g s"
  shows "get_latest_ger (set_ger_exit_roots g m r l1n l1t (commit_ger_event_atomic E n bh txh g a b t s)) = Some g \<and>
         get_latest_ger (commit_ger_event_atomic E n bh txh g a b t (set_ger_exit_roots g m r l1n l1t s)) =
           get_latest_ger s"
  using assms
  by (simp add: get_latest_ger_def has_seen_ger_def set_ger_exit_roots_def commit_ger_registry see_ger_def
      Let_def split: option.split)

theorem latest_ger_depends_on_arrival_order_witness:
  "get_latest_ger (commit_ger_event_atomic demo_ext 4 0 ''tx'' 7 None None 0
     (set_ger_exit_roots 7 1 2 3 4 new_store)) = None"
  using latest_ger_depends_on_arrival_order [where g = 7 and s = new_store and E = demo_ext and m = 1 and
      r = 2 and l1n = 3 and l1t = 4 and n = 4 and bh = 0 and txh = "''tx''" and a = None and b = None and t = 0]
  by (simp add: has_seen_ger_def get_latest_ger_def)

end
