(* ===== verification/Applied_State.thy ===== *)
theory Applied_State
  imports Store_Ger
begin

text \<open>
  The authoritative reads of bridge state (\<^verbatim>\<open>src/src/applied_state.rs\<close>): the global index layout, and
  the classification of a handed-over note from the store's projection and from the synchronized
  Miden bridge account. What the Miden client answers is a parameter, the record \<open>miden_view\<close>.
\<close>

unbundle bit_operations_syntax

section \<open>The global index\<close>

datatype coordinate_error = LeadingBits | SourceOverflow | MainnetWithRollup | BadMainnetFlag

definition claim_coordinates :: "u256 \<Rightarrow> coordinate_error + u32 \<times> u32" where
  "claim_coordinates global_index =
     (let bytes = be_bytes 32 global_index
      in if list_ex (\<lambda>b. b \<noteq> 0) (take 20 bytes) then Inl LeadingBits
         else
           let mainnet_flag = (from_be_bytes (take 4 (drop 20 bytes)) :: u32);
               rollup_index = (from_be_bytes (take 4 (drop 24 bytes)) :: u32);
               leaf_index = (from_be_bytes (take 4 (drop 28 bytes)) :: u32)
           in if mainnet_flag = 1 \<and> rollup_index = 0 then Inr (leaf_index, 0)
              else if mainnet_flag = 0
              then (case checked_add rollup_index 1 of
                      None \<Rightarrow> Inl SourceOverflow
                    | Some source \<Rightarrow> Inr (leaf_index, source))
              else if mainnet_flag = 1 then Inl MainnetWithRollup
              else Inl BadMainnetFlag)"

definition global_index_for_claim :: "u32 \<Rightarrow> u32 \<Rightarrow> u256" where
  "global_index_for_claim leaf_index source =
     (if source = 0 then push_bit 64 1 OR ucast leaf_index
      else push_bit 32 (ucast (source - 1)) OR ucast leaf_index)"

lemma be_bytes_slice_word:
  fixes w :: "'a::len word"
  assumes "k + 4 \<le> n"
  shows "(from_be_bytes (take 4 (drop k (be_bytes n w))) :: u32) = ucast (drop_bit (8 * (n - k - 4)) w)"
proof -
  have "take 4 (drop k (be_bytes n w)) = be_bytes 4 (ucast (drop_bit (8 * (n - k - 4)) w) :: u32)"
    using be_bytes_slice [OF assms, of w] be_bytes_ucast [where ?'a = 'a and ?'b = 32 and n = 4] by simp
  then show ?thesis by (simp add: from_be_bytes_be_bytes)
qed

lemma claim_coordinates_fields:
  "claim_coordinates gi =
     (let mainnet_flag = ucast (drop_bit 64 gi) :: u32; rollup_index = ucast (drop_bit 32 gi) :: u32
      in if drop_bit 96 gi \<noteq> 0 then Inl LeadingBits
         else if mainnet_flag = 1 \<and> rollup_index = 0 then Inr (ucast gi, 0)
         else if mainnet_flag = 0
         then (case checked_add rollup_index 1 of None \<Rightarrow> Inl SourceOverflow | Some source \<Rightarrow> Inr (ucast gi, source))
         else if mainnet_flag = 1 then Inl MainnetWithRollup
         else Inl BadMainnetFlag)"
proof -
  have "take 20 (be_bytes 32 gi) = be_bytes 20 (drop_bit 96 gi)"
    using be_bytes_slice [of 0 20 32 gi] by simp
  moreover have "list_ex (\<lambda>b. b \<noteq> 0) (be_bytes 20 (drop_bit 96 gi)) \<longleftrightarrow> drop_bit 96 gi \<noteq> 0"
    by (rule be_bytes_zero_iff) (simp_all add: drop_bit_word_zero)
  ultimately show ?thesis
    using be_bytes_slice_word [of 20 32 gi] be_bytes_slice_word [of 24 32 gi] be_bytes_slice_word [of 28 32 gi]
    by (simp add: claim_coordinates_def Let_def)
qed

text \<open>The three fields of an index, packed and unpacked.\<close>

definition pack_index :: "u32 \<Rightarrow> u32 \<Rightarrow> u32 \<Rightarrow> u256" where
  "pack_index f r l = push_bit 64 (ucast f) OR (push_bit 32 (ucast r) OR ucast l)"

lemma pack_index_fields:
  "drop_bit 96 (pack_index f r l) = 0" "(ucast (drop_bit 64 (pack_index f r l)) :: u32) = f"
  "(ucast (drop_bit 32 (pack_index f r l)) :: u32) = r" "(ucast (pack_index f r l) :: u32) = l"
  unfolding pack_index_def
  by (rule bit_word_eqI;
      auto simp: bit_or_iff bit_push_bit_iff bit_unsigned_iff bit_drop_bit_eq
        dest: bit_imp_le_length)+

lemma global_index_pack:
  "global_index_for_claim l s = (if s = 0 then pack_index 1 0 l else pack_index 0 (s - 1) l)"
  by (simp add: global_index_for_claim_def pack_index_def)

lemma global_index_parts:
  fixes gi :: u256
  assumes "drop_bit 96 gi = 0"
  shows "gi = pack_index (ucast (drop_bit 64 gi)) (ucast (drop_bit 32 gi)) (ucast gi)"
proof (rule bit_word_eqI)
  fix n assume "n < LENGTH(256)"
  have high: "\<not> bit gi n" if "96 \<le> n"
  proof -
    have "bit (drop_bit 96 gi) (n - 96) = bit gi n" using that by (simp add: bit_drop_bit_eq)
    then show ?thesis by (simp add: assms)
  qed
  consider "n < 32" | "32 \<le> n" "n < 64" | "64 \<le> n" "n < 96" | "96 \<le> n" by linarith
  then show "bit gi n = bit (pack_index (ucast (drop_bit 64 gi)) (ucast (drop_bit 32 gi)) (ucast gi)) n"
    using high
    by cases (auto simp: pack_index_def bit_or_iff bit_push_bit_iff bit_unsigned_iff bit_drop_bit_eq)
qed

lemma checked_pred_succ: "s \<noteq> 0 \<Longrightarrow> checked_add (s - 1) 1 = Some (s :: u32)"
  using unat_plus_one [of "s - 1"] unsigned_less [where ?'a = nat and w = s] by (simp add: checked_add_def)

lemma checked_succ_Some:
  fixes w v :: u32
  assumes "checked_add w 1 = Some v"
  shows "v \<noteq> 0 \<and> w = v - 1"
proof -
  have "unat w < 2 ^ 32 - 1" "v = w + 1" using assms by (auto simp: checked_add_Some)
  then have "w \<noteq> - 1" by (auto simp: unsigned_minus_1_eq_mask mask_eq_exp_minus_1)
  then have "unat v \<noteq> 0" using unat_plus_one [of w] by (simp add: \<open>v = w + 1\<close>)
  then show ?thesis using \<open>v = w + 1\<close> by auto
qed

section \<open>Bridge state\<close>

datatype exact_note_outcome = NotApplied | AppliedByExactNote | AppliedElsewhere | Uncertain

datatype note_observation = NotRequested | NoteMissing | Unconsumed | Consumed

record bridge_snapshot =
  snap_ger_applied :: "bool option"
  snap_claim_applied :: "bool option"
  snap_note :: note_observation

text \<open>
  What the Miden client answers: whether a sync succeeds and the bridge account is available, the
  entry of the GER map, whether the nullifier of a leaf and source network is set, and the output
  note of an id, if there is one, with its consumption. An outer \<open>None\<close> is a failed read.
\<close>

record miden_view =
  mv_sync :: bool
  mv_account :: bool
  mv_ger :: "b256 \<Rightarrow> bool option"
  mv_nullifier :: "u32 \<Rightarrow> u32 \<Rightarrow> bool option"
  mv_output_note :: "string \<Rightarrow> bool option option"

datatype applied_error =
    SyncFailed | AccountUnavailable | GerReadFailed | BadGlobalIndex coordinate_error
  | NullifierReadFailed | NoteReadFailed | StateNotRequested

definition claim_is_set :: "miden_view \<Rightarrow> u256 \<Rightarrow> applied_error + bool" where
  "claim_is_set V global_index =
     (case claim_coordinates global_index of
        Inl e \<Rightarrow> Inl (BadGlobalIndex e)
      | Inr (leaf_index, source) \<Rightarrow>
          (case mv_nullifier V leaf_index source of None \<Rightarrow> Inl NullifierReadFailed | Some b \<Rightarrow> Inr b))"

definition read_optional :: "('a \<Rightarrow> applied_error + 'b) \<Rightarrow> 'a option \<Rightarrow> applied_error + 'b option" where
  "read_optional f x =
     (case x of None \<Rightarrow> Inr None | Some a \<Rightarrow> (case f a of Inl e \<Rightarrow> Inl e | Inr b \<Rightarrow> Inr (Some b)))"

definition bridge_snapshot_with_client ::
    "miden_view \<Rightarrow> b256 option \<Rightarrow> u256 option \<Rightarrow> string option \<Rightarrow> applied_error + bridge_snapshot" where
  "bridge_snapshot_with_client V ger claim note_id =
     (if \<not> mv_account V then Inl AccountUnavailable
      else
        case read_optional (\<lambda>root. case mv_ger V root of None \<Rightarrow> Inl GerReadFailed | Some b \<Rightarrow> Inr b) ger of
          Inl e \<Rightarrow> Inl e
        | Inr ger_applied \<Rightarrow>
            (case read_optional (claim_is_set V) claim of
               Inl e \<Rightarrow> Inl e
             | Inr claim_applied \<Rightarrow>
                 (case note_id of
                    None \<Rightarrow>
                      Inr \<lparr>snap_ger_applied = ger_applied, snap_claim_applied = claim_applied, snap_note = NotRequested\<rparr>
                  | Some i \<Rightarrow>
                      (case mv_output_note V i of
                         None \<Rightarrow> Inl NoteReadFailed
                       | Some observed \<Rightarrow>
                           Inr \<lparr>snap_ger_applied = ger_applied, snap_claim_applied = claim_applied,
                                snap_note = (case observed of
                                               None \<Rightarrow> NoteMissing
                                             | Some consumed \<Rightarrow> if consumed then Consumed else Unconsumed)\<rparr>))))"

definition ger_applied :: "miden_view \<Rightarrow> b256 \<Rightarrow> mem_store \<Rightarrow> applied_error + bool" where
  "ger_applied V ger s =
     (if is_ger_injected ger s then Inr True
      else case bridge_snapshot_with_client V (Some ger) None None of
             Inl e \<Rightarrow> Inl e
           | Inr snap \<Rightarrow>
               (case snap_ger_applied snap of None \<Rightarrow> Inl StateNotRequested | Some b \<Rightarrow> Inr b))"

definition claim_applied :: "externals \<Rightarrow> miden_view \<Rightarrow> u256 \<Rightarrow> mem_store \<Rightarrow> applied_error + bool" where
  "claim_applied E V global_index s =
     (if has_claim_event_for_global_index E global_index s then Inr True
      else case bridge_snapshot_with_client V None (Some global_index) None of
             Inl e \<Rightarrow> Inl e
           | Inr snap \<Rightarrow>
               (case snap_claim_applied snap of None \<Rightarrow> Inl StateNotRequested | Some b \<Rightarrow> Inr b))"

definition claim_and_ger_applied ::
    "externals \<Rightarrow> miden_view \<Rightarrow> u256 \<Rightarrow> b256 \<Rightarrow> mem_store \<Rightarrow> applied_error + bool \<times> bool" where
  "claim_and_ger_applied E V global_index ger s =
     (let projected_claim = has_claim_event_for_global_index E global_index s;
          projected_ger = is_ger_injected ger s
      in if projected_claim then Inr (True, projected_ger)
         else case bridge_snapshot_with_client V (if projected_ger then None else Some ger)
                     (if projected_claim then None else Some global_index) None of
                Inl e \<Rightarrow> Inl e
              | Inr snap \<Rightarrow>
                  Inr (projected_claim \<or> snap_claim_applied snap = Some True,
                       projected_ger \<or> snap_ger_applied snap = Some True))"

definition classify_exact_note :: "bool \<Rightarrow> note_observation \<Rightarrow> exact_note_outcome" where
  "classify_exact_note applied note =
     (if \<not> applied then NotApplied
      else case note of
             Consumed \<Rightarrow> AppliedByExactNote
           | Unconsumed \<Rightarrow> AppliedElsewhere
           | NoteMissing \<Rightarrow> Uncertain
           | NotRequested \<Rightarrow> Uncertain)"

definition reconcile_ger_handoff_with_client ::
    "miden_view \<Rightarrow> b256 \<Rightarrow> string \<Rightarrow> mem_store \<Rightarrow> applied_error + exact_note_outcome" where
  "reconcile_ger_handoff_with_client V ger note_id s =
     (if is_ger_injected ger s then Inr AppliedElsewhere
      else case bridge_snapshot_with_client V (Some ger) None (Some note_id) of
             Inl e \<Rightarrow> Inl e
           | Inr snap \<Rightarrow> Inr (classify_exact_note (snap_ger_applied snap = Some True) (snap_note snap)))"

definition reconcile_claim_handoff_with_client ::
    "externals \<Rightarrow> miden_view \<Rightarrow> u256 \<Rightarrow> string \<Rightarrow> mem_store \<Rightarrow> applied_error + exact_note_outcome" where
  "reconcile_claim_handoff_with_client E V global_index note_id s =
     (if has_claim_event_for_global_index E global_index s then Inr AppliedElsewhere
      else case bridge_snapshot_with_client V None (Some global_index) (Some note_id) of
             Inl e \<Rightarrow> Inl e
           | Inr snap \<Rightarrow> Inr (classify_exact_note (snap_claim_applied snap = Some True) (snap_note snap)))"

definition reconcile_ger_recovery ::
    "miden_view \<Rightarrow> b256 \<Rightarrow> string option \<Rightarrow> bool \<Rightarrow> mem_store \<Rightarrow> applied_error + exact_note_outcome" where
  "reconcile_ger_recovery V ger note_id has_handoff s =
     (if note_id = None \<and> has_handoff then Inr Uncertain
      else if \<not> mv_sync V then Inl SyncFailed
      else
        case note_id of
          Some i \<Rightarrow> reconcile_ger_handoff_with_client V ger i s
        | None \<Rightarrow>
            if is_ger_injected ger s then Inr AppliedElsewhere
            else case bridge_snapshot_with_client V (Some ger) None None of
                   Inl e \<Rightarrow> Inl e
                 | Inr snap \<Rightarrow> Inr (if snap_ger_applied snap = Some True then AppliedElsewhere else NotApplied))"

definition reconcile_claim_recovery ::
    "externals \<Rightarrow> miden_view \<Rightarrow> u256 \<Rightarrow> string option \<Rightarrow> bool \<Rightarrow> mem_store \<Rightarrow> applied_error + exact_note_outcome"
  where
  "reconcile_claim_recovery E V global_index note_id has_handoff s =
     (if note_id = None \<and> has_handoff then Inr Uncertain
      else if \<not> mv_sync V then Inl SyncFailed
      else
        case note_id of
          Some i \<Rightarrow> reconcile_claim_handoff_with_client E V global_index i s
        | None \<Rightarrow>
            if has_claim_event_for_global_index E global_index s then Inr AppliedElsewhere
            else case bridge_snapshot_with_client V None (Some global_index) None of
                   Inl e \<Rightarrow> Inl e
                 | Inr snap \<Rightarrow> Inr (if snap_claim_applied snap = Some True then AppliedElsewhere else NotApplied))"

section \<open>Properties\<close>

text \<open>
  The global index layout is a bijection onto its valid indices: packing a leaf index and a
  source network and reading the coordinates gives them back, and every index whose coordinates can
  be read is the packing of exactly those coordinates. So \<^verbatim>\<open>isClaimed\<close> and \<^verbatim>\<open>claimAsset\<close> speak of the same
  nullifier.
\<close>

theorem global_index_round_trip:
  "claim_coordinates (global_index_for_claim leaf source) = Inr (leaf, source) \<and>
   (claim_coordinates gi = Inr (leaf, source) \<longleftrightarrow> gi = global_index_for_claim leaf source)"
proof -
  have fwd: "claim_coordinates (global_index_for_claim leaf source) = Inr (leaf, source)"
    by (simp add: claim_coordinates_fields global_index_pack pack_index_fields checked_pred_succ Let_def)
  have "gi = global_index_for_claim leaf source" if c: "claim_coordinates gi = Inr (leaf, source)"
  proof -
    from c have z: "drop_bit 96 gi = 0" by (auto simp: claim_coordinates_fields Let_def split: if_splits)
    show ?thesis
      using c global_index_parts [OF z]
      by (auto simp: claim_coordinates_fields Let_def global_index_pack dest!: checked_succ_Some
          split: if_splits option.splits)
  qed
  with fwd show ?thesis by blast
qed

text \<open>
  C40. A recovery verdict on a claim is backed by evidence. It says \<^verbatim>\<open>AppliedByExactNote\<close> only if the
  handed-over note itself was consumed and the nullifier of the index is set while no event was
  projected yet, \<^verbatim>\<open>NotApplied\<close> only if no event is projected and the nullifier is not set,
  \<^verbatim>\<open>AppliedElsewhere\<close> only if the effect exists and the own note is absent or not consumed, or the
  event is projected; a handoff without a note id is never settled by it.
\<close>

theorem claim_recovery_is_evidence_based:
  assumes "reconcile_claim_recovery E V gi note_id has_handoff s = Inr v"
  shows "case v of
      AppliedByExactNote \<Rightarrow>
        \<not> has_claim_event_for_global_index E gi s \<and> claim_is_set V gi = Inr True \<and>
        (\<exists>i. note_id = Some i \<and> mv_output_note V i = Some (Some True))
    | NotApplied \<Rightarrow>
        \<not> has_claim_event_for_global_index E gi s \<and> claim_is_set V gi = Inr False \<and>
        (note_id \<noteq> None \<or> \<not> has_handoff)
    | AppliedElsewhere \<Rightarrow>
        (has_claim_event_for_global_index E gi s \<or> claim_is_set V gi = Inr True \<and>
           (case note_id of None \<Rightarrow> \<not> has_handoff | Some i \<Rightarrow> mv_output_note V i = Some (Some False))) \<and>
        (note_id \<noteq> None \<or> \<not> has_handoff)
    | Uncertain \<Rightarrow>
        note_id = None \<and> has_handoff \<or>
        claim_is_set V gi = Inr True \<and> (\<exists>i. note_id = Some i \<and> mv_output_note V i = Some None)"
  using assms
  by (auto simp: reconcile_claim_recovery_def reconcile_claim_handoff_with_client_def
      bridge_snapshot_with_client_def read_optional_def classify_exact_note_def
      split: if_splits option.splits sum.splits)

theorem claim_recovery_is_evidence_based_witness:
  "claim_is_set \<lparr>mv_sync = True, mv_account = True, mv_ger = \<lambda>_. Some False,
       mv_nullifier = \<lambda>l n. Some (l = 3 \<and> n = 1), mv_output_note = \<lambda>_. Some (Some True)\<rparr> 3 = Inr True"
proof -
  let ?V = "\<lparr>mv_sync = True, mv_account = True, mv_ger = \<lambda>_. Some False,
       mv_nullifier = \<lambda>l n. Some (l = 3 \<and> n = 1), mv_output_note = \<lambda>_. Some (Some True)\<rparr>"
  have c: "claim_coordinates 3 = Inr (3, 1)"
    by (simp add: claim_coordinates_fields Let_def checked_add_def)
  have "reconcile_claim_recovery demo_ext ?V 3 (Some ''n'') True new_store = Inr AppliedByExactNote"
    by (simp add: reconcile_claim_recovery_def reconcile_claim_handoff_with_client_def
        bridge_snapshot_with_client_def read_optional_def classify_exact_note_def claim_is_set_def c
        has_claim_event_for_global_index_def)
  from claim_recovery_is_evidence_based [OF this] show ?thesis by simp
qed

end
