(* ===== verification/Block_State.thy ===== *)
theory Block_State
  imports Externals Contracts
begin

text \<open>
  The synthetic block chain (\<^verbatim>\<open>src/src/block_state.rs\<close>, \<^verbatim>\<open>src/src/block_monitor.rs\<close>): headers whose
  hashes form a chain from genesis, cached by number and by hash, and the tip mirror. The header
  fields other than the number and the parent hash are constants or functions of the number, so
  the hash of a header is \<open>ext_header_hash\<close> of those two.
\<close>

section \<open>State and operations\<close>

definition GENESIS_TIMESTAMP :: u64 where "GENESIS_TIMESTAMP = 1704067200"

definition BLOCK_TIME :: u64 where "BLOCK_TIME = 12"

record synthetic_block =
  sb_number :: u64
  sb_hash :: b256
  sb_parent_hash :: b256
  sb_timestamp :: u64
  sb_state_root :: b256
  sb_transactions :: "string list"

record block_state =
  bs_blocks :: "(u64, synthetic_block) hashmap"
  bs_hash_to_number :: "(b256, u64) hashmap"
  bs_current_block :: u64

definition deterministic_timestamp :: "u64 \<Rightarrow> u64" where
  "deterministic_timestamp n = GENESIS_TIMESTAMP + n * BLOCK_TIME"

definition compute_hash_for_number :: "externals \<Rightarrow> u64 \<Rightarrow> b256" where
  "compute_hash_for_number E number =
     foldl (\<lambda>parent n. ext_header_hash E (of_nat n) parent) 0 [0..<Suc (unat number)]"

text \<open>The scan downwards for a cached ancestor: where to start and from which parent hash.\<close>

fun nearest_cached :: "(u64, synthetic_block) hashmap \<Rightarrow> nat \<Rightarrow> nat \<times> b256" where
  "nearest_cached blocks 0 = (0, 0)"
| "nearest_cached blocks (Suc n) =
     (case hm_get blocks (of_nat n) of
        Some cached \<Rightarrow> (Suc n, sb_hash cached)
      | None \<Rightarrow> nearest_cached blocks n)"

definition extend_block :: "externals \<Rightarrow> nat \<Rightarrow> b256 \<times> block_state \<Rightarrow> b256 \<times> block_state" where
  "extend_block E n st =
     (let (parent_hash, bs) = st
      in case hm_get (bs_blocks bs) (of_nat n) of
           Some cached \<Rightarrow> (sb_hash cached, bs)
         | None \<Rightarrow>
             (let h = ext_header_hash E (of_nat n) parent_hash;
                  block = \<lparr>sb_number = of_nat n, sb_hash = h, sb_parent_hash = parent_hash,
                           sb_timestamp = deterministic_timestamp (of_nat n), sb_state_root = 0,
                           sb_transactions = []\<rparr>
              in (h, bs\<lparr>bs_hash_to_number := hm_insert h (of_nat n) (bs_hash_to_number bs),
                        bs_blocks := hm_insert (of_nat n) block (bs_blocks bs)\<rparr>)))"

definition ensure_block_exists :: "externals \<Rightarrow> u64 \<Rightarrow> block_state \<Rightarrow> block_state" where
  "ensure_block_exists E block_num bs =
     (if hm_contains (bs_blocks bs) block_num then bs
      else
        let (start_from, parent_hash) = nearest_cached (bs_blocks bs) (unat block_num)
        in snd (fold (extend_block E) [start_from..<Suc (unat block_num)] (parent_hash, bs)))"

definition new_block_state :: "externals \<Rightarrow> block_state" where
  "new_block_state E =
     ensure_block_exists E 0 \<lparr>bs_blocks = [], bs_hash_to_number = [], bs_current_block = 0\<rparr>"

definition current_block_number :: "block_state \<Rightarrow> u64" where
  "current_block_number bs = bs_current_block bs"

definition set_current_block :: "externals \<Rightarrow> u64 \<Rightarrow> block_state \<Rightarrow> block_state" where
  "set_current_block E block_num bs = (ensure_block_exists E block_num bs)\<lparr>bs_current_block := block_num\<rparr>"

definition get_block_by_number :: "externals \<Rightarrow> u64 \<Rightarrow> block_state \<Rightarrow> synthetic_block option \<times> block_state" where
  "get_block_by_number E block_num bs =
     (let bs' = ensure_block_exists E block_num bs in (hm_get (bs_blocks bs') block_num, bs'))"

definition get_block_by_hash :: "b256 \<Rightarrow> block_state \<Rightarrow> synthetic_block option" where
  "get_block_by_hash h bs =
     (case hm_get (bs_hash_to_number bs) h of None \<Rightarrow> None | Some n \<Rightarrow> hm_get (bs_blocks bs) n)"

definition add_transaction_to_block :: "externals \<Rightarrow> u64 \<Rightarrow> string \<Rightarrow> block_state \<Rightarrow> block_state" where
  "add_transaction_to_block E block_num txh bs =
     (let bs' = ensure_block_exists E block_num bs
      in case hm_get (bs_blocks bs') block_num of
           None \<Rightarrow> bs'
         | Some b \<Rightarrow>
             bs'\<lparr>bs_blocks := hm_insert block_num (b\<lparr>sb_transactions := sb_transactions b @ [txh]\<rparr>)
                   (bs_blocks bs')\<rparr>)"

definition get_block_hash :: "externals \<Rightarrow> u64 \<Rightarrow> block_state \<Rightarrow> b256 \<times> block_state" where
  "get_block_hash E block_num bs =
     (let bs' = ensure_block_exists E block_num bs
      in (case hm_get (bs_blocks bs') block_num of
            Some b \<Rightarrow> sb_hash b
          | None \<Rightarrow> compute_hash_for_number E block_num, bs'))"

text \<open>The tip mirror: \<^verbatim>\<open>fetch_max\<close>.\<close>

definition record_tip :: "u64 \<Rightarrow> u64 \<Rightarrow> u64" where
  "record_tip block_num tip = max tip block_num"

section \<open>The chain\<close>

definition chain_hash :: "externals \<Rightarrow> nat \<Rightarrow> b256" where
  "chain_hash E n = foldl (\<lambda>parent k. ext_header_hash E (of_nat k) parent) 0 [0..<n]"

lemma chain_hash_simps [simp]:
  "chain_hash E 0 = 0"
  "chain_hash E (Suc n) = ext_header_hash E (of_nat n) (chain_hash E n)"
  by (simp_all add: chain_hash_def)

lemma compute_hash_chain: "compute_hash_for_number E n = chain_hash E (Suc (unat n))"
  by (simp only: compute_hash_for_number_def chain_hash_def)

definition block_ok :: "externals \<Rightarrow> u64 \<Rightarrow> synthetic_block \<Rightarrow> bool" where
  "block_ok E n b \<longleftrightarrow>
     sb_number b = n \<and> sb_hash b = chain_hash E (Suc (unat n)) \<and> sb_parent_hash b = chain_hash E (unat n) \<and>
     sb_timestamp b = deterministic_timestamp n"

definition block_inv :: "externals \<Rightarrow> block_state \<Rightarrow> bool" where
  "block_inv E bs \<longleftrightarrow>
     (\<forall>n b. hm_get (bs_blocks bs) n = Some b \<longrightarrow>
        block_ok E n b \<and> hm_get (bs_hash_to_number bs) (chain_hash E (Suc (unat n))) \<noteq> None) \<and>
     (\<forall>h n. hm_get (bs_hash_to_number bs) h = Some n \<longrightarrow>
        h = chain_hash E (Suc (unat n)) \<and> hm_get (bs_blocks bs) n \<noteq> None)"

lemma unat_of_nat_u64: "n < 2 ^ 64 \<Longrightarrow> unat (of_nat n :: u64) = n"
  by (simp add: unat_word_of_nat_small)

lemma nearest_cached_spec:
  assumes "block_inv E bs" and "n \<le> 2 ^ 64" and "nearest_cached (bs_blocks bs) n = (start, parent)"
  shows "start \<le> n \<and> parent = chain_hash E start"
  using assms(2,3)
proof (induction n)
  case (Suc n)
  then show ?case
    using assms(1) unat_of_nat_u64 [of n]
    by (auto simp: block_inv_def block_ok_def split: option.splits)
qed simp

lemma extend_block_spec:
  assumes "block_inv E bs" and "n < 2 ^ 64" and "parent = chain_hash E n"
  shows "fst (extend_block E n (parent, bs)) = chain_hash E (Suc n)"
    and "block_inv E (snd (extend_block E n (parent, bs)))"
    and "hm_get (bs_blocks (snd (extend_block E n (parent, bs)))) (of_nat n) \<noteq> None"
    and "hm_get (bs_blocks bs) m = Some b \<Longrightarrow>
         hm_get (bs_blocks (snd (extend_block E n (parent, bs)))) m = Some b"
    and "bs_current_block (snd (extend_block E n (parent, bs))) = bs_current_block bs"
proof -
  note u = unat_of_nat_u64 [OF assms(2)]
  show "fst (extend_block E n (parent, bs)) = chain_hash E (Suc n)"
    using assms(1,3) u
    by (auto simp: extend_block_def block_inv_def block_ok_def Let_def split: option.split)
  show "block_inv E (snd (extend_block E n (parent, bs)))"
  proof (cases "hm_get (bs_blocks bs) (of_nat n)")
    case None
    with assms(1,3) u show ?thesis
      by (auto simp: extend_block_def block_inv_def block_ok_def Let_def)
  qed (use assms(1) in \<open>simp add: extend_block_def\<close>)
qed (auto simp: extend_block_def Let_def split: option.split)

lemma extend_blocks_spec:
  assumes "block_inv E bs" and "start \<le> stop" and "stop \<le> 2 ^ 64" and "parent = chain_hash E start"
  shows "case fold (extend_block E) [start..<stop] (parent, bs) of (p, bs') \<Rightarrow>
     p = chain_hash E stop \<and> block_inv E bs' \<and> bs_current_block bs' = bs_current_block bs \<and>
     (\<forall>m b. hm_get (bs_blocks bs) m = Some b \<longrightarrow> hm_get (bs_blocks bs') m = Some b) \<and>
     (start < stop \<longrightarrow> hm_get (bs_blocks bs') (of_nat (stop - 1)) \<noteq> None)"
  using assms(2,3)
proof (induction stop rule: dec_induct)
  case base
  then show ?case using assms by simp
next
  case (step n)
  obtain p bs1 where f: "fold (extend_block E) [start..<n] (parent, bs) = (p, bs1)" by fastforce
  have n: "n < 2 ^ 64" using step.prems by simp
  have ih: "p = chain_hash E n" "block_inv E bs1" "bs_current_block bs1 = bs_current_block bs"
    "\<And>m b. hm_get (bs_blocks bs) m = Some b \<Longrightarrow> hm_get (bs_blocks bs1) m = Some b"
    using step.IH n by (auto simp: f)
  show ?case
    using extend_block_spec [OF ih(2) n ih(1)] ih(3,4) step.hyps(1)
    by (auto simp: f fold_append case_prod_unfold)
qed

lemma ensure_block_exists_spec:
  assumes "block_inv E bs"
  shows "block_inv E (ensure_block_exists E n bs)"
    and "hm_get (bs_blocks (ensure_block_exists E n bs)) n \<noteq> None"
    and "hm_get (bs_blocks bs) m = Some b \<Longrightarrow> hm_get (bs_blocks (ensure_block_exists E n bs)) m = Some b"
    and "bs_current_block (ensure_block_exists E n bs) = bs_current_block bs"
proof -
  obtain start parent where nc: "nearest_cached (bs_blocks bs) (unat n) = (start, parent)" by fastforce
  have un: "unat n < 2 ^ 64" using unsigned_less [where ?'a = nat and w = n] by simp
  then have "start \<le> Suc (unat n)" "parent = chain_hash E start" "start \<le> unat n"
    using nearest_cached_spec [OF assms _ nc] by auto
  note ext = extend_blocks_spec [OF assms this(1) _ this(2)]
  show "block_inv E (ensure_block_exists E n bs)"
    and "hm_get (bs_blocks (ensure_block_exists E n bs)) n \<noteq> None"
    and "hm_get (bs_blocks bs) m = Some b \<Longrightarrow> hm_get (bs_blocks (ensure_block_exists E n bs)) m = Some b"
    and "bs_current_block (ensure_block_exists E n bs) = bs_current_block bs"
    using ext un \<open>start \<le> unat n\<close> assms
    by (auto simp: ensure_block_exists_def nc case_prod_unfold simp del: upt_Suc)
qed

section \<open>Runs\<close>

datatype block_op = BSet u64 | BGet u64 | BHash u64 | BAddTx u64 string

definition block_exec :: "externals \<Rightarrow> block_op \<Rightarrow> block_state \<Rightarrow> block_state" where
  "block_exec E op bs =
     (case op of
        BSet n \<Rightarrow> set_current_block E n bs
      | BGet n \<Rightarrow> snd (get_block_by_number E n bs)
      | BHash n \<Rightarrow> snd (get_block_hash E n bs)
      | BAddTx n txh \<Rightarrow> add_transaction_to_block E n txh bs)"

lemma block_inv_add_transaction:
  assumes "block_inv E bs"
  shows "block_inv E (add_transaction_to_block E n txh bs)"
  using ensure_block_exists_spec(1) [OF assms, of n]
  by (auto simp: add_transaction_to_block_def block_inv_def block_ok_def Let_def split: option.split)

lemma block_inv_current: "block_inv E (bs\<lparr>bs_current_block := n\<rparr>) = block_inv E bs"
  by (simp add: block_inv_def)

lemma block_inv_new: "block_inv E (new_block_state E)"
  unfolding new_block_state_def by (rule ensure_block_exists_spec) (simp add: block_inv_def)

interpretation block_chain: invariant_run "block_exec E" "block_inv E" for E
  by unfold_locales
    (simp add: block_exec_def set_current_block_def get_block_by_number_def get_block_hash_def Let_def
      ensure_block_exists_spec(1) block_inv_add_transaction block_inv_current split: block_op.split)

lemma block_exec_keeps:
  assumes "block_inv E bs" and "hm_get (bs_blocks bs) n \<noteq> None"
  shows "hm_get (bs_blocks (block_exec E op bs)) n \<noteq> None"
  using assms ensure_block_exists_spec(3) [OF assms(1), of n]
  by (auto simp: block_exec_def set_current_block_def get_block_by_number_def get_block_hash_def
      add_transaction_to_block_def Let_def split: block_op.split option.split)

lemma block_run_keeps:
  "block_inv E bs \<Longrightarrow> hm_get (bs_blocks bs) n \<noteq> None \<Longrightarrow>
   hm_get (bs_blocks (fold (block_exec E) ops bs)) n \<noteq> None"
proof (induction ops arbitrary: bs)
  case (Cons op ops)
  show ?case
    using Cons.IH [OF block_chain.step_inv [OF Cons.prems(1), of op] block_exec_keeps [OF Cons.prems, of op]]
    by simp
qed simp

text \<open>No two blocks of the chain share a hash.\<close>

definition chain_collision_free :: "externals \<Rightarrow> bool" where
  "chain_collision_free E \<longleftrightarrow>
     (\<forall>m n :: u64. compute_hash_for_number E m = compute_hash_for_number E n \<longrightarrow> m = n)"

section \<open>Properties\<close>

text \<open>
  C36. The cached block hashes are the canonical chain. Whatever blocks were asked for, set or
  filled before, and in whatever order, the hash of a block is the one computed from genesis, its
  header links to the hash of the block before it (zero for genesis), and its timestamp is the
  deterministic one; so a client that recomputes the header hash never sees a reorganisation.
\<close>

theorem block_hashes_are_canonical:
  assumes "bs = fold (block_exec E) ops (new_block_state E)"
  shows "fst (get_block_hash E n bs) = compute_hash_for_number E n \<and>
         (\<exists>b. fst (get_block_by_number E n bs) = Some b \<and> sb_number b = n \<and>
            sb_hash b = compute_hash_for_number E n \<and>
            sb_parent_hash b = (if n = 0 then 0 else compute_hash_for_number E (n - 1)) \<and>
            sb_hash b = ext_header_hash E n (sb_parent_hash b) \<and>
            sb_timestamp b = deterministic_timestamp n)"
proof -
  have inv: "block_inv E bs" unfolding assms using block_inv_new by (rule block_chain.run_inv)
  obtain b where b: "hm_get (bs_blocks (ensure_block_exists E n bs)) n = Some b"
    using ensure_block_exists_spec(2) [OF inv] by blast
  then have ok: "block_ok E n b" using ensure_block_exists_spec(1) [OF inv, of n] by (simp add: block_inv_def)
  have "n \<noteq> 0 \<Longrightarrow> Suc (unat (n - 1)) = unat n"
    using unat_plus_one [of "n - 1"] by simp
  then show ?thesis
    using b ok
    by (auto simp: get_block_hash_def get_block_by_number_def Let_def block_ok_def compute_hash_chain)
qed

theorem block_hashes_are_canonical_witness:
  "fst (get_block_hash demo_ext 2 (fold (block_exec demo_ext) [BSet 1, BAddTx 0 ''t''] (new_block_state demo_ext))) =
     compute_hash_for_number demo_ext 2"
  using block_hashes_are_canonical [OF refl] by blast

text \<open>
  A block that was handed out is found again by its hash, with the same number, after any
  further operations, provided the chain has no two blocks with one hash.
\<close>

theorem block_found_by_hash:
  assumes "chain_collision_free E" and "bs = fold (block_exec E) ops (new_block_state E)"
    and "get_block_by_number E n bs = (Some b, bs')" and "bs'' = fold (block_exec E) ops' bs'"
  shows "\<exists>b''. get_block_by_hash (sb_hash b) bs'' = Some b'' \<and> sb_number b'' = n \<and> sb_hash b'' = sb_hash b"
proof -
  have inv: "block_inv E bs" unfolding assms(2) using block_inv_new by (rule block_chain.run_inv)
  have bs': "bs' = ensure_block_exists E n bs" and b: "hm_get (bs_blocks bs') n = Some b"
    using assms(3) by (auto simp: get_block_by_number_def Let_def)
  have inv': "block_inv E bs'" unfolding bs' using inv by (rule ensure_block_exists_spec(1))
  then have inv'': "block_inv E bs''" unfolding assms(4) by (rule block_chain.run_inv)
  have hash: "sb_hash b = compute_hash_for_number E n"
    using inv' b by (simp add: block_inv_def block_ok_def compute_hash_chain)
  obtain b'' where b'': "hm_get (bs_blocks bs'') n = Some b''"
    using block_run_keeps [OF inv', of n ops'] b by (auto simp: assms(4))
  then have ok: "block_ok E n b''" "hm_get (bs_hash_to_number bs'') (sb_hash b) \<noteq> None"
    using inv'' by (auto simp: block_inv_def hash compute_hash_chain)
  then obtain m where m: "hm_get (bs_hash_to_number bs'') (sb_hash b) = Some m" by blast
  then have "sb_hash b = compute_hash_for_number E m"
    using inv'' by (simp add: block_inv_def compute_hash_chain)
  then have "m = n" using assms(1) hash by (simp add: chain_collision_free_def)
  then show ?thesis
    using m b'' ok(1) hash by (simp add: get_block_by_hash_def block_ok_def compute_hash_chain)
qed

lemma ucast_u64_b256_inject: "(ucast (m :: u64) :: b256) = ucast n \<longleftrightarrow> m = n"
  by transfer (simp add: take_bit_take_bit)

theorem block_found_by_hash_witness:
  "\<exists>b bs'. get_block_by_number (demo_ext\<lparr>ext_header_hash := \<lambda>n p. ucast n + 1\<rparr>) 3
      (new_block_state (demo_ext\<lparr>ext_header_hash := \<lambda>n p. ucast n + 1\<rparr>)) = (Some b, bs') \<and>
     (\<exists>b''. get_block_by_hash (sb_hash b) bs' = Some b'' \<and> sb_number b'' = 3)"
proof -
  let ?E = "demo_ext\<lparr>ext_header_hash := \<lambda>n p. ucast n + 1\<rparr>"
  have free: "chain_collision_free ?E"
    by (auto simp: chain_collision_free_def compute_hash_chain ucast_u64_b256_inject)
  obtain b bs' where "get_block_by_number ?E 3 (new_block_state ?E) = (Some b, bs')"
    using ensure_block_exists_spec(2) [OF block_inv_new, of ?E 3]
    by (auto simp: get_block_by_number_def Let_def)
  with block_found_by_hash [OF free, of _ "[]" 3 b bs' bs' "[]"] show ?thesis by auto
qed

end
