(* ===== verification/Sync_Listener.thy ===== *)
theory Sync_Listener
  imports Block_State Store_Txns
begin

text \<open>
  The listener that finalises pending receipts after a Miden sync (\<^verbatim>\<open>StoreSyncListener\<close> of
  \<^verbatim>\<open>src/src/store/mod.rs\<close>): it buffers the block number and the committed transaction ids, then
  commits those transactions and expires the ones whose time is up, in this order.
\<close>

record sync_data =
  sd_block_num :: u64
  sd_committed_ids :: "b256 list"

record sync_listener =
  sl_pending :: "sync_data option"
  sl_block_state :: block_state
  sl_store :: mem_store

definition on_sync :: "u64 \<Rightarrow> b256 list \<Rightarrow> sync_listener \<Rightarrow> sync_listener" where
  "on_sync block_num committed l = l\<lparr>sl_pending := Some \<lparr>sd_block_num = block_num, sd_committed_ids = committed\<rparr>\<rparr>"

definition on_post_sync :: "externals \<Rightarrow> sync_listener \<Rightarrow> sync_listener" where
  "on_post_sync E l =
     (case sl_pending l of
        None \<Rightarrow> l
      | Some d \<Rightarrow>
          (let (block_hash, bs) = get_block_hash E (sd_block_num d) (sl_block_state l);
               s1 = txn_commit_pending E (sd_committed_ids d) (sd_block_num d) block_hash (sl_store l);
               s2 = txn_expire_pending E (sd_block_num d) block_hash s1
           in \<lparr>sl_pending = None, sl_block_state = bs, sl_store = s2\<rparr>))"

section \<open>Committing by transaction id\<close>

lemma txn_commit_wf: "hm_wf (transactions s) \<Longrightarrow> hm_wf (transactions (snd (txn_commit E h result bn bh s)))"
  by (auto simp: txn_commit_def Let_def fold_add_log_emit split: option.split)

lemma pending_by_id_Some:
  assumes "hm_wf (transactions s)" and "txn_pending_by_miden_id i s = Some h"
  shows "\<exists>r. hm_get (transactions s) h = Some r \<and> tr_result r = None \<and> tr_id r = Some i"
proof -
  obtain r where f: "find (\<lambda>(_, receipt). tr_result receipt = None \<and> tr_id receipt = Some i) (transactions s) = Some (h, r)"
    using assms(2) by (auto simp: txn_pending_by_miden_id_def)
  then have "(h, r) \<in> set (transactions s)" and "tr_result r = None \<and> tr_id r = Some i"
    by (auto simp: find_Some_iff dest: nth_mem)
  then show ?thesis using hm_in_get [OF assms(1)] by blast
qed

lemma pending_by_id_None:
  "txn_pending_by_miden_id i s = None \<Longrightarrow> hm_get (transactions s) h = Some r \<Longrightarrow> tr_id r = Some i \<Longrightarrow>
     tr_result r \<noteq> None"
  by (force simp: txn_pending_by_miden_id_def find_None_iff dest: hm_get_in)

lemma commit_ok_row:
  "hm_get (transactions (snd (txn_commit E h (Inr ()) bn bh s))) h' =
     (if h' = h
      then map_option (\<lambda>r. if tr_result r = Some (Inr ()) then r
                           else r\<lparr>tr_result := Some (Inr ()), tr_block_num := bn\<rparr>) (hm_get (transactions s) h)
      else hm_get (transactions s) h')"
  by (cases "hm_get (transactions s) h")
    (auto simp: txn_commit_row commit_applies_iff txn_state_of_def is_err_def split: option.splits sum.splits)

text \<open>Only \<open>h\<close> can be pending under the id \<open>i\<close>; and it is, or it has succeeded at \<open>bn\<close>.\<close>

definition committing :: "tx_hash \<Rightarrow> b256 \<Rightarrow> u64 \<Rightarrow> mem_store \<Rightarrow> bool" where
  "committing h i bn s \<longleftrightarrow>
     hm_wf (transactions s) \<and>
     (\<forall>h' r. hm_get (transactions s) h' = Some r \<and> tr_result r = None \<and> tr_id r = Some i \<longrightarrow> h' = h) \<and>
     (\<exists>r. hm_get (transactions s) h = Some r \<and> tr_id r = Some i \<and>
        (tr_result r = None \<or> (tr_result r = Some (Inr ()) \<and> tr_block_num r = bn)))"

definition commit_id :: "externals \<Rightarrow> u64 \<Rightarrow> b256 \<Rightarrow> b256 \<Rightarrow> mem_store \<Rightarrow> mem_store" where
  "commit_id E bn bh i s =
     (case txn_pending_by_miden_id i s of
        None \<Rightarrow> s
      | Some h \<Rightarrow> snd (txn_commit E h (Inr ()) bn bh s))"

lemma committing_step:
  assumes "committing h i bn s"
  shows "committing h i bn (commit_id E bn bh j s)"
proof (cases "txn_pending_by_miden_id j s")
  case None
  then show ?thesis using assms by (simp add: commit_id_def)
next
  case (Some k)
  have pend: "tr_result r = None \<Longrightarrow> tr_id r = Some i \<Longrightarrow> h' = h"
    if "hm_get (transactions (snd (txn_commit E k (Inr ()) bn bh s))) h' = Some r" for h' r
    using that assms by (auto simp: committing_def commit_ok_row split: if_splits)
  obtain r where r: "hm_get (transactions s) h = Some r" "tr_id r = Some i"
    "tr_result r = None \<or> (tr_result r = Some (Inr ()) \<and> tr_block_num r = bn)"
    using assms by (auto simp: committing_def)
  then have "\<exists>r. hm_get (transactions (snd (txn_commit E k (Inr ()) bn bh s))) h = Some r \<and> tr_id r = Some i \<and>
        (tr_result r = None \<or> (tr_result r = Some (Inr ()) \<and> tr_block_num r = bn))"
    by (cases "h = k"; cases "tr_result r") (simp_all add: commit_ok_row)
  moreover have "hm_wf (transactions (snd (txn_commit E k (Inr ()) bn bh s)))"
    using assms by (simp add: committing_def txn_commit_wf)
  ultimately show ?thesis
    using pend by (simp only: commit_id_def Some option.case committing_def) blast
qed

lemma committing_own:
  assumes "committing h i bn s"
  shows "\<exists>r. hm_get (transactions (commit_id E bn bh i s)) h = Some r \<and>
           tr_result r = Some (Inr ()) \<and> tr_block_num r = bn"
proof -
  obtain r where r: "hm_get (transactions s) h = Some r" "tr_id r = Some i"
    "tr_result r = None \<or> (tr_result r = Some (Inr ()) \<and> tr_block_num r = bn)"
    using assms by (auto simp: committing_def)
  show ?thesis
  proof (cases "txn_pending_by_miden_id i s")
    case None
    with r show ?thesis using pending_by_id_None [OF None r(1,2)] by (simp add: commit_id_def)
  next
    case (Some h')
    then have "h' = h" using assms pending_by_id_Some [of s i h'] unfolding committing_def by blast
    with Some r show ?thesis by (auto simp: commit_id_def commit_ok_row)
  qed
qed

lemma success_kept:
  "hm_get (transactions s) h = Some r \<Longrightarrow> tr_result r = Some (Inr ()) \<Longrightarrow>
     hm_get (transactions (commit_id E bn bh j s)) h = Some r"
  by (auto simp: commit_id_def commit_ok_row split: option.split)

lemma commit_pending_settles:
  assumes "committing h i bn s" and "i \<in> set ids"
  shows "\<exists>r. hm_get (transactions (fold (commit_id E bn bh) ids s)) h = Some r \<and>
           tr_result r = Some (Inr ()) \<and> tr_block_num r = bn"
  using assms
proof (induction ids arbitrary: s)
  case (Cons j ids)
  show ?case
  proof (cases "j = i")
    case True
    have keep: "hm_get (transactions (fold (commit_id E bn bh) ids s')) h = Some r"
      if "hm_get (transactions s') h = Some r" "tr_result r = Some (Inr ())" for s' r
      using that by (induction ids arbitrary: s') (simp_all add: success_kept)
    from committing_own [OF Cons.prems(1), of E bh] keep show ?thesis by (auto simp: True)
  next
    case False
    with Cons.prems show ?thesis using Cons.IH [OF committing_step [OF Cons.prems(1)]] by simp
  qed
qed simp

lemma txn_commit_pending_fold: "txn_commit_pending E ids bn bh s = fold (commit_id E bn bh) ids s"
  by (simp add: txn_commit_pending_def commit_id_def [abs_def])

lemma commit_pending_wf: "hm_wf (transactions s) \<Longrightarrow> hm_wf (transactions (fold (commit_id E bn bh) ids s))"
proof (induction ids arbitrary: s)
  case (Cons j ids)
  then show ?case by (simp add: commit_id_def txn_commit_wf split: option.split)
qed simp

section \<open>Properties\<close>

text \<open>
  A transaction that Miden committed in a sync ends successful in that sync, even if its
  expiration block has come at the same time: the ids are committed before anything expires, and
  expiry does not touch a settled receipt.
\<close>

theorem committed_transaction_never_expires:
  assumes "hm_wf (transactions (sl_store l))"
    and "hm_get (transactions (sl_store l)) h = Some r" and "tr_result r = None" and "tr_id r = Some i"
    and "\<forall>h' r'. hm_get (transactions (sl_store l)) h' = Some r' \<and> tr_result r' = None \<and> tr_id r' = Some i \<longrightarrow> h' = h"
    and "i \<in> set ids"
  shows "txn_receipt_get h (sl_store (on_post_sync E (on_sync bn ids l))) = Some (Inr (), bn)"
proof -
  obtain bh bs where g: "get_block_hash E bn (sl_block_state l) = (bh, bs)" by fastforce
  have "committing h i bn (sl_store l)" using assms by (auto simp: committing_def)
  then obtain r' where r': "hm_get (transactions (fold (commit_id E bn bh) ids (sl_store l))) h = Some r'"
    "tr_result r' = Some (Inr ())" "tr_block_num r' = bn"
    using commit_pending_settles assms(6) by blast
  then show ?thesis
    using commit_pending_wf [OF assms(1)]
    by (simp add: on_post_sync_def on_sync_def g txn_receipt_get_row txn_commit_pending_fold
        txn_expire_pending_row expires_by_def)
qed

theorem committed_transaction_never_expires_witness:
  "txn_receipt_get 9 (sl_store (on_post_sync demo_ext (on_sync 5 [4]
     \<lparr>sl_pending = None, sl_block_state = new_block_state demo_ext,
      sl_store = new_store\<lparr>transactions :=
        [(9, (receipt_of_entry (demo_entry 9 3))\<lparr>tr_id := Some 4, tr_expires_at := Some 5\<rparr>)]\<rparr>\<rparr>))) = Some (Inr (), 5)"
  by (rule committed_transaction_never_expires [where r = "(receipt_of_entry (demo_entry 9 3))\<lparr>tr_id := Some 4, tr_expires_at := Some 5\<rparr>" and i = 4])
    (auto simp: hm_get_def hm_wf_def hm_keys_def receipt_of_entry_def split: if_splits)

end
