(* ===== verification/Claim_Lock.thy ===== *)
theory Claim_Lock
  imports Store_Claims
begin

text \<open>
  Taking the submission lock of a claim (\<^verbatim>\<open>acquire_claim_lock\<close>, \<^verbatim>\<open>ClaimSubmissionFence\<close> and \<^verbatim>\<open>ClaimGuard\<close> of
  \<^verbatim>\<open>src/src/service_send_raw_txn.rs\<close>). The decision takes several store calls; what other tasks run
  between them is a list of claim operations per gap, so the lemmas hold for every interleaving.
\<close>

section \<open>Operations\<close>

datatype claim_lock_outcome = Acquired u64 | InFlight | Landed

definition acquire_claim_lock ::
    "externals \<Rightarrow> (nat \<Rightarrow> claim_op list) \<Rightarrow> (nat \<Rightarrow> time) \<Rightarrow> u256 \<Rightarrow> tx_hash \<Rightarrow> time \<Rightarrow> mem_store \<Rightarrow>
     claim_lock_outcome \<times> mem_store" where
  "acquire_claim_lock E others now global_index owner_tx_hash ttl s =
     (let gap = (\<lambda>i. fold (claim_exec E) (others i));
          has_event = has_claim_event_for_global_index E global_index;
          (claim, s1) = try_claim_fenced global_index owner_tx_hash ttl (now 0) s;
          s2 = gap 0 s1
      in case claim of
           Some fence \<Rightarrow>
             if has_event s2
             then (Landed, snd (unclaim_fenced global_index owner_tx_hash fence (gap 1 s2)))
             else (Acquired fence, s2)
         | None \<Rightarrow>
             if has_event s2 then (Landed, s2)
             else
               let (reclaim, s3) = try_reclaim_claim_fenced global_index owner_tx_hash ttl (now 1) (gap 1 s2);
                   s4 = gap 2 s3
               in case reclaim of
                    None \<Rightarrow> if has_event s4 then (Landed, s4) else (InFlight, s4)
                  | Some fence \<Rightarrow>
                      if has_event s4
                      then (Landed, snd (unclaim_fenced global_index owner_tx_hash fence (gap 3 s4)))
                      else (Acquired fence, s4))"

record claim_guard =
  cg_active :: bool
  cg_global_index :: u256
  cg_owner_tx_hash :: tx_hash
  cg_fence :: u64

definition guard_new :: "u256 \<Rightarrow> tx_hash \<Rightarrow> u64 \<Rightarrow> claim_guard" where
  "guard_new gi owner fence = \<lparr>cg_active = True, cg_global_index = gi, cg_owner_tx_hash = owner, cg_fence = fence\<rparr>"

definition guard_commit :: "claim_guard \<Rightarrow> claim_guard" where
  "guard_commit g = g\<lparr>cg_active := False\<rparr>"

text \<open>Releasing explicitly and dropping run the same conditional release.\<close>

definition guard_release :: "claim_guard \<Rightarrow> mem_store \<Rightarrow> claim_guard \<times> mem_store" where
  "guard_release g s =
     (if cg_active g
      then (g\<lparr>cg_active := False\<rparr>, snd (unclaim_fenced (cg_global_index g) (cg_owner_tx_hash g) (cg_fence g) s))
      else (g, s))"

datatype fence_error = FenceStore store_error | FenceLost u256 | HandoffChanged u256

definition fence_prepare ::
    "externals \<Rightarrow> claim_guard \<Rightarrow> string \<Rightarrow> string \<Rightarrow> u64 \<Rightarrow> time \<Rightarrow> mem_store \<Rightarrow> (fence_error + unit) \<times> mem_store" where
  "fence_prepare E g note_commitment note_id expiration_block now s =
     (case prepare_claim_submission_fenced E (cg_global_index g) (cg_owner_tx_hash g) (cg_fence g)
             (cg_owner_tx_hash g) note_commitment note_id expiration_block now s of
        (Inl e, s') \<Rightarrow> (Inl (FenceStore e), s')
      | (Inr True, s') \<Rightarrow> (Inr (), s')
      | (Inr False, s') \<Rightarrow> (Inl (FenceLost (cg_global_index g)), s'))"

definition fence_confirm ::
    "externals \<Rightarrow> claim_guard \<Rightarrow> string \<Rightarrow> mem_store \<Rightarrow> (fence_error + unit) \<times> mem_store" where
  "fence_confirm E g note_commitment s =
     (case confirm_note_handoff E (ext_fmt_hash E (cg_owner_tx_hash g)) note_commitment s of
        (True, s') \<Rightarrow> (Inr (), s')
      | (False, s') \<Rightarrow> (Inl (HandoffChanged (cg_global_index g)), s'))"

section \<open>Events are never lost\<close>

lemma claim_event_cong:
  "claim_watcher_processed s' = claim_watcher_processed s \<Longrightarrow> logs_by_block s' = logs_by_block s \<Longrightarrow>
   has_claim_event_for_global_index E gi s' = has_claim_event_for_global_index E gi s"
  by (simp add: has_claim_event_for_global_index_def)

lemma set_hm_or_insert: "set m \<subseteq> set (hm_or_insert k v m)"
  by (auto simp: hm_or_insert_def set_hm_insert_fresh split: option.splits)

lemma claim_event_land:
  assumes "has_claim_event_for_global_index E g s"
  shows "has_claim_event_for_global_index E g
           (commit_manual_claim_event_atomic E n ba bn bh txh gi on oa da am now s)"
proof -
  let ?m = "hm_or_insert n gi (claim_watcher_processed s)"
  have "set (claim_watcher_processed s) \<subseteq> set ?m" by (rule set_hm_or_insert)
  with assms show ?thesis
    by (auto simp: has_claim_event_iff commit_manual_claim_event_atomic_def Let_def set_all_logs_insert)
      (auto simp: all_logs_def)
qed

text \<open>The fields a claim event is looked up in.\<close>

abbreviation event_fields :: "mem_store \<Rightarrow> (string, b256) hashmap \<times> (u64, synthetic_log list) hashmap" where
  "event_fields s \<equiv> (claim_watcher_processed s, logs_by_block s)"

lemma event_fields_confirm_one [simp]: "event_fields (confirm_one E t s) = event_fields s"
  by (simp add: confirm_one_def split: option.split)

lemma event_fields_confirm_note [simp]: "event_fields (snd (confirm_note_handoff E t c s)) = event_fields s"
  by (simp add: confirm_note_handoff_def split: option.split)

lemma event_fields_by_commitment: "event_fields (snd (confirm_note_handoff_by_commitment E c s)) = event_fields s"
proof -
  have "event_fields (fold (confirm_one E) ts s) = event_fields s" for ts
    by (induction ts arbitrary: s) (simp_all del: prod.inject)
  then show ?thesis
    by (simp add: confirm_note_handoff_by_commitment_def Let_def split: list.split del: fold.simps)
qed

lemma event_fields_prepared: "event_fields (snd (confirm_prepared_note_handoffs E ids s)) = event_fields s"
proof -
  have "event_fields (fold (\<lambda>(t, c) st. snd (confirm_note_handoff E t c st)) ms s) = event_fields s" for ms
    by (induction ms arbitrary: s) (simp_all add: case_prod_unfold del: prod.inject)
  then show ?thesis
    unfolding confirm_prepared_note_handoffs_def Let_def confirm_prepared_as_fold [unfolded Let_def] by simp
qed

lemma event_fields_lock_ops:
  "event_fields (snd (try_claim_fenced gi owner lease now s)) = event_fields s"
  "event_fields (snd (try_reclaim_claim_fenced gi owner lease now s)) = event_fields s"
  "event_fields (snd (prepare_claim_submission_fenced E gi owner f h c i x now s)) = event_fields s"
  "event_fields (snd (unclaim_fenced gi owner f s)) = event_fields s"
  "event_fields (snd (clear_expired_prepared_note_handoff E t c s)) = event_fields s"
  by (simp_all add: try_claim_fenced_def try_reclaim_claim_fenced_def prepare_claim_submission_fenced_def
      unclaim_fenced_def clear_expired_prepared_note_handoff_def Let_def split: option.split)

lemmas event_fields_frame =
  event_fields_lock_ops event_fields_confirm_note event_fields_by_commitment event_fields_prepared

lemma claim_event_eq:
  "event_fields s' = event_fields s \<Longrightarrow>
   has_claim_event_for_global_index E gi s' = has_claim_event_for_global_index E gi s"
  by (rule claim_event_cong) simp_all

lemma claim_event_lock_ops [simp]:
  "has_claim_event_for_global_index E g (snd (try_claim_fenced gi owner lease now s)) =
     has_claim_event_for_global_index E g s"
  "has_claim_event_for_global_index E g (snd (try_reclaim_claim_fenced gi owner lease now s)) =
     has_claim_event_for_global_index E g s"
  "has_claim_event_for_global_index E g (snd (unclaim_fenced gi owner f s)) =
     has_claim_event_for_global_index E g s"
  by (rule claim_event_eq, rule event_fields_frame)+

lemma claim_event_exec:
  "has_claim_event_for_global_index E g s \<Longrightarrow> has_claim_event_for_global_index E g (claim_exec E op s)"
proof (cases op)
  case (OpLand n ba bn bh txh gi on oa da am now)
  then show "has_claim_event_for_global_index E g s \<Longrightarrow> ?thesis"
    by (simp add: claim_exec_def claim_event_land)
qed (auto simp: claim_exec_def claim_event_eq [OF event_fields_frame(1)] claim_event_eq [OF event_fields_frame(2)]
    claim_event_eq [OF event_fields_frame(3)] claim_event_eq [OF event_fields_frame(4)]
    claim_event_eq [OF event_fields_frame(5)] claim_event_eq [OF event_fields_frame(6)]
    claim_event_eq [OF event_fields_frame(7)] claim_event_eq [OF event_fields_frame(8)])

interpretation events: invariant_run "claim_exec E" "has_claim_event_for_global_index E g" for E g
  by unfold_locales (rule claim_event_exec)

lemma hm_remove_insert_fresh: "\<not> hm_contains m k \<Longrightarrow> hm_remove k (hm_insert k v m) = m"
  by (induction m) (auto simp: hm_remove_def hm_insert_def hm_contains_def hm_get_def split: if_splits)

section \<open>A prepared claim stays taken\<close>

definition taken_by :: "u256 \<Rightarrow> tx_hash \<Rightarrow> mem_store \<Rightarrow> bool" where
  "taken_by gi owner s =
     (case hm_get (claimed s) gi of
        None \<Rightarrow> False
      | Some c \<Rightarrow> clm_owner_tx_hash c = Some owner \<and> clm_state c \<noteq> CExecuting)"

definition clears_only_others :: "externals \<Rightarrow> tx_hash \<Rightarrow> claim_op \<Rightarrow> bool" where
  "clears_only_others E owner op =
     (case op of OpClearExpired t c \<Rightarrow> ext_parse_hash E t \<noteq> Some owner | _ \<Rightarrow> True)"

lemma taken_by_confirm_one: "taken_by gi owner s \<Longrightarrow> taken_by gi owner (confirm_one E t s)"
  by (auto simp: confirm_one_def taken_by_def hm_get_submit_owned_claims split: option.splits)

lemma taken_by_confirm_note: "taken_by gi owner s \<Longrightarrow> taken_by gi owner (snd (confirm_note_handoff E t c s))"
  by (simp add: confirm_note_handoff_one taken_by_confirm_one)

lemma taken_by_by_commitment:
  "taken_by gi owner s \<Longrightarrow> taken_by gi owner (snd (confirm_note_handoff_by_commitment E c s))"
proof -
  have "taken_by gi owner s \<Longrightarrow> taken_by gi owner (fold (confirm_one E) ts s)" for ts
    by (induction ts arbitrary: s) (simp_all add: taken_by_confirm_one)
  then show "taken_by gi owner s \<Longrightarrow> ?thesis"
    by (simp add: confirm_note_handoff_by_commitment_def Let_def split: list.split del: fold.simps)
qed

lemma taken_by_prepared:
  "taken_by gi owner s \<Longrightarrow> taken_by gi owner (snd (confirm_prepared_note_handoffs E ids s))"
proof -
  have "taken_by gi owner s \<Longrightarrow>
      taken_by gi owner (fold (\<lambda>(t, c) st. snd (confirm_note_handoff E t c st)) ms s)" for ms
    by (induction ms arbitrary: s) (simp_all add: case_prod_unfold taken_by_confirm_note)
  then show "taken_by gi owner s \<Longrightarrow> ?thesis"
    unfolding confirm_prepared_note_handoffs_def Let_def confirm_prepared_as_fold [unfolded Let_def] by simp
qed

lemma taken_by_release:
  assumes "taken_by gi owner s" and "hm_wf (claimed s)" and "ext_parse_hash E t \<noteq> Some owner"
    and "release_prepared_claim E t (claimed s) = Some m"
  shows "hm_get m gi = hm_get (claimed s) gi"
  using release_prepared_claim_cases [OF assms(4,2), of gi] assms(1,3)
  by (auto simp: taken_by_def split: option.splits)

lemma taken_by_exec:
  assumes "taken_by gi owner s" and "hm_wf (claimed s)" and "clears_only_others E owner op"
  shows "taken_by gi owner (claim_exec E op s)"
proof (cases op)
  case (OpClearExpired t c)
  with assms show ?thesis
    by (cases rule: clear_expired_cases [of E t c s])
      (auto simp: claim_exec_def clears_only_others_def taken_by_release taken_by_def)
qed (use assms(1) in \<open>auto simp: claim_exec_def taken_by_confirm_note taken_by_by_commitment taken_by_prepared\<close>,
    auto simp: taken_by_def try_claim_fenced_def try_reclaim_claim_fenced_def
      prepare_claim_submission_fenced_def unclaim_fenced_def land_claim_def Let_def split: option.splits)

lemma taken_by_run:
  "taken_by gi owner s \<Longrightarrow> hm_wf (claimed s) \<Longrightarrow> list_all (clears_only_others E owner) ops \<Longrightarrow>
     taken_by gi owner (fold (claim_exec E) ops s)"
  by (induction ops arbitrary: s) (simp_all add: taken_by_exec claim_exec_wf)

lemma taken_by_prepare:
  assumes "fence_prepare E g cm i x now s = (Inr (), s')"
  shows "taken_by (cg_global_index g) (cg_owner_tx_hash g) s'"
  using assms
  by (auto simp: fence_prepare_def prepare_claim_submission_fenced_def taken_by_def Let_def
      split: option.splits if_splits prod.splits sum.splits bool.splits)

lemma taken_by_blocks:
  assumes "taken_by gi owner s"
  shows "fst (try_claim_fenced gi o' l t s) = None" and "fst (try_reclaim_claim_fenced gi o' l t s) = None"
    and "snd (try_claim_fenced gi o' l t s) = s" and "snd (try_reclaim_claim_fenced gi o' l t s) = s"
    and "cg_global_index g = gi \<Longrightarrow> fst (fence_prepare E g cm i x t s) \<noteq> Inr ()"
    and "unclaim_fenced gi o' f s = (False, s)"
proof -
  obtain c where c: "hm_get (claimed s) gi = Some c" "clm_state c \<noteq> CExecuting"
    using assms by (auto simp: taken_by_def split: option.splits)
  show "fst (try_claim_fenced gi o' l t s) = None" "fst (try_reclaim_claim_fenced gi o' l t s) = None"
      "snd (try_claim_fenced gi o' l t s) = s" "snd (try_reclaim_claim_fenced gi o' l t s) = s"
      "unclaim_fenced gi o' f s = (False, s)"
    using c by (simp_all add: try_claim_fenced_def try_reclaim_claim_fenced_def unclaim_fenced_def hm_contains_def)
  show "cg_global_index g = gi \<Longrightarrow> fst (fence_prepare E g cm i x t s) \<noteq> Inr ()"
    using c by (simp add: fence_prepare_def prepare_claim_submission_fenced_def Let_def split: option.split)
qed

lemma acquire_undisturbed:
  "acquire_claim_lock E (\<lambda>_. []) now gi owner ttl s =
     (if has_claim_event_for_global_index E gi s then (Landed, s)
      else case hm_get (claimed s) gi of
        None \<Rightarrow> (Acquired 1, s\<lparr>claimed := hm_insert gi
              \<lparr>clm_owner_tx_hash = Some owner, clm_state = CExecuting, clm_acquired_at = now 0,
               clm_lease_expires_at = Some (now 0 + ttl), clm_fence = 1\<rparr> (claimed s)\<rparr>)
      | Some c \<Rightarrow>
          if clm_state c \<noteq> CExecuting \<or> (clm_owner_tx_hash c \<noteq> Some owner \<and> \<not> claim_expired ttl (now 1) c)
          then (InFlight, s)
          else (Acquired (clm_fence c + 1), s\<lparr>claimed := hm_insert gi
                  (c\<lparr>clm_owner_tx_hash := Some owner, clm_acquired_at := now 1,
                     clm_lease_expires_at := Some (now 1 + ttl), clm_fence := clm_fence c + 1\<rparr>)
                  (claimed s)\<rparr>))"
proof (cases "hm_get (claimed s) gi")
  case None
  have "has_claim_event_for_global_index E gi (snd (try_claim_fenced gi owner ttl (now 0) s)) =
        has_claim_event_for_global_index E gi s" by simp
  with None show ?thesis
    by (simp add: acquire_claim_lock_def try_claim_fenced_def unclaim_fenced_def hm_contains_def
        hm_remove_insert_fresh)
next
  case (Some c)
  have "has_claim_event_for_global_index E gi (s\<lparr>claimed := m\<rparr>) = has_claim_event_for_global_index E gi s" for m
    by (rule claim_event_cong) simp_all
  with Some show ?thesis
    by (simp add: acquire_claim_lock_def try_claim_fenced_def try_reclaim_claim_fenced_def hm_contains_def)
qed

section \<open>Properties\<close>

text \<open>
  C34. Landing is decided at the lock, in every interleaving. Whatever other tasks do to claims
  between the store calls of an acquisition, the outcome is \<open>Landed\<close> exactly when the claim event of
  that global index exists in the store the call leaves behind; in particular a claim that had
  landed before the call is never reported as acquired or in flight.
\<close>

theorem landed_claim_always_classified:
  assumes "acquire_claim_lock E others now gi owner ttl s = (out, s')"
  shows "(out = Landed \<longleftrightarrow> has_claim_event_for_global_index E gi s') \<and>
         (has_claim_event_for_global_index E gi s \<longrightarrow> out = Landed)"
  using assms unfolding acquire_claim_lock_def Let_def
  by (auto simp: case_prod_unfold events.run_inv split: option.splits if_splits)

theorem landed_claim_always_classified_witness:
  "fst (acquire_claim_lock demo_ext (\<lambda>_. []) (\<lambda>_. 0) 5 9 10
      (new_store\<lparr>claim_watcher_processed := [(''n'', 5)]\<rparr>)) = Landed"
  using landed_claim_always_classified [OF prod.collapse [symmetric], where E = demo_ext and gi = 5 and
      s = "new_store\<lparr>claim_watcher_processed := [(''n'', 5)]\<rparr>"]
  by (simp add: has_claim_event_for_global_index_def)

text \<open>
  Without interference an acquisition decides exactly. It is granted when no event exists and
  the index is free, or held by this very owner, or held by an owner whose lease ran out, in the
  executing state; it then holds a record in this owner's name whose fence is the granted one and
  whose lease runs for the full time. Otherwise the store is unchanged.
\<close>

theorem acquire_claim_lock_decides:
  assumes "acquire_claim_lock E (\<lambda>_. []) now gi owner ttl s = (out, s')"
  shows "case out of
           Landed \<Rightarrow> has_claim_event_for_global_index E gi s \<and> s' = s
         | InFlight \<Rightarrow> \<not> has_claim_event_for_global_index E gi s \<and> s' = s \<and>
             (\<exists>c. hm_get (claimed s) gi = Some c \<and>
                (clm_state c \<noteq> CExecuting \<or> clm_owner_tx_hash c \<noteq> Some owner \<and> \<not> claim_expired ttl (now 1) c))
         | Acquired f \<Rightarrow> \<not> has_claim_event_for_global_index E gi s \<and>
             (\<exists>c t. hm_get (claimed s') gi = Some c \<and> clm_state c = CExecuting \<and>
                clm_owner_tx_hash c = Some owner \<and> clm_fence c = f \<and>
                clm_lease_expires_at c = Some (t + ttl) \<and> t \<in> {now 0, now 1}) \<and>
             (case hm_get (claimed s) gi of
                None \<Rightarrow> True
              | Some c \<Rightarrow> clm_state c = CExecuting \<and> f = clm_fence c + 1 \<and>
                  (clm_owner_tx_hash c = Some owner \<or> claim_expired ttl (now 1) c))"
  using assms unfolding acquire_undisturbed
  by (cases "hm_get (claimed s) gi"; cases "has_claim_event_for_global_index E gi s")
    (auto split: if_splits)

theorem acquire_claim_lock_decides_witness:
  "fst (acquire_claim_lock demo_ext (\<lambda>_. []) (\<lambda>i. 5 + i) 77 8 10 demo_claim_store) = InFlight \<and>
   fst (acquire_claim_lock demo_ext (\<lambda>_. []) (\<lambda>i. 15 + i) 77 8 10 demo_claim_store) = Acquired 2 \<and>
   \<not> has_claim_event_for_global_index demo_ext 77 demo_claim_store"
proof -
  let ?r = "acquire_claim_lock demo_ext (\<lambda>_. []) (\<lambda>i. 5 + i) 77 8 10 demo_claim_store"
  have e: "\<not> has_claim_event_for_global_index demo_ext 77 demo_claim_store"
    by (simp add: demo_claim_store_def try_claim_fenced_def has_claim_event_for_global_index_def)
  then have "fst ?r = InFlight" and "fst (acquire_claim_lock demo_ext (\<lambda>_. []) (\<lambda>i. 15 + i) 77 8 10 demo_claim_store) = Acquired 2"
    by (simp_all add: acquire_undisturbed claim_expired_def hm_get_def)
  then show ?thesis
    using acquire_claim_lock_decides [OF prod.collapse [symmetric, of ?r]] by simp
qed

text \<open>
  C35. A claim is published at most once. When the submission fence has prepared the note of a
  claim, then after any further run of claim operations in which the expired preparation of this
  very transaction is not cleared, every other preparation for that index fails, no acquisition is
  granted, at whatever time and in whatever interleaving with such runs, and no guard can release it.
\<close>

theorem claim_published_at_most_once:
  assumes "fence_prepare E g cm i x now s = (Inr (), s')" and "hm_wf (claimed s)"
    and "list_all (clears_only_others E (cg_owner_tx_hash g)) ops"
    and "\<And>k. list_all (clears_only_others E (cg_owner_tx_hash g)) (others k)"
    and "s'' = fold (claim_exec E) ops s'"
  shows "(\<forall>g' cm' i' x' t. cg_global_index g' = cg_global_index g \<longrightarrow>
            fst (fence_prepare E g' cm' i' x' t s'') \<noteq> Inr ()) \<and>
         (\<forall>times owner ttl f. fst (acquire_claim_lock E others times (cg_global_index g) owner ttl s'') \<noteq> Acquired f) \<and>
         (\<forall>g'. cg_global_index g' = cg_global_index g \<longrightarrow> snd (guard_release g' s'') = s'')"
proof -
  let ?gi = "cg_global_index g" and ?o = "cg_owner_tx_hash g"
  have wf: "hm_wf (claimed s')"
    using assms(1,2) by (auto simp: fence_prepare_def prepare_claim_submission_fenced_def Let_def
        split: option.splits if_splits prod.splits sum.splits bool.splits)
  have t: "taken_by ?gi ?o s''" and wf2: "hm_wf (claimed s'')"
    using taken_by_run [OF taken_by_prepare [OF assms(1)] wf assms(3)] claims.run_inv [OF wf] assms(5) by auto
  have gap: "taken_by ?gi ?o (fold (claim_exec E) (others k) z)" if "taken_by ?gi ?o z" "hm_wf (claimed z)" for k z
    using taken_by_run [OF that assms(4)] .
  have gwf: "hm_wf (claimed (fold (claim_exec E) (others k) z))" if "hm_wf (claimed z)" for k z
    using claims.run_inv [OF that] .
  have "fst (acquire_claim_lock E others times ?gi owner ttl s'') \<noteq> Acquired f" for times owner ttl f
    using t wf2
    by (simp add: acquire_claim_lock_def Let_def case_prod_unfold taken_by_blocks [OF t]
        taken_by_blocks(2) [OF gap [OF gap]] gap gwf)
  then show ?thesis
    using taken_by_blocks [OF t] by (auto simp: guard_release_def)
qed

theorem claim_published_at_most_once_witness:
  "fst (fence_prepare demo_ext (guard_new 77 9 1) ''c'' ''n'' 5 3 demo_claim_store) = Inr () \<and>
   fst (fence_prepare demo_ext (guard_new 77 8 2) ''d'' ''m'' 9 50
     (fold (claim_exec demo_ext) [OpUnclaim 77 9 1, OpReclaim 77 8 10 40]
       (snd (fence_prepare demo_ext (guard_new 77 9 1) ''c'' ''n'' 5 3 demo_claim_store)))) \<noteq> Inr ()"
proof -
  obtain s' where r: "fence_prepare demo_ext (guard_new 77 9 1) ''c'' ''n'' 5 3 demo_claim_store = (Inr (), s')"
    by (simp add: fence_prepare_def guard_new_def prepare_claim_submission_fenced_def Let_def hm_get_def)
  show ?thesis
    using claim_published_at_most_once [OF r _ _ _ refl, where ops = "[OpUnclaim 77 9 1, OpReclaim 77 8 10 40]"
        and others = "\<lambda>_. []"]
    unfolding r by (simp add: clears_only_others_def guard_new_def hm_wf_def hm_keys_def)
qed

end
