(* ===== verification/Faucet_Ops.thy ===== *)
theory Faucet_Ops
  imports Externals
begin

text \<open>
  Token metadata (\<^verbatim>\<open>src/src/faucet_ops.rs\<close>): decoding \<^verbatim>\<open>abi.encode(name, symbol, decimals)\<close> out of the
  calldata of a claim, the bounds on its decimals and its text, and the mapping of a token symbol
  to the letters that Miden accepts. The calldata is under the control of whoever made the
  deposit, so everything here has to be total and bounded.
\<close>

section \<open>Text decoding\<close>

text \<open>
  \<^verbatim>\<open>String::from_utf8\<close>: the code points of well-formed UTF-8 (no overlong forms, no surrogates,
  nothing above \<^verbatim>\<open>U+10FFFF\<close>).
\<close>

definition utf8_tail :: "byte \<Rightarrow> bool" where
  "utf8_tail b = (0x80 \<le> b \<and> b \<le> 0xBF)"

definition tail_bits :: "byte \<Rightarrow> nat" where
  "tail_bits b = unat b - 0x80"

fun from_utf8 :: "byte list \<Rightarrow> nat list option" where
  "from_utf8 [] = Some []"
| "from_utf8 (a # bs) =
     (if a < 0x80 then map_option (Cons (unat a)) (from_utf8 bs)
      else if 0xC2 \<le> a \<and> a \<le> 0xDF then
        (case bs of
           b # bs' \<Rightarrow>
             if utf8_tail b
             then map_option (Cons ((unat a - 0xC0) * 64 + tail_bits b)) (from_utf8 bs')
             else None
         | [] \<Rightarrow> None)
      else if 0xE0 \<le> a \<and> a \<le> 0xEF then
        (case bs of
           b # c # bs' \<Rightarrow>
             if utf8_tail b \<and> utf8_tail c \<and> (a = 0xE0 \<longrightarrow> 0xA0 \<le> b) \<and> (a = 0xED \<longrightarrow> b \<le> 0x9F)
             then map_option (Cons ((unat a - 0xE0) * 4096 + tail_bits b * 64 + tail_bits c)) (from_utf8 bs')
             else None
         | _ \<Rightarrow> None)
      else if 0xF0 \<le> a \<and> a \<le> 0xF4 then
        (case bs of
           b # c # d # bs' \<Rightarrow>
             if utf8_tail b \<and> utf8_tail c \<and> utf8_tail d \<and> (a = 0xF0 \<longrightarrow> 0x90 \<le> b) \<and> (a = 0xF4 \<longrightarrow> b \<le> 0x8F)
             then map_option (Cons ((unat a - 0xF0) * 262144 + tail_bits b * 4096 + tail_bits c * 64 + tail_bits d))
                    (from_utf8 bs')
             else None
         | _ \<Rightarrow> None)
      else None)"

section \<open>Bounds\<close>

definition MIDEN_DECIMALS :: u8 where "MIDEN_DECIMALS = 8"

definition MAX_SCALING_FACTOR :: u8 where "MAX_SCALING_FACTOR = 18"

definition MAX_ORIGIN_DECIMALS :: u8 where "MAX_ORIGIN_DECIMALS = MIDEN_DECIMALS + MAX_SCALING_FACTOR"

definition MAX_DECODED_STRING_BYTES :: u64 where "MAX_DECODED_STRING_BYTES = 64"

definition MIDEN_TOKEN_SYMBOL_MAX :: nat where "MIDEN_TOKEN_SYMBOL_MAX = 6"

section \<open>Decoding\<close>

datatype metadata_error =
    EmptyMetadata address
  | MetadataTooShort nat
  | DecimalsOutOfRange u8
  | DecimalsNonCanonical
  | OffsetOverflow u64
  | OffsetOutOfBounds u64
  | StringTooLong u64
  | StringEndOverflow
  | StringOutOfBounds
  | InvalidUtf8
  | EmptySymbol address

definition u256_from_be_slice :: "byte list \<Rightarrow> u64" where
  "u256_from_be_slice bs = from_be_bytes (drop (length bs - 8) bs)"

definition byte_range :: "byte list \<Rightarrow> nat \<Rightarrow> nat \<Rightarrow> byte list" where
  "byte_range data from to = take (to - from) (drop from data)"

definition abi_decode_string :: "byte list \<Rightarrow> u64 \<Rightarrow> metadata_error + nat list" where
  "abi_decode_string data offset =
     (case checked_add offset 32 of
        None \<Rightarrow> Inl (OffsetOverflow offset)
      | Some header_end \<Rightarrow>
          if length data < unat header_end then Inl (OffsetOutOfBounds offset)
          else
            let len = u256_from_be_slice (byte_range data (unat offset) (unat header_end))
            in if MAX_DECODED_STRING_BYTES < len then Inl (StringTooLong len)
               else case checked_add header_end len of
                      None \<Rightarrow> Inl StringEndOverflow
                    | Some str_end \<Rightarrow>
                        if length data < unat str_end then Inl StringOutOfBounds
                        else case from_utf8 (byte_range data (unat header_end) (unat str_end)) of
                               None \<Rightarrow> Inl InvalidUtf8
                             | Some s \<Rightarrow> Inr s)"

text \<open>\<^verbatim>\<open>char::to_ascii_uppercase\<close> and \<^verbatim>\<open>is_ascii_uppercase\<close> on code points.\<close>

definition ascii_upper :: "nat \<Rightarrow> nat" where
  "ascii_upper c = (if 97 \<le> c \<and> c \<le> 122 then c - 32 else c)"

definition is_ascii_upper :: "nat \<Rightarrow> bool" where
  "is_ascii_upper c = (65 \<le> c \<and> c \<le> 90)"

definition char_upper :: "char \<Rightarrow> char" where
  "char_upper c = char_of (ascii_upper (of_char c))"

definition sanitise_token_symbol :: "externals \<Rightarrow> nat list \<Rightarrow> address \<Rightarrow> string" where
  "sanitise_token_symbol E raw token_address =
     (let upper = take MIDEN_TOKEN_SYMBOL_MAX (filter is_ascii_upper (map ascii_upper raw))
      in if upper = []
         then ''T'' @ map char_upper (take 4 (ext_hex_encode E (be_bytes 20 token_address)))
         else map char_of upper)"

definition parse_token_metadata :: "externals \<Rightarrow> byte list \<Rightarrow> address \<Rightarrow> metadata_error + string \<times> u8" where
  "parse_token_metadata E data token_address =
     (if data = [] then
        (if token_address = 0 then Inr (''ETH'', 18) else Inl (EmptyMetadata token_address))
      else if length data < 96 then Inl (MetadataTooShort (length data))
      else
        let decimals = data ! 95
        in if MAX_ORIGIN_DECIMALS < decimals then Inl (DecimalsOutOfRange decimals)
           else if list_ex (\<lambda>b. b \<noteq> 0) (byte_range data 64 95) then Inl DecimalsNonCanonical
           else case abi_decode_string data (u256_from_be_slice (byte_range data 32 64)) of
                  Inl e \<Rightarrow> Inl e
                | Inr raw_symbol \<Rightarrow>
                    if raw_symbol = [] then Inl (EmptySymbol token_address)
                    else Inr (sanitise_token_symbol E raw_symbol token_address, decimals))"

text \<open>The decimals of the local faucet and the scaling factor that goes with them.\<close>

definition faucet_decimals :: "u8 \<Rightarrow> u8 \<times> u8 option" where
  "faucet_decimals origin_decimals =
     (let miden_decimals = min origin_decimals MIDEN_DECIMALS
      in (miden_decimals, if miden_decimals \<le> origin_decimals then Some (origin_decimals - miden_decimals) else None))"

section \<open>Lemmas\<close>

lemma MAX_ORIGIN_DECIMALS_eq: "MAX_ORIGIN_DECIMALS = 26"
  by (simp add: MAX_ORIGIN_DECIMALS_def MIDEN_DECIMALS_def MAX_SCALING_FACTOR_def)

lemma faucet_decimals_bounds:
  assumes "d \<le> MAX_ORIGIN_DECIMALS"
  shows "\<exists>m s. faucet_decimals d = (m, Some s) \<and> m \<le> MIDEN_DECIMALS \<and> s \<le> MAX_SCALING_FACTOR \<and> m + s = d"
proof (cases "d \<le> 8")
  case True
  then show ?thesis
    by (simp add: faucet_decimals_def MIDEN_DECIMALS_def MAX_SCALING_FACTOR_def)
next
  case False
  have u: "unat d \<le> 26"
    using assms by (simp add: MAX_ORIGIN_DECIMALS_eq word_le_nat_alt)
  from False have l: "8 \<le> d" "\<not> d \<le> 8" by auto
  then have "unat (d - 8) = unat d - 8"
    by (simp add: word_le_nat_alt unat_sub_if')
  with u l show ?thesis
    by (simp add: faucet_decimals_def MIDEN_DECIMALS_def MAX_SCALING_FACTOR_def min_def word_le_nat_alt)
qed

lemma length_sanitise: "length (sanitise_token_symbol E raw a) \<le> 6"
  by (auto simp: sanitise_token_symbol_def Let_def MIDEN_TOKEN_SYMBOL_MAX_def)

lemma sanitise_nonempty: "sanitise_token_symbol E raw a \<noteq> []"
  by (simp add: sanitise_token_symbol_def Let_def)

lemma is_upper_of_char: "is_ascii_upper c \<Longrightarrow> (of_char (char_of c :: char) :: nat) = c"
  by (simp add: is_ascii_upper_def of_char_of)

lemma sanitise_letters:
  assumes "\<exists>c \<in> set raw. is_ascii_upper (ascii_upper c)" and "x \<in> set (sanitise_token_symbol E raw a)"
  shows "is_ascii_upper (of_char x)"
proof -
  let ?u = "filter is_ascii_upper (map ascii_upper raw)"
  have "?u \<noteq> []" using assms(1) by (auto simp: filter_empty_conv)
  then have "take 6 ?u \<noteq> []" by simp
  then have "x \<in> char_of ` set (take 6 ?u)"
    using assms(2) by (simp add: sanitise_token_symbol_def Let_def MIDEN_TOKEN_SYMBOL_MAX_def)
  then obtain c where "x = char_of c" "c \<in> set ?u" using in_set_takeD by (metis imageE)
  then have "is_ascii_upper c" and "(of_char x :: nat) = c" using is_upper_of_char [of c] by auto
  then show ?thesis by simp
qed

lemma from_utf8_ascii: "\<forall>b \<in> set bs. b < 0x80 \<Longrightarrow> from_utf8 bs = Some (map unat bs)"
  by (induction bs) simp_all

section \<open>The canonical encoding\<close>

text \<open>What the bridge contract puts into the metadata: \<^verbatim>\<open>abi.encode(name, symbol, decimals)\<close>.\<close>

definition abi_word :: "nat \<Rightarrow> byte list" where
  "abi_word n = be_bytes 32 (word_of_nat n :: u256)"

definition abi_string :: "byte list \<Rightarrow> byte list" where
  "abi_string bs = abi_word (length bs) @ bs @ replicate ((32 - length bs mod 32) mod 32) 0"

definition abi_encode_metadata :: "byte list \<Rightarrow> byte list \<Rightarrow> u8 \<Rightarrow> byte list" where
  "abi_encode_metadata name symbol decimals =
     abi_word 96 @ abi_word (96 + length (abi_string name)) @ abi_word (unat decimals) @
     abi_string name @ abi_string symbol"

lemma length_abi_word [simp]: "length (abi_word n) = 32"
  by (simp add: abi_word_def)

lemma byte_range_middle:
  "length xs = i \<Longrightarrow> j = i + length ys \<Longrightarrow> byte_range (xs @ ys @ zs) i j = ys"
  by (simp add: byte_range_def)

lemma u256_from_abi_word: "u256_from_be_slice (abi_word n) = word_of_nat n"
proof -
  let ?w = "word_of_nat n :: u256"
  have "drop 24 (be_bytes 32 ?w) = be_bytes 8 ?w"
    using be_bytes_slice [of 24 8 32 ?w] by simp
  also have "\<dots> = be_bytes 8 (ucast ?w :: u64)"
    by (simp only: be_bytes_ucast [where ?'b = 64] len_num1 len_bit0 len_bit1 mult_numeral_1 order_refl)
  finally have "u256_from_be_slice (abi_word n) = (ucast ?w :: u64)"
    by (simp add: u256_from_be_slice_def abi_word_def from_be_bytes_be_bytes)
  also have "\<dots> = word_of_nat (unat ?w)" by simp
  also have "\<dots> = word_of_nat n"
    by (simp only: unsigned_of_nat word_of_nat_eq_iff take_bit_take_bit) simp
  finally show ?thesis .
qed

lemma abi_word_byte:
  fixes d :: u8
  shows "abi_word (unat d) ! 31 = d" and "\<not> list_ex (\<lambda>b. b \<noteq> 0) (take 31 (abi_word (unat d)))"
proof -
  let ?w = "word_of_nat (unat d) :: u256"
  have w: "?w = ucast d" by simp
  have "abi_word (unat d) ! 31 = ucast ?w"
    by (simp add: abi_word_def be_bytes_def rev_nth)
  also have "\<dots> = d"
    unfolding w by (rule bit_word_eqI) (simp add: bit_unsigned_iff)
  finally show "abi_word (unat d) ! 31 = d" .
  have "drop_bit 8 ?w = 0"
    unfolding w by (rule bit_word_eqI) (auto simp: bit_drop_bit_eq bit_unsigned_iff dest: bit_imp_le_length)
  moreover have "take 31 (abi_word (unat d)) = be_bytes 31 (drop_bit 8 ?w)"
    using be_bytes_slice [of 0 31 32 ?w] by (simp add: abi_word_def)
  ultimately show "\<not> list_ex (\<lambda>b. b \<noteq> 0) (take 31 (abi_word (unat d)))"
    by (simp add: be_bytes_def list_ex_iff)
qed

lemma abi_decode_string_encoded:
  assumes "data = pre @ abi_string bs @ post" and "length pre = unat off" and "length bs \<le> 64"
    and "length data < 2 ^ 63" and "from_utf8 bs = Some cs"
  shows "abi_decode_string data off = Inr cs"
proof -
  define pad :: "byte list" where "pad = replicate ((32 - length bs mod 32) mod 32) 0"
  have data: "data = pre @ abi_word (length bs) @ bs @ pad @ post"
    by (simp add: assms(1) abi_string_def pad_def)
  have l: "unat off + 32 + length bs \<le> length data"
    using assms(2) by (simp add: data)
  have c1: "checked_add off 32 = Some (off + 32)" and u1: "unat (off + 32) = unat off + 32"
    using l assms(4) by (simp_all add: checked_add_Some unat_add_no_overflow)
  have r1: "byte_range data (unat off) (unat off + 32) = abi_word (length bs)"
    unfolding data by (rule byte_range_middle) (simp_all add: assms(2))
  have len: "u256_from_be_slice (abi_word (length bs)) = word_of_nat (length bs)"
    by (rule u256_from_abi_word)
  have ul: "unat (word_of_nat (length bs) :: u64) = length bs"
    using assms(3) by (simp add: unat_word_of_nat_small)
  have le: "\<not> MAX_DECODED_STRING_BYTES < word_of_nat (length bs)"
    using assms(3) by (simp add: MAX_DECODED_STRING_BYTES_def word_less_nat_alt ul)
  have c2: "checked_add (off + 32) (word_of_nat (length bs)) = Some (off + 32 + word_of_nat (length bs))"
    and u2: "unat (off + 32 + word_of_nat (length bs)) = unat off + 32 + length bs"
    using l assms(4) ul by (simp_all add: checked_add_Some unat_add_no_overflow u1)
  have "byte_range ((pre @ abi_word (length bs)) @ bs @ (pad @ post)) (unat off + 32) (unat off + 32 + length bs) = bs"
    by (rule byte_range_middle) (simp_all add: assms(2))
  then have r2: "byte_range data (unat off + 32) (unat off + 32 + length bs) = bs"
    by (simp add: data)
  show ?thesis
    using l by (simp add: abi_decode_string_def c1 u1 r1 len le c2 u2 r2 assms(5) Let_def)
qed

section \<open>Properties\<close>

text \<open>
  C37. The metadata of an ordinary token is read back: from the canonical encoding of a name, a
  symbol of one to six upper-case ASCII letters and at most 26 decimals, the parser returns that
  symbol and those decimals, whatever the name.
\<close>

theorem token_metadata_round_trip:
  assumes "\<forall>b \<in> set symbol. 65 \<le> b \<and> b \<le> 90" and "symbol \<noteq> []" and "length symbol \<le> 6"
    and "d \<le> MAX_ORIGIN_DECIMALS" and "length name < 2 ^ 32"
  shows "parse_token_metadata E (abi_encode_metadata name symbol d) a = Inr (map (\<lambda>b. char_of (unat b)) symbol, d)"
proof -
  let ?data = "abi_encode_metadata name symbol d"
  let ?off = "word_of_nat (96 + length (abi_string name)) :: u64"
  have ln: "length (abi_string name) \<le> 64 + length name" by (simp add: abi_string_def)
  have ls: "length (abi_string symbol) = 64"
  proof -
    have "length symbol \<in> {1, 2, 3, 4, 5, 6}" using assms(2,3) by (cases "length symbol") auto
    then show ?thesis by (auto simp: abi_string_def)
  qed
  have len: "length ?data = 96 + length (abi_string name) + 64"
    by (simp add: abi_encode_metadata_def ls)
  have b32: "byte_range (abi_word 96 @ abi_word (96 + length (abi_string name)) @
               (abi_word (unat d) @ abi_string name @ abi_string symbol)) 32 64 =
             abi_word (96 + length (abi_string name))"
    by (rule byte_range_middle) simp_all
  have b64: "byte_range ?data 64 95 = take 31 (abi_word (unat d))"
    by (simp add: abi_encode_metadata_def byte_range_def)
  have n95: "?data ! 95 = d"
    using abi_word_byte(1) [of d] by (simp add: abi_encode_metadata_def nth_append)
  have off: "unat ?off = 96 + length (abi_string name)"
    using ln assms(5) by (intro unat_word_of_nat_small) simp
  have ascii: "from_utf8 symbol = Some (map unat symbol)"
  proof (rule from_utf8_ascii, rule ballI)
    fix b assume "b \<in> set symbol"
    with assms(1) have "b \<le> 90" by blast
    then show "b < 0x80" by (simp add: word_le_nat_alt word_less_nat_alt)
  qed
  have dec: "abi_decode_string ?data ?off = Inr (map unat symbol)"
    by (rule abi_decode_string_encoded [where pre = "abi_word 96 @ abi_word (96 + length (abi_string name)) @
          abi_word (unat d) @ abi_string name" and post = "[]" and bs = symbol])
      (use assms(3,5) ln off in \<open>simp_all add: ascii len del: of_nat_add, simp add: abi_encode_metadata_def\<close>)
  have up: "is_ascii_upper (unat b) \<and> ascii_upper (unat b) = unat b" if "b \<in> set symbol" for b
    using assms(1) that by (auto simp: word_le_nat_alt is_ascii_upper_def ascii_upper_def)
  then have "map ascii_upper (map unat symbol) = map unat symbol" and "\<forall>c \<in> set (map unat symbol). is_ascii_upper c"
    by auto
  then have "filter is_ascii_upper (map ascii_upper (map unat symbol)) = map unat symbol"
    by (simp only: filter_True)
  then have san: "sanitise_token_symbol E (map unat symbol) a = map (\<lambda>b. char_of (unat b)) symbol"
    using assms(2,3) by (simp add: sanitise_token_symbol_def MIDEN_TOKEN_SYMBOL_MAX_def comp_def)
  have "u256_from_be_slice (byte_range ?data 32 64) = ?off"
    using b32 by (simp only: abi_encode_metadata_def append_assoc u256_from_abi_word)
  moreover have "?data \<noteq> []" and "\<not> MAX_ORIGIN_DECIMALS < d" using len assms(4) by auto
  ultimately show ?thesis
    using assms(2) len n95 b64 abi_word_byte(2) [of d] dec san
    by (simp add: parse_token_metadata_def Let_def)
qed

theorem token_metadata_round_trip_witness:
  "parse_token_metadata demo_ext (abi_encode_metadata [84, 101, 116, 104, 101, 114] [85, 83, 68, 84] 6) 5 =
     Inr (''USDT'', 6)"
  using token_metadata_round_trip [of "[85, 83, 68, 84]" 6 "[84, 101, 116, 104, 101, 114]" demo_ext 5]
  by (simp add: MAX_ORIGIN_DECIMALS_eq char_of_def bit_iff_odd)

text \<open>
  C38. Whatever bytes the calldata carries, an accepted token has a usable route: at most 26
  decimals, a symbol of one to six characters, and a local faucet whose decimals are at most 8 and
  whose scaling factor is at most 18, adding up to the decimals of the token.
\<close>

theorem token_metadata_routable:
  assumes "parse_token_metadata E data a = Inr (symbol, d)"
  shows "d \<le> MAX_ORIGIN_DECIMALS \<and> symbol \<noteq> [] \<and> length symbol \<le> 6 \<and>
         (\<exists>m s. faucet_decimals d = (m, Some s) \<and> m \<le> MIDEN_DECIMALS \<and> s \<le> MAX_SCALING_FACTOR \<and> m + s = d)"
proof -
  have "d \<le> MAX_ORIGIN_DECIMALS \<and> symbol \<noteq> [] \<and> length symbol \<le> 6"
  proof (cases "data = []")
    case True
    with assms show ?thesis
      by (auto simp: parse_token_metadata_def MAX_ORIGIN_DECIMALS_eq split: if_splits)
  next
    case False
    then obtain raw where "symbol = sanitise_token_symbol E raw a" and "d = data ! 95" and "\<not> MAX_ORIGIN_DECIMALS < data ! 95"
      using assms by (auto simp: parse_token_metadata_def Let_def split: if_splits sum.splits)
    then show ?thesis using length_sanitise [of E raw a] sanitise_nonempty [of E raw a] by auto
  qed
  then show ?thesis using faucet_decimals_bounds by blast
qed

theorem token_metadata_routable_witness:
  "\<exists>m s. faucet_decimals 18 = (m, Some s) \<and> m \<le> MIDEN_DECIMALS \<and> s \<le> MAX_SCALING_FACTOR \<and> m + s = 18"
  using token_metadata_routable [where E = demo_ext and data = "[]" and a = 0 and symbol = "''ETH''" and d = 18]
  by (simp add: parse_token_metadata_def)

text \<open>
  A symbol without any ASCII letter falls back to a letter and four hexadecimal digits of the
  token address, which need not be letters; so the result can contain a character outside the
  upper-case letters that the function is documented to produce.
\<close>

theorem symbol_fallback_can_have_digits:
  "\<exists>raw a. \<not> list_all (\<lambda>c. is_ascii_upper (of_char c)) (sanitise_token_symbol demo_ext raw a)"
proof -
  have "sanitise_token_symbol demo_ext [36] 0 = ''T0000''"
    by (simp add: sanitise_token_symbol_def demo_ext_def Let_def ascii_upper_def is_ascii_upper_def char_upper_def
        be_bytes_def upt_conv_Cons hex_byte_def hex_digit_def MIDEN_TOKEN_SYMBOL_MAX_def char_of_def bit_iff_odd)
  then have "\<not> list_all (\<lambda>c. is_ascii_upper (of_char c)) (sanitise_token_symbol demo_ext [36] 0)"
    by (simp add: is_ascii_upper_def)
  then show ?thesis by blast
qed

end
