(* ===== verification/Metadata_Recovery.thy ===== *)
theory Metadata_Recovery
  imports Faucet_Ops Store_State
begin

text \<open>
  Recovering what the registry lost (\<^verbatim>\<open>src/src/metadata_recovery.rs\<close>, and the account classification
  and rebuild of \<^verbatim>\<open>src/src/faucet_ops.rs\<close>): reading a faucet's origin identity and metadata hash back
  from the storage of the bridge account, and re-deriving the token metadata of a bridge-out, which
  is used only when its hash equals the one the bridge holds.

  Accounts and their storage belong to the Miden client: \<open>bridge_storage\<close> answers the reads of the
  \<^verbatim>\<open>faucet_metadata_map\<close> slot, a \<open>faucet_account\<close> says which of the two faucet types it parses as, and
  \<open>account_api\<close> has the library's conversions.
\<close>

section \<open>The Miden side\<close>

record account_api =
  aa_suffix :: "account_id \<Rightarrow> u64"
  aa_prefix :: "account_id \<Rightarrow> u64"
  aa_try_from_elements :: "u64 \<Rightarrow> u64 \<Rightarrow> account_id option"
  aa_abi_encode_params :: "byte list \<Rightarrow> byte list \<Rightarrow> u8 \<Rightarrow> byte list"
  aa_metadata_hash :: "byte list \<Rightarrow> b256"

text \<open>An identifier is rebuilt from its two field elements.\<close>

definition account_elements_ok :: "account_api \<Rightarrow> bool" where
  "account_elements_ok A = (\<forall>i. aa_try_from_elements A (aa_suffix A i) (aa_prefix A i) = Some i)"

record bridge_storage =
  bg_map_item :: "u64 list \<Rightarrow> u64 list option"
  bg_map_keys :: "u64 list list option"

record fungible_faucet =
  ff_token_name :: "byte list"
  ff_symbol :: "byte list"
  ff_decimals :: u8

record faucet_account =
  fa_agglayer :: "fungible_faucet option"
  fa_fungible :: "fungible_faucet option"

section \<open>Operations\<close>

datatype faucet_kind = AggLayerOwned | NativeFungible

definition classify_faucet_account :: "faucet_account \<Rightarrow> (faucet_kind \<times> fungible_faucet) option" where
  "classify_faucet_account a =
     (case fa_agglayer a of
        Some f \<Rightarrow> Some (AggLayerOwned, f)
      | None \<Rightarrow> (case fa_fungible a of Some f \<Rightarrow> Some (NativeFungible, f) | None \<Rightarrow> None))"

record metadata_candidate =
  mc_name :: "byte list"
  mc_symbol :: "byte list"
  mc_decimals :: u8

datatype emit_metadata = Ready "byte list" | Recovered "byte list" | Unrecoverable

definition rederive_token_metadata :: "account_api \<Rightarrow> byte list \<Rightarrow> byte list \<Rightarrow> u8 \<Rightarrow> byte list" where
  "rederive_token_metadata A name symbol decimals = aa_abi_encode_params A name symbol decimals"

definition keccak_metadata :: "account_api \<Rightarrow> byte list \<Rightarrow> b256" where
  "keccak_metadata A metadata_bytes = aa_metadata_hash A metadata_bytes"

fun first_validated :: "account_api \<Rightarrow> b256 \<Rightarrow> metadata_candidate list \<Rightarrow> emit_metadata" where
  "first_validated A expected [] = Unrecoverable"
| "first_validated A expected (c # cs) =
     (let bytes = rederive_token_metadata A (mc_name c) (mc_symbol c) (mc_decimals c)
      in if keccak_metadata A bytes = expected then Recovered bytes else first_validated A expected cs)"

definition resolve_emit_metadata ::
    "account_api \<Rightarrow> b160 \<Rightarrow> byte list \<Rightarrow> metadata_candidate list \<Rightarrow> b256 option \<Rightarrow> emit_metadata" where
  "resolve_emit_metadata A origin_address stored_metadata candidates expected_hash =
     (if stored_metadata \<noteq> [] then Ready stored_metadata
      else if origin_address = 0 then Ready []
      else case expected_hash of
             None \<Rightarrow> Unrecoverable
           | Some expected \<Rightarrow> first_validated A expected candidates)"

text \<open>Limbs that fit in 32 bits, as little-endian bytes.\<close>

fun limb_bytes :: "u64 list \<Rightarrow> byte list option" where
  "limb_bytes [] = Some []"
| "limb_bytes (f # fs) =
     (case u32_try_from f of
        None \<Rightarrow> None
      | Some limb \<Rightarrow> (case limb_bytes fs of None \<Rightarrow> None | Some bs \<Rightarrow> Some (le_bytes 4 limb @ bs)))"

definition u8_try_from :: "u64 \<Rightarrow> u8 option" where
  "u8_try_from v = (if unat v < 2 ^ 8 then Some (ucast v) else None)"

definition faucet_key :: "account_api \<Rightarrow> u64 \<Rightarrow> account_id \<Rightarrow> u64 list" where
  "faucet_key A subkey faucet_id = [subkey, 0, aa_suffix A faucet_id, aa_prefix A faucet_id]"

definition read_faucet_metadata_hash :: "account_api \<Rightarrow> bridge_storage \<Rightarrow> account_id \<Rightarrow> b256 option" where
  "read_faucet_metadata_hash A bridge faucet_id =
     (case (bg_map_item bridge (faucet_key A 2 faucet_id), bg_map_item bridge (faucet_key A 3 faucet_id)) of
        (Some lo, Some hi) \<Rightarrow>
          (case limb_bytes (lo @ hi) of
             None \<Rightarrow> None
           | Some bytes \<Rightarrow>
               let h = from_be_bytes bytes in if h = 0 then None else Some h)
      | _ \<Rightarrow> None)"

record faucet_conversion =
  cv_origin_address :: b160
  cv_origin_network :: u32
  cv_scale :: u8

definition read_faucet_conversion_metadata ::
    "account_api \<Rightarrow> bridge_storage \<Rightarrow> account_id \<Rightarrow> faucet_conversion option" where
  "read_faucet_conversion_metadata A bridge faucet_id =
     (case (bg_map_item bridge (faucet_key A 0 faucet_id), bg_map_item bridge (faucet_key A 1 faucet_id)) of
        (Some lo, Some hi) \<Rightarrow>
          (case (limb_bytes (lo @ [hi ! 0]), u32_try_from (hi ! 1), u8_try_from (hi ! 2)) of
             (Some bytes, Some origin_network, Some scale) \<Rightarrow>
               let origin_address = from_be_bytes bytes
               in if origin_address = 0 \<and> origin_network = 0 \<and> scale = 0 then None
                  else Some \<lparr>cv_origin_address = origin_address, cv_origin_network = origin_network,
                             cv_scale = scale\<rparr>
           | _ \<Rightarrow> None)
      | _ \<Rightarrow> None)"

definition enumerate_registered_faucet_ids :: "account_api \<Rightarrow> bridge_storage \<Rightarrow> account_id list" where
  "enumerate_registered_faucet_ids A bridge =
     (case bg_map_keys bridge of
        None \<Rightarrow> []
      | Some keys \<Rightarrow>
          List.map_filter (\<lambda>e. if e ! 0 \<noteq> 0 then None else aa_try_from_elements A (e ! 2) (e ! 3)) keys)"

fun find_origin :: "account_api \<Rightarrow> bridge_storage \<Rightarrow> b160 \<Rightarrow> u32 \<Rightarrow> account_id list \<Rightarrow>
    (account_id \<times> faucet_conversion) option" where
  "find_origin A bridge origin_address origin_network [] = None"
| "find_origin A bridge origin_address origin_network (faucet_id # ids) =
     (case read_faucet_conversion_metadata A bridge faucet_id of
        Some conv \<Rightarrow>
          if cv_origin_address conv = origin_address \<and> cv_origin_network conv = origin_network
          then Some (faucet_id, conv)
          else find_origin A bridge origin_address origin_network ids
      | None \<Rightarrow> find_origin A bridge origin_address origin_network ids)"

definition find_registered_faucet_for_origin ::
    "account_api \<Rightarrow> bridge_storage \<Rightarrow> b160 \<Rightarrow> u32 \<Rightarrow> (account_id \<times> faucet_conversion) option" where
  "find_registered_faucet_for_origin A bridge origin_address origin_network =
     find_origin A bridge origin_address origin_network (enumerate_registered_faucet_ids A bridge)"

definition miden_faucet_candidate :: "faucet_account \<Rightarrow> u8 \<Rightarrow> metadata_candidate option" where
  "miden_faucet_candidate a origin_decimals =
     (case classify_faucet_account a of
        None \<Rightarrow> None
      | Some (_, f) \<Rightarrow> Some \<lparr>mc_name = ff_token_name f, mc_symbol = ff_symbol f, mc_decimals = origin_decimals\<rparr>)"

text \<open>\<open>l1\<close> is the answer of the token contract over the L1 provider, \<open>None\<close> when no provider is configured.\<close>

definition recover_bridge_out_metadata ::
    "account_api \<Rightarrow> b160 \<Rightarrow> byte list \<Rightarrow> u8 \<Rightarrow> account_id \<Rightarrow> bridge_storage option \<Rightarrow> faucet_account option \<Rightarrow>
     (string + metadata_candidate) option \<Rightarrow> emit_metadata" where
  "recover_bridge_out_metadata A origin_address stored_metadata origin_decimals faucet_id bridge_account
       faucet_account l1 =
     (if stored_metadata \<noteq> [] then Ready stored_metadata
      else if origin_address = 0 then Ready []
      else
        case (case bridge_account of None \<Rightarrow> None | Some b \<Rightarrow> read_faucet_metadata_hash A b faucet_id) of
          None \<Rightarrow> Unrecoverable
        | Some expected \<Rightarrow>
            let candidates = (case faucet_account of
                                None \<Rightarrow> []
                              | Some fa \<Rightarrow> (case miden_faucet_candidate fa origin_decimals of None \<Rightarrow> [] | Some c \<Rightarrow> [c]))
            in case resolve_emit_metadata A origin_address stored_metadata candidates (Some expected) of
                 Recovered bytes \<Rightarrow> Recovered bytes
               | _ \<Rightarrow>
                   resolve_emit_metadata A origin_address stored_metadata
                     (case l1 of Some (Inr c) \<Rightarrow> candidates @ [c] | _ \<Rightarrow> candidates) (Some expected))"

datatype rebuild_error =
    ImportFailed account_id
  | GetAccountFailed account_id
  | NotFoundAfterImport account_id
  | UnknownFaucetType account_id
  | DecimalsOverflow account_id

text \<open>
  \<open>tracked\<close> is what the client has for the faucet before the import, \<open>imported\<close> whether the import
  succeeds, \<open>account\<close> what the client answers afterwards.
\<close>

definition rebuild_faucet_entry_from_chain ::
    "account_api \<Rightarrow> bridge_storage \<Rightarrow> account_id \<Rightarrow> faucet_conversion \<Rightarrow> faucet_account option \<Rightarrow> bool \<Rightarrow>
     (string + faucet_account option) \<Rightarrow> (string + metadata_candidate) option \<Rightarrow> rebuild_error + faucet_entry" where
  "rebuild_faucet_entry_from_chain A bridge faucet_id conversion tracked imported account l1 =
     (if tracked = None \<and> \<not> imported then Inl (ImportFailed faucet_id)
      else case account of
             Inl _ \<Rightarrow> Inl (GetAccountFailed faucet_id)
           | Inr None \<Rightarrow> Inl (NotFoundAfterImport faucet_id)
           | Inr (Some fa) \<Rightarrow>
               (case classify_faucet_account fa of
                  None \<Rightarrow> Inl (UnknownFaucetType faucet_id)
                | Some (_, f) \<Rightarrow>
                    (case checked_add (ff_decimals f) (cv_scale conversion) of
                       None \<Rightarrow> Inl (DecimalsOverflow faucet_id)
                     | Some origin_decimals \<Rightarrow>
                         Inr \<lparr>fe_faucet_id = faucet_id,
                              fe_origin_address = cv_origin_address conversion,
                              fe_origin_network = cv_origin_network conversion,
                              fe_symbol = map (\<lambda>b. char_of (unat b)) (ff_symbol f),
                              fe_origin_decimals = origin_decimals,
                              fe_miden_decimals = ff_decimals f,
                              fe_scale = cv_scale conversion,
                              fe_metadata =
                                (case recover_bridge_out_metadata A (cv_origin_address conversion) [] origin_decimals
                                        faucet_id (Some bridge) (Some fa) l1 of
                                   Ready bytes \<Rightarrow> bytes
                                 | Recovered bytes \<Rightarrow> bytes
                                 | Unrecoverable \<Rightarrow> [])\<rparr>)))"

section \<open>Lemmas\<close>

lemma first_validated_cases:
  "(\<exists>c \<in> set cs. first_validated A h cs = Recovered (rederive_token_metadata A (mc_name c) (mc_symbol c) (mc_decimals c)) \<and>
       keccak_metadata A (rederive_token_metadata A (mc_name c) (mc_symbol c) (mc_decimals c)) = h) \<or>
   first_validated A h cs = Unrecoverable \<and>
     (\<forall>c \<in> set cs. keccak_metadata A (rederive_token_metadata A (mc_name c) (mc_symbol c) (mc_decimals c)) \<noteq> h)"
  by (induction cs) (auto simp: Let_def)

lemma limb_bytes_chunks:
  "\<forall>c \<in> set cs. length c = 4 \<Longrightarrow> limb_bytes (map (\<lambda>c. ucast (from_le_bytes c :: u32)) cs) = Some (concat cs)"
  by (induction cs) (simp_all add: le_bytes_from_le_bytes)

lemma u8_try_from_ucast [simp]: "u8_try_from (ucast (w :: u8)) = Some w"
proof -
  have "unat (ucast w :: u64) = unat w" by (simp add: unsigned_ucast_eq take_bit_nat_eq_self_iff)
      (use unsigned_less [where ?'a = nat and w = w] in simp)
  moreover have "unat w < 2 ^ 8" using unsigned_less [where ?'a = nat and w = w] by simp
  moreover have "(ucast (ucast w :: u64) :: u8) = word_of_nat (unat (ucast w :: u64))" by simp
  ultimately show ?thesis by (simp only: u8_try_from_def) simp
qed

text \<open>The rows the bridge contract writes for a faucet: the address as five limbs, the network and the scale.\<close>

definition address_words :: "b160 \<Rightarrow> u64 list" where
  "address_words a = map (\<lambda>i. ucast (from_le_bytes (take 4 (drop (4 * i) (be_bytes 20 a))) :: u32)) [0..<5]"

definition conversion_rows :: "faucet_conversion \<Rightarrow> u64 list \<times> u64 list" where
  "conversion_rows c =
     (take 4 (address_words (cv_origin_address c)),
      [address_words (cv_origin_address c) ! 4, ucast (cv_origin_network c), ucast (cv_scale c), 0])"

definition stores_faucet :: "account_api \<Rightarrow> bridge_storage \<Rightarrow> account_id \<Rightarrow> faucet_conversion \<Rightarrow> bool" where
  "stores_faucet A bridge faucet_id c =
     (bg_map_item bridge (faucet_key A 0 faucet_id) = Some (fst (conversion_rows c)) \<and>
      bg_map_item bridge (faucet_key A 1 faucet_id) = Some (snd (conversion_rows c)))"

lemma limb_bytes_address: "limb_bytes (address_words a) = Some (be_bytes 20 a)"
  using limb_bytes_chunks [of "map (\<lambda>i. take 4 (drop (4 * i) (be_bytes 20 a))) [0..<5]"]
  by (auto simp: address_words_def be_bytes_chunks comp_def)

lemma address_words_split: "take 4 (address_words a) @ [address_words a ! 4] = address_words a"
  by (simp add: address_words_def upt_rec)

lemma read_stored_conversion:
  assumes "stores_faucet A bridge faucet_id c"
    and "cv_origin_address c \<noteq> 0 \<or> cv_origin_network c \<noteq> 0 \<or> cv_scale c \<noteq> 0"
  shows "read_faucet_conversion_metadata A bridge faucet_id = Some c"
proof -
  have "limb_bytes (take 4 (address_words (cv_origin_address c)) @ [address_words (cv_origin_address c) ! 4]) =
        Some (be_bytes 20 (cv_origin_address c))"
    by (simp only: address_words_split limb_bytes_address)
  with assms show ?thesis
    by (auto simp: read_faucet_conversion_metadata_def stores_faucet_def conversion_rows_def Let_def
        from_be_bytes_be_bytes)
qed

lemma find_origin_Some:
  "find_origin A b a n ids = Some (i, c) \<Longrightarrow>
     i \<in> set ids \<and> read_faucet_conversion_metadata A b i = Some c \<and> cv_origin_address c = a \<and> cv_origin_network c = n"
  by (induction ids) (auto split: option.splits if_splits)

lemma find_origin_None:
  "find_origin A b a n ids = None \<Longrightarrow> i \<in> set ids \<Longrightarrow> read_faucet_conversion_metadata A b i = Some c \<Longrightarrow>
     cv_origin_address c = a \<Longrightarrow> cv_origin_network c \<noteq> n"
  by (induction ids) (auto split: option.splits if_splits)

lemma enumerate_has:
  assumes "account_elements_ok A" and "bg_map_keys bridge = Some keys" and "faucet_key A 0 i \<in> set keys"
  shows "i \<in> set (enumerate_registered_faucet_ids A bridge)"
proof -
  let ?g = "\<lambda>e. if e ! 0 \<noteq> 0 then None else aa_try_from_elements A (e ! 2) (e ! 3)"
  have "?g (faucet_key A 0 i) = Some i"
    using assms(1) by (simp add: faucet_key_def account_elements_ok_def)
  moreover from this have "faucet_key A 0 i \<in> set (filter (\<lambda>x. ?g x \<noteq> None) keys)"
    using assms(3) by simp
  ultimately have "i \<in> (the \<circ> ?g) ` set (filter (\<lambda>x. ?g x \<noteq> None) keys)"
    by (intro image_eqI [where x = "faucet_key A 0 i"]) simp_all
  then show ?thesis
    by (simp only: enumerate_registered_faucet_ids_def List.map_filter_def assms(2) option.case set_map)
qed

section \<open>Properties\<close>

text \<open>
  C39. A bridge-out event never carries empty or unvalidated metadata for a token contract. Stored
  metadata is used as it is; empty metadata only for native ETH; recovered metadata only when the
  bridge account holds exactly its hash. Giving up means that there is no readable hash or that
  neither the Miden faucet nor the token contract re-derives it.
\<close>

theorem emitted_metadata_is_validated:
  assumes "recover_bridge_out_metadata A origin stored decimals faucet_id bridge faucet rpc = out"
  shows "case out of
           Ready m \<Rightarrow> m = stored \<and> (m \<noteq> [] \<or> origin = 0)
         | Recovered m \<Rightarrow> stored = [] \<and> origin \<noteq> 0 \<and>
             (\<exists>b. bridge = Some b \<and> read_faucet_metadata_hash A b faucet_id = Some (keccak_metadata A m))
         | Unrecoverable \<Rightarrow> stored = [] \<and> origin \<noteq> 0 \<and>
             (\<forall>b h c. bridge = Some b \<and> read_faucet_metadata_hash A b faucet_id = Some h \<and>
                (faucet \<noteq> None \<and> miden_faucet_candidate (the faucet) decimals = Some c \<or> rpc = Some (Inr c)) \<longrightarrow>
                keccak_metadata A (rederive_token_metadata A (mc_name c) (mc_symbol c) (mc_decimals c)) \<noteq> h)"
proof (cases "stored \<noteq> [] \<or> origin = 0")
  case True
  with assms show ?thesis by (auto simp: recover_bridge_out_metadata_def split: if_splits)
next
  case False
  then have e: "stored = []" "origin \<noteq> 0" by auto
  show ?thesis
  proof (cases "case bridge of None \<Rightarrow> None | Some b \<Rightarrow> read_faucet_metadata_hash A b faucet_id")
    case None
    with assms e show ?thesis by (auto simp: recover_bridge_out_metadata_def split: option.splits)
  next
    case (Some h)
    then obtain b where b: "bridge = Some b" "read_faucet_metadata_hash A b faucet_id = Some h"
      by (auto split: option.splits)
    define cs where "cs = (case faucet of None \<Rightarrow> []
        | Some fa \<Rightarrow> (case miden_faucet_candidate fa decimals of None \<Rightarrow> [] | Some c \<Rightarrow> [c]))"
    define ds where "ds = (case rpc of Some (Inr c) \<Rightarrow> cs @ [c] | _ \<Rightarrow> cs)"
    have out: "out = (case first_validated A h cs of Recovered m \<Rightarrow> Recovered m | _ \<Rightarrow> first_validated A h ds)"
      using assms [symmetric] e b
      unfolding recover_bridge_out_metadata_def resolve_emit_metadata_def Let_def cs_def [symmetric] ds_def [symmetric]
      by (cases "first_validated A h cs") simp_all
    have cand: "c \<in> set ds"
      if "faucet \<noteq> None \<and> miden_faucet_candidate (the faucet) decimals = Some c \<or> rpc = Some (Inr c)" for c
      using that by (auto simp: cs_def ds_def split: option.splits sum.splits)
    show ?thesis
      using first_validated_cases [of cs A h] first_validated_cases [of ds A h] e b cand
      unfolding out by (auto split: emit_metadata.splits)
  qed
qed

definition demo_api :: account_api where
  "demo_api = \<lparr>aa_suffix = (\<lambda>i. ucast i), aa_prefix = (\<lambda>i. ucast (drop_bit 64 i)),
     aa_try_from_elements = (\<lambda>s p. Some (push_bit 64 (ucast p) + ucast s)),
     aa_abi_encode_params = (\<lambda>n s d. n @ s @ [d]),
     aa_metadata_hash = (\<lambda>bs. from_be_bytes bs)\<rparr>"

definition demo_conversion :: faucet_conversion where
  "demo_conversion = \<lparr>cv_origin_address = 5, cv_origin_network = 1, cv_scale = 10\<rparr>"

definition demo_bridge :: bridge_storage where
  "demo_bridge = \<lparr>bg_map_item = (\<lambda>k. if k = faucet_key demo_api 0 9 then Some (fst (conversion_rows demo_conversion))
       else if k = faucet_key demo_api 1 9 then Some (snd (conversion_rows demo_conversion)) else None),
     bg_map_keys = Some [faucet_key demo_api 0 9]\<rparr>"

lemma demo_account_elements: "account_elements_ok demo_api"
proof -
  have "(ucast (ucast i :: u64) :: account_id) = take_bit 64 i"
    and "(ucast (ucast (drop_bit 64 i) :: u64) :: account_id) = drop_bit 64 i" for i :: account_id
    by (rule bit_word_eqI; auto simp: bit_unsigned_iff bit_take_bit_iff bit_drop_bit_eq dest: bit_imp_le_length)+
  then show ?thesis
    by (simp add: account_elements_ok_def demo_api_def bits_ident)
qed

theorem emitted_metadata_is_validated_witness:
  "recover_bridge_out_metadata demo_api 5 [] 6 9 None None None = Unrecoverable \<and>
   recover_bridge_out_metadata demo_api 0 [] 6 9 None None None = Ready []"
  using emitted_metadata_is_validated [where A = demo_api and origin = 0 and stored = "[]" and decimals = 6
      and faucet_id = 9 and bridge = None and faucet = None and rpc = None, OF refl]
  by (simp add: recover_bridge_out_metadata_def)

text \<open>
  The identity of a faucet is read back from the bridge. When the bridge stores, under its
  registered keys, the rows of faucets with pairwise different origins, looking an origin up finds
  the faucet that was registered for it, with the address, network and scale it was registered
  with; and whatever is found has the origin that was asked for.
\<close>

theorem registered_faucet_is_found:
  assumes "account_elements_ok A" and "bg_map_keys bridge = Some keys"
    and "faucet_key A 0 i \<in> set keys" and "stores_faucet A bridge i c"
    and "cv_origin_address c \<noteq> 0 \<or> cv_origin_network c \<noteq> 0 \<or> cv_scale c \<noteq> 0"
    and "\<And>j d. j \<in> set (enumerate_registered_faucet_ids A bridge) \<Longrightarrow>
            read_faucet_conversion_metadata A bridge j = Some d \<Longrightarrow>
            cv_origin_address d = cv_origin_address c \<Longrightarrow> cv_origin_network d = cv_origin_network c \<Longrightarrow> j = i"
  shows "find_registered_faucet_for_origin A bridge (cv_origin_address c) (cv_origin_network c) = Some (i, c) \<and>
         (\<forall>a n j d. find_registered_faucet_for_origin A bridge a n = Some (j, d) \<longrightarrow>
            cv_origin_address d = a \<and> cv_origin_network d = n)"
proof -
  have i: "i \<in> set (enumerate_registered_faucet_ids A bridge)"
    using enumerate_has assms(1-3) by blast
  have r: "read_faucet_conversion_metadata A bridge i = Some c"
    using read_stored_conversion assms(4,5) by blast
  obtain j d where f: "find_registered_faucet_for_origin A bridge (cv_origin_address c) (cv_origin_network c) = Some (j, d)"
    using find_origin_None [OF _ i r refl] unfolding find_registered_faucet_for_origin_def
    by (cases "find_origin A bridge (cv_origin_address c) (cv_origin_network c) (enumerate_registered_faucet_ids A bridge)") auto
  then have j: "j \<in> set (enumerate_registered_faucet_ids A bridge)" "read_faucet_conversion_metadata A bridge j = Some d"
      "cv_origin_address d = cv_origin_address c" "cv_origin_network d = cv_origin_network c"
    using find_origin_Some [of A bridge "cv_origin_address c" "cv_origin_network c" _ j d]
    unfolding find_registered_faucet_for_origin_def by blast+
  then have "j = i" by (rule assms(6))
  with j r have "d = c" by simp
  have "cv_origin_address d = a \<and> cv_origin_network d = n"
    if "find_registered_faucet_for_origin A bridge a n = Some (j, d)" for a n j d
    using find_origin_Some that unfolding find_registered_faucet_for_origin_def by blast
  moreover have "find_registered_faucet_for_origin A bridge (cv_origin_address c) (cv_origin_network c) = Some (i, c)"
    using f by (simp only: \<open>j = i\<close> \<open>d = c\<close>)
  ultimately show ?thesis by blast
qed

theorem registered_faucet_is_found_witness:
  "find_registered_faucet_for_origin demo_api demo_bridge 5 1 = Some (9, demo_conversion)"
proof -
  have ids: "enumerate_registered_faucet_ids demo_api demo_bridge = [9]"
    using demo_account_elements
    by (simp add: enumerate_registered_faucet_ids_def demo_bridge_def List.map_filter_def faucet_key_def
        account_elements_ok_def)
  have "stores_faucet demo_api demo_bridge 9 demo_conversion"
    by (simp add: stores_faucet_def demo_bridge_def faucet_key_def)
  moreover have "bg_map_keys demo_bridge = Some [faucet_key demo_api 0 9]"
    by (simp add: demo_bridge_def)
  moreover have "j = 9" if "j \<in> set (enumerate_registered_faucet_ids demo_api demo_bridge)" for j
    using that unfolding ids by simp
  ultimately have "find_registered_faucet_for_origin demo_api demo_bridge (cv_origin_address demo_conversion)
      (cv_origin_network demo_conversion) = Some (9, demo_conversion)"
    using registered_faucet_is_found [OF demo_account_elements, where i = 9 and c = demo_conversion and
        keys = "[faucet_key demo_api 0 9]" and bridge = demo_bridge]
    by (simp add: demo_conversion_def)
  then show ?thesis by (simp add: demo_conversion_def)
qed

end
