(* ===== verification/Service_State.thy ===== *)
theory Service_State
  imports Claim_Lock Trackers Block_State Metadata_Recovery
begin

text \<open>
  What a request and the writer worker share (\<^verbatim>\<open>src/src/service_state.rs\<close>, the types of
  \<^verbatim>\<open>src/src/writer_worker.rs\<close>): the configuration, the settings read from the environment, the decoded
  calls, and the state as one record. One field observes the outside: \<open>sv_submitted\<close> lists the notes
  handed to the Miden node, in order, with the transaction that caused each.

  A handler is a function from the state to a result or an error and the state it leaves;
  \<open>bindE\<close> is \<^verbatim>\<open>?\<close>: an error ends the handler and keeps the effects so far.
\<close>

section \<open>Sequencing with errors\<close>

type_synonym ('s, 'e, 'a) handler = "'s \<Rightarrow> ('e + 'a) \<times> 's"

definition okE :: "'a \<Rightarrow> ('s, 'e, 'a) handler" where
  "okE x s = (Inr x, s)"

definition errE :: "'e \<Rightarrow> ('s, 'e, 'a) handler" where
  "errE e s = (Inl e, s)"

definition liftE :: "'e + 'a \<Rightarrow> ('s, 'e, 'a) handler" where
  "liftE r s = (r, s)"

definition bindE :: "('s, 'e, 'a) handler \<Rightarrow> ('a \<Rightarrow> ('s, 'e, 'b) handler) \<Rightarrow> ('s, 'e, 'b) handler" where
  "bindE m f s = (case m s of (Inl e, s') \<Rightarrow> (Inl e, s') | (Inr x, s') \<Rightarrow> f x s')"

lemma bindE_simps [simp]:
  "bindE (okE x) f s = f x s"
  "bindE (errE e) f s = (Inl e, s)"
  "bindE (liftE (Inl e)) f s = (Inl e, s)"
  "bindE (liftE (Inr x)) f s = f x s"
  by (simp_all add: bindE_def okE_def errE_def liftE_def)

lemma okE_app [simp]: "okE x s = (Inr x, s)" and errE_app [simp]: "errE e s = (Inl e, s)"
  by (simp_all add: okE_def errE_def)

lemma bindE_cases:
  obtains (err) e s' where "m s = (Inl e, s')" and "bindE m f s = (Inl e, s')"
  | (ok) x s' where "m s = (Inr x, s')" and "bindE m f s = f x s'"
  by (cases "m s"; cases "fst (m s)") (auto simp: bindE_def)

section \<open>Settings\<close>

text \<open>\<^verbatim>\<open>str::trim\<close> on ASCII text.\<close>

definition is_space :: "char \<Rightarrow> bool" where
  "is_space c = (let n = (of_char c :: nat) in (9 \<le> n \<and> n \<le> 13) \<or> n = 32)"

definition trim :: "string \<Rightarrow> string" where
  "trim s = rev (dropWhile is_space (rev (dropWhile is_space s)))"

text \<open>Each setting is a function of the environment variable's value, if it is set.\<close>

definition claim_receipt_expiration_blocks :: "string option \<Rightarrow> u64" where
  "claim_receipt_expiration_blocks env =
     (case env of
        None \<Rightarrow> 120
      | Some v \<Rightarrow> (case u64_from_str_radix v 10 of None \<Rightarrow> 120 | Some blocks \<Rightarrow> if 1 \<le> blocks then blocks else 120))"

definition submission_note_expiration_delta :: "string option \<Rightarrow> nat" where
  "submission_note_expiration_delta env =
     (case env of
        None \<Rightarrow> 64
      | Some v \<Rightarrow>
          (case u64_from_str_radix v 10 of
             None \<Rightarrow> 64
           | Some blocks \<Rightarrow> if unat blocks < 2 ^ 16 \<and> 1 \<le> blocks then unat blocks else 64))"

definition claim_resubmit_ttl :: "string option \<Rightarrow> time" where
  "claim_resubmit_ttl env =
     (case env of
        None \<Rightarrow> 120
      | Some v \<Rightarrow> (case u64_from_str_radix (trim v) 10 of None \<Rightarrow> 120 | Some secs \<Rightarrow> unat secs))"

definition reservation_lease :: "string option \<Rightarrow> time" where
  "reservation_lease env =
     max 3 (case env of
              None \<Rightarrow> 90
            | Some v \<Rightarrow> (case u64_from_str_radix (trim v) 10 of None \<Rightarrow> 90 | Some secs \<Rightarrow> unat secs))"

definition parse_queue_depth_env :: "string option \<Rightarrow> nat" where
  "parse_queue_depth_env env =
     (case env of
        None \<Rightarrow> 64
      | Some v \<Rightarrow> (case u64_from_str_radix v 10 of None \<Rightarrow> 64 | Some n \<Rightarrow> if 1 \<le> n then unat n else 64))"

definition parse_tx_ttl_env :: "string option \<Rightarrow> time" where
  "parse_tx_ttl_env env =
     (case env of
        None \<Rightarrow> 300
      | Some v \<Rightarrow> (case u64_from_str_radix v 10 of None \<Rightarrow> 300 | Some n \<Rightarrow> if 1 \<le> n then unat n else 300))"

definition ger_evidence_wait_timeout :: "string option \<Rightarrow> time" where
  "ger_evidence_wait_timeout env =
     (case env of
        None \<Rightarrow> 900
      | Some v \<Rightarrow> (case u64_from_str_radix (trim v) 10 of None \<Rightarrow> 900 | Some secs \<Rightarrow> unat secs))"

lemma settings_positive:
  "1 \<le> claim_receipt_expiration_blocks env" "0 < submission_note_expiration_delta env"
  "submission_note_expiration_delta env < 2 ^ 16" "3 \<le> reservation_lease env"
  "0 < parse_queue_depth_env env" "0 < parse_tx_ttl_env env"
  by (auto simp: claim_receipt_expiration_blocks_def submission_note_expiration_delta_def reservation_lease_def
      parse_queue_depth_env_def parse_tx_ttl_env_def word_le_nat_alt split: option.splits)

section \<open>Calls and jobs\<close>

record claim_asset_call =
  cc_smt_proof_local :: "b256 list"
  cc_smt_proof_rollup :: "b256 list"
  cc_global_index :: u256
  cc_mainnet_exit_root :: b256
  cc_rollup_exit_root :: b256
  cc_origin_network :: u32
  cc_origin_token_address :: address
  cc_destination_network :: u32
  cc_destination_address :: address
  cc_amount :: u256
  cc_metadata :: "byte list"

datatype decoded_write_call = ClaimCall claim_asset_call | GerCall b256

datatype write_job_kind = KClaim | KGerInsert

record write_job =
  wj_call :: decoded_write_call
  wj_envelope :: tx_envelope
  wj_signer :: address
  wj_eth_tx_hash :: tx_hash
  wj_job_id :: nat

definition call_kind :: "decoded_write_call \<Rightarrow> write_job_kind" where
  "call_kind c = (case c of ClaimCall _ \<Rightarrow> KClaim | GerCall _ \<Rightarrow> KGerInsert)"

definition into_job :: "decoded_write_call \<Rightarrow> tx_envelope \<Rightarrow> address \<Rightarrow> tx_hash \<Rightarrow> nat \<Rightarrow> write_job" where
  "into_job c envelope signer eth_tx_hash job_id =
     \<lparr>wj_call = c, wj_envelope = envelope, wj_signer = signer, wj_eth_tx_hash = eth_tx_hash, wj_job_id = job_id\<rparr>"

datatype job_state = JQueued | JSubmitting | JCommitted u64 | JFailed

definition is_terminal :: "job_state \<Rightarrow> bool" where
  "is_terminal st = (case st of JCommitted _ \<Rightarrow> True | JFailed \<Rightarrow> True | _ \<Rightarrow> False)"

record in_flight_entry =
  if_state :: job_state
  if_eth_tx_hash :: tx_hash
  if_signer :: address
  if_kind :: write_job_kind
  if_job_id :: nat
  if_envelope :: tx_envelope
  if_created_at :: time
  if_terminal_at :: "time option"

definition in_flight_of_job :: "write_job \<Rightarrow> time \<Rightarrow> in_flight_entry" where
  "in_flight_of_job job now =
     \<lparr>if_state = JQueued, if_eth_tx_hash = wj_eth_tx_hash job, if_signer = wj_signer job,
      if_kind = call_kind (wj_call job), if_job_id = wj_job_id job, if_envelope = wj_envelope job,
      if_created_at = now, if_terminal_at = None\<rparr>"

text \<open>
  The handle of the writer: a bounded \<^verbatim>\<open>mpsc\<close> channel (its queued jobs, its capacity, whether the
  receiver is gone) and the map of jobs in flight.
\<close>

record writer_handle =
  wh_queue :: "write_job list"
  wh_queue_depth :: nat
  wh_closed :: bool
  wh_inflight :: "(tx_hash, in_flight_entry) hashmap"

definition available_capacity :: "writer_handle \<Rightarrow> nat" where
  "available_capacity w = wh_queue_depth w - length (wh_queue w)"

definition is_inflight :: "tx_hash \<Rightarrow> writer_handle \<Rightarrow> bool" where
  "is_inflight h w = hm_contains (wh_inflight w) h"

definition get_inflight :: "tx_hash \<Rightarrow> writer_handle \<Rightarrow> in_flight_entry option" where
  "get_inflight h w = hm_get (wh_inflight w) h"

definition has_non_terminal_nonce :: "address \<Rightarrow> u64 \<Rightarrow> writer_handle \<Rightarrow> bool" where
  "has_non_terminal_nonce signer nonce w =
     list_ex (\<lambda>(_, e). if_signer e = signer \<and> \<not> is_terminal (if_state e) \<and> envelope_nonce (if_envelope e) = nonce)
       (wh_inflight w)"

definition inflight_non_terminal_count :: "writer_handle \<Rightarrow> nat" where
  "inflight_non_terminal_count w = length (filter (\<lambda>(_, e). \<not> is_terminal (if_state e)) (wh_inflight w))"

definition count_non_terminal_for_signer :: "address \<Rightarrow> writer_handle \<Rightarrow> nat" where
  "count_non_terminal_for_signer signer w =
     length (filter (\<lambda>(_, e). if_signer e = signer \<and> \<not> is_terminal (if_state e)) (wh_inflight w))"

datatype try_enqueue_error = QueueFull | ShutDown

definition try_enqueue :: "write_job \<Rightarrow> time \<Rightarrow> writer_handle \<Rightarrow> (try_enqueue_error + unit) \<times> writer_handle" where
  "try_enqueue job now w =
     (let h = wj_eth_tx_hash job;
          w1 = w\<lparr>wh_inflight := hm_insert h (in_flight_of_job job now) (wh_inflight w)\<rparr>
      in if wh_closed w then (Inl ShutDown, w1\<lparr>wh_inflight := hm_remove h (wh_inflight w1)\<rparr>)
         else if available_capacity w1 = 0 then (Inl QueueFull, w1\<lparr>wh_inflight := hm_remove h (wh_inflight w1)\<rparr>)
         else (Inr (), w1\<lparr>wh_queue := wh_queue w1 @ [job]\<rparr>))"

section \<open>Configuration and state\<close>

datatype evidence_tag = Latest | Safe | Finalized

record service_config =
  cfg_chain_id :: u64
  cfg_network_id :: u32
  cfg_allowed_signers :: "address list option"
  cfg_allow_any_signer :: bool
  cfg_reject_unverified_ger :: bool
  cfg_l1_evidence_tag :: evidence_tag
  cfg_reject_zero_padding_addresses :: bool
  cfg_read_only :: bool
  cfg_claim_receipt_expiration_blocks :: u64
  cfg_claim_resubmit_ttl :: time
  cfg_reservation_lease :: time
  cfg_tx_ttl :: time
  cfg_mints_capacity :: nat

record service =
  sv_store :: mem_store
  sv_block_state :: block_state
  sv_block_tip :: u64
  sv_mints :: "expected_mint_row lru"
  sv_writer :: "writer_handle option"
  sv_submitted :: "(tx_hash \<times> string) list"

text \<open>Running a store operation inside the service, with or without an error.\<close>

definition on_store :: "(mem_store \<Rightarrow> 'a \<times> mem_store) \<Rightarrow> (service, 'e, 'a) handler" where
  "on_store f sv = (let (x, s) = f (sv_store sv) in (Inr x, sv\<lparr>sv_store := s\<rparr>))"

definition try_store :: "(store_error \<Rightarrow> 'e) \<Rightarrow> (mem_store \<Rightarrow> 'a fallible \<times> mem_store) \<Rightarrow> (service, 'e, 'a) handler" where
  "try_store err f sv =
     (case f (sv_store sv) of
        (Inl e, s) \<Rightarrow> (Inl (err e), sv\<lparr>sv_store := s\<rparr>)
      | (Inr x, s) \<Rightarrow> (Inr x, sv\<lparr>sv_store := s\<rparr>))"

definition read_store :: "(mem_store \<Rightarrow> 'a) \<Rightarrow> (service, 'e, 'a) handler" where
  "read_store f sv = (Inr (f (sv_store sv)), sv)"

lemma bindE_read_store [simp]: "bindE (read_store f) g sv = g (f (sv_store sv)) sv"
  by (simp add: bindE_def read_store_def)

lemma bindE_on_store [simp]:
  "bindE (on_store f) g sv = g (fst (f (sv_store sv))) (sv\<lparr>sv_store := snd (f (sv_store sv))\<rparr>)"
  by (simp add: bindE_def on_store_def Let_def split: prod.split)

section \<open>Assertions about handlers\<close>

named_theorems stableE_rules \<open>an assertion that a handler keeps, whether it succeeds or fails\<close>

definition stableE :: "('s \<Rightarrow> bool) \<Rightarrow> ('s, 'e, 'a) handler \<Rightarrow> bool" where
  "stableE P m = (\<forall>s. P s \<longrightarrow> P (snd (m s)))"

definition hoareE ::
    "('s \<Rightarrow> bool) \<Rightarrow> ('s, 'e, 'a) handler \<Rightarrow> ('a \<Rightarrow> 's \<Rightarrow> bool) \<Rightarrow> ('e \<Rightarrow> 's \<Rightarrow> bool) \<Rightarrow> bool" where
  "hoareE P m Q R = (\<forall>s. P s \<longrightarrow> (case m s of (Inr x, s') \<Rightarrow> Q x s' | (Inl e, s') \<Rightarrow> R e s'))"

lemma stableE_okE [stableE_rules]: "stableE P (okE x)"
  by (simp add: stableE_def)

lemma stableE_errE [stableE_rules]: "stableE P (errE e)"
  by (simp add: stableE_def)

lemma stableE_liftE [stableE_rules]: "stableE P (liftE r)"
  by (simp add: stableE_def liftE_def)

lemma stableE_read_store [stableE_rules]: "stableE P (read_store f)"
  by (simp add: stableE_def read_store_def)

lemma stableE_bindE [stableE_rules]:
  assumes "stableE P m" and "\<And>x. stableE P (f x)"
  shows "stableE P (bindE m f)"
  unfolding stableE_def
proof (intro allI impI)
  fix s assume "P s"
  with assms(1) have "P (snd (m s))" by (simp add: stableE_def)
  then show "P (snd (bindE m f s))"
    using assms(2) by (cases rule: bindE_cases [of m s f]) (auto simp: stableE_def)
qed

lemma stableE_if [stableE_rules]: "stableE P a \<Longrightarrow> stableE P b \<Longrightarrow> stableE P (if c then a else b)"
  by simp

lemma stableE_case_option [stableE_rules]:
  "stableE P a \<Longrightarrow> (\<And>x. stableE P (b x)) \<Longrightarrow> stableE P (case x of None \<Rightarrow> a | Some y \<Rightarrow> b y)"
  by (simp split: option.split)

lemma stableE_case_sum [stableE_rules]:
  "(\<And>x. stableE P (a x)) \<Longrightarrow> (\<And>x. stableE P (b x)) \<Longrightarrow> stableE P (case r of Inl x \<Rightarrow> a x | Inr y \<Rightarrow> b y)"
  by (simp split: sum.split)

lemma stableE_case_prod [stableE_rules]:
  "(\<And>x y. stableE P (a x y)) \<Longrightarrow> stableE P (case p of (x, y) \<Rightarrow> a x y)"
  by (simp split: prod.split)

lemma stableE_on_store [stableE_rules]:
  "(\<And>sv. P sv \<Longrightarrow> P (sv\<lparr>sv_store := snd (f (sv_store sv))\<rparr>)) \<Longrightarrow> stableE P (on_store f)"
  by (simp add: stableE_def on_store_def case_prod_unfold Let_def)

lemma stableE_try_store [stableE_rules]:
  assumes "\<And>sv. P sv \<Longrightarrow> P (sv\<lparr>sv_store := snd (f (sv_store sv))\<rparr>)"
  shows "stableE P (try_store err f)"
  unfolding stableE_def
proof (intro allI impI)
  fix sv assume "P sv"
  then have "P (sv\<lparr>sv_store := snd (f (sv_store sv))\<rparr>)" by (rule assms)
  then show "P (snd (try_store err f sv))"
    by (auto simp: try_store_def split: prod.split sum.split)
qed

lemma stableE_D: "stableE P m \<Longrightarrow> P sv \<Longrightarrow> m sv = (r, sv') \<Longrightarrow> P sv'"
  by (auto simp: stableE_def dest: spec [of _ sv])

lemma hoareE_bind:
  assumes "hoareE P m Q R" and "\<And>x. hoareE (Q x) (f x) Q' R"
  shows "hoareE P (bindE m f) Q' R"
  unfolding hoareE_def
proof (intro allI impI)
  fix s assume "P s"
  with assms(1) have "case m s of (Inr x, s') \<Rightarrow> Q x s' | (Inl e, s') \<Rightarrow> R e s'"
    by (simp add: hoareE_def)
  then show "case bindE m f s of (Inr x, s') \<Rightarrow> Q' x s' | (Inl e, s') \<Rightarrow> R e s'"
    using assms(2) by (cases rule: bindE_cases [of m s f]) (auto simp: hoareE_def)
qed

lemma hoareE_stable:
  assumes "stableE P m" and "\<And>s. P s \<Longrightarrow> R' s"
  shows "hoareE P m (\<lambda>_. P) (\<lambda>_. R')"
  unfolding hoareE_def
proof (intro allI impI)
  fix s assume "P s"
  with assms(1) have "P (snd (m s))" by (simp add: stableE_def)
  with assms(2) show "case m s of (Inr x, s') \<Rightarrow> P s' | (Inl e, s') \<Rightarrow> R' s'"
    by (auto split: prod.split sum.split)
qed

lemma hoareE_okE: "(\<And>s. P s \<Longrightarrow> Q x s) \<Longrightarrow> hoareE P (okE x) Q R"
  by (simp add: hoareE_def)

lemma hoareE_errE: "(\<And>s. P s \<Longrightarrow> R e s) \<Longrightarrow> hoareE P (errE e) Q R"
  by (simp add: hoareE_def)

lemma hoareE_weaken:
  assumes "hoareE P m Q R" and "\<And>x s. Q x s \<Longrightarrow> Q' x s" and "\<And>e s. R e s \<Longrightarrow> R' e s"
  shows "hoareE P m Q' R'"
  using assms by (fastforce simp: hoareE_def split: prod.split sum.split prod.splits sum.splits)

lemma hoareE_D:
  "hoareE P m Q R \<Longrightarrow> P s \<Longrightarrow> m s = (r, s') \<Longrightarrow> (case r of Inr x \<Rightarrow> Q x s' | Inl e \<Rightarrow> R e s')"
  by (auto simp: hoareE_def split: sum.splits)

end
