(* ===== verification/Claim_Publish.thy ===== *)
theory Claim_Publish
  imports Service_State
begin

text \<open>
  Publishing a claim (\<^verbatim>\<open>src/src/claim.rs\<close>, with \<^verbatim>\<open>src/src/address_mapper.rs\<close> and the error classification
  of \<^verbatim>\<open>src/src/account_recovery.rs\<close>): the canonical proof data, the faucet of the token, the CLAIM note,
  and the hand-over of that note to the Miden node behind the claim's submission fence.

  The Miden client is a parameter: \<open>claim_client\<close> has its answers for one attempt. Between the steps
  other tasks may run; what they do to claims is a list of claim operations per gap.
\<close>

section \<open>Errors\<close>

text \<open>The errors of the write path, one type as \<^verbatim>\<open>anyhow::Error\<close> is.\<close>

datatype client_error = AccountDataNotFound | IncorrectInitialCommitment | OtherClientError string

datatype write_error =
    CeClient client_error
  | CeStore store_error
  | CeMetadata metadata_error
  | CeFence fence_error
  | CeScaleInvariant account_id
  | CeAmount string
  | CeUnknownAddress address
  | CeZeroPaddingDisabled address
  | CeReadOnly
  | CePeerFailedTwice
  | CeNotCommitted
  | CeWrongNetwork u32
  | CeAlreadySubmitted u256
  | CeGerNotObserved b256 evidence_tag
  | CeHandoffChanged tx_hash
  | CePanic string

text \<open>\<^verbatim>\<open>str::contains\<close>.\<close>

fun contains_text :: "string \<Rightarrow> string \<Rightarrow> bool" where
  "contains_text [] pat = (pat = [])"
| "contains_text (c # cs) pat = (take (length pat) (c # cs) = pat \<or> contains_text cs pat)"

definition is_recoverable_account_error :: "write_error \<Rightarrow> bool" where
  "is_recoverable_account_error e =
     (case e of
        CeClient AccountDataNotFound \<Rightarrow> True
      | CeClient IncorrectInitialCommitment \<Rightarrow> True
      | CeClient (OtherClientError text) \<Rightarrow>
          contains_text text ''account data wasn't found'' \<or>
          contains_text text ''incorrect account initial commitment'' \<or>
          contains_text text ''IncorrectAccountInitialCommitment''
      | _ \<Rightarrow> False)"

section \<open>Addresses\<close>

definition is_miden_compatible_address :: "address \<Rightarrow> bool" where
  "is_miden_compatible_address a = list_all (\<lambda>b. b = 0) (take 4 (be_bytes 20 a))"

text \<open>\<open>embedded\<close> is \<^verbatim>\<open>EthEmbeddedAccountId::try_from\<close>.\<close>

definition account_id_from_address :: "(address \<Rightarrow> account_id option) \<Rightarrow> address \<Rightarrow> account_id option" where
  "account_id_from_address embedded a = (if \<not> is_miden_compatible_address a then None else embedded a)"

definition resolve_address_with_policy ::
    "(address \<Rightarrow> account_id option) \<Rightarrow> address \<Rightarrow> bool \<Rightarrow> mem_store \<Rightarrow> write_error + account_id" where
  "resolve_address_with_policy embedded a reject_zero_padding s =
     (case get_address_mapping a s of
        Some i \<Rightarrow> Inr i
      | None \<Rightarrow>
          if reject_zero_padding then Inl (CeZeroPaddingDisabled a)
          else case account_id_from_address embedded a of
                 Some i \<Rightarrow> Inr i
               | None \<Rightarrow> Inl (CeUnknownAddress a))"

definition resolve_address ::
    "(address \<Rightarrow> account_id option) \<Rightarrow> address \<Rightarrow> mem_store \<Rightarrow> write_error + account_id" where
  "resolve_address embedded a s = resolve_address_with_policy embedded a False s"

section \<open>The CLAIM note\<close>

definition is_mainnet_global_index :: "byte list \<Rightarrow> bool" where
  "is_mainnet_global_index gi = ((from_be_bytes (take 4 (drop 20 gi)) :: u32) = 1)"

record proof_data =
  pd_smt_proof_local :: "b256 list"
  pd_smt_proof_rollup :: "b256 list"
  pd_global_index :: b256
  pd_mainnet_exit_root :: b256
  pd_rollup_exit_root :: b256

definition build_canonical_proof_data :: "claim_asset_call \<Rightarrow> proof_data" where
  "build_canonical_proof_data params =
     (let global_index_bytes = be_bytes 32 (cc_global_index params);
          is_mainnet = is_mainnet_global_index global_index_bytes;
          bytes = (if is_mainnet then take 24 global_index_bytes @ replicate 4 0 @ drop 28 global_index_bytes
                   else global_index_bytes)
      in \<lparr>pd_smt_proof_local = cc_smt_proof_local params,
          pd_smt_proof_rollup = (if is_mainnet then replicate 32 0 else cc_smt_proof_rollup params),
          pd_global_index = from_be_bytes bytes,
          pd_mainnet_exit_root = cc_mainnet_exit_root params,
          pd_rollup_exit_root = cc_rollup_exit_root params\<rparr>)"

record leaf_data =
  lf_origin_network :: u32
  lf_origin_token_address :: address
  lf_destination_network :: u32
  lf_destination_address :: address
  lf_amount :: u256
  lf_metadata_hash :: b256

record claim_note_storage =
  cs_proof_data :: proof_data
  cs_leaf_data :: leaf_data
  cs_miden_claim_amount :: u64

record faucet =
  fc_id :: account_id
  fc_decimals :: u8
  fc_origin_token_decimals :: u8

definition faucet_of_entry :: "faucet_entry \<Rightarrow> faucet" where
  "faucet_of_entry entry =
     \<lparr>fc_id = fe_faucet_id entry, fc_decimals = fe_miden_decimals entry,
      fc_origin_token_decimals = fe_origin_decimals entry\<rparr>"

section \<open>The Miden client\<close>

text \<open>What the single-flight registry says when this task wants to provision a faucet.\<close>

datatype peer = NoPeer | PeerSettled faucet | PeerFailed

record claim_client =
  cl_closed :: bool
  cl_peer :: "nat \<Rightarrow> peer"
  cl_add_account :: "client_error + unit"
  cl_bridge_account :: "bridge_storage option"
  cl_tracked :: "account_id \<Rightarrow> faucet_account option"
  cl_imported :: "account_id \<Rightarrow> bool"
  cl_account :: "account_id \<Rightarrow> string + faucet_account option"
  cl_deploy_faucet :: "string \<Rightarrow> u8 \<Rightarrow> client_error + account_id"
  cl_scale_to_token_amount :: "u256 \<Rightarrow> u8 \<Rightarrow> string + u64"
  cl_embedded :: "address \<Rightarrow> account_id option"
  cl_claim_note :: "claim_note_storage \<Rightarrow> client_error + string \<times> string"
  cl_execute :: "client_error + u64"
  cl_prove :: "client_error + unit"
  cl_prove_fallback :: "(client_error + unit) option"
  cl_submit :: "client_error + unit"
  cl_apply :: "client_error + unit"
  cl_output_note_id :: b256
  cl_committed :: "client_error + bool"
  cl_others :: "nat \<Rightarrow> claim_op list"
  cl_now :: "nat \<Rightarrow> time"

text \<open>What other tasks do to claims at the \<open>k\<close>-th gap of an attempt.\<close>

definition others_run :: "externals \<Rightarrow> claim_client \<Rightarrow> nat \<Rightarrow> (service, write_error, unit) handler" where
  "others_run E C k sv = (Inr (), sv\<lparr>sv_store := fold (claim_exec E) (cl_others C k) (sv_store sv)\<rparr>)"

definition client_result :: "client_error + 'a \<Rightarrow> (service, write_error, 'a) handler" where
  "client_result r = liftE (case r of Inl e \<Rightarrow> Inl (CeClient e) | Inr x \<Rightarrow> Inr x)"

definition ensure_writable :: "service_config \<Rightarrow> (service, write_error, unit) handler" where
  "ensure_writable cfg = (if cfg_read_only cfg then errE CeReadOnly else okE ())"

section \<open>The faucet of a token\<close>

definition cap_stored_faucet_metadata :: "byte list \<Rightarrow> byte list" where
  "cap_stored_faucet_metadata metadata = (if MAX_BRIDGE_EVENT_METADATA_BYTES < length metadata then [] else metadata)"

definition create_and_register_faucet ::
    "service_config \<Rightarrow> claim_client \<Rightarrow> string \<Rightarrow> u8 \<Rightarrow> (service, write_error, account_id) handler" where
  "create_and_register_faucet cfg C symbol miden_decimals =
     bindE (client_result (cl_add_account C)) (\<lambda>_.
     bindE (ensure_writable cfg) (\<lambda>_.
     client_result (cl_deploy_faucet C symbol miden_decimals)))"

definition deploy_new_faucet ::
    "externals \<Rightarrow> service_config \<Rightarrow> claim_client \<Rightarrow> address \<Rightarrow> u32 \<Rightarrow> byte list \<Rightarrow> (service, write_error, faucet) handler" where
  "deploy_new_faucet E cfg C token_address origin_network metadata =
     bindE (liftE (case parse_token_metadata E metadata token_address of Inl e \<Rightarrow> Inl (CeMetadata e) | Inr r \<Rightarrow> Inr r))
       (\<lambda>(symbol, origin_decimals).
     let (miden_decimals, checked_scale) = faucet_decimals origin_decimals
     in case checked_scale of
          None \<Rightarrow> errE (CeScaleInvariant 0)
        | Some scale \<Rightarrow>
            bindE (create_and_register_faucet cfg C symbol miden_decimals) (\<lambda>faucet_id.
            bindE (try_store CeStore (register_faucet
                \<lparr>fe_faucet_id = faucet_id, fe_origin_address = token_address, fe_origin_network = origin_network,
                 fe_symbol = symbol, fe_origin_decimals = origin_decimals, fe_miden_decimals = miden_decimals,
                 fe_scale = scale, fe_metadata = cap_stored_faucet_metadata metadata\<rparr>)) (\<lambda>_.
            okE \<lparr>fc_id = faucet_id, fc_decimals = miden_decimals, fc_origin_token_decimals = origin_decimals\<rparr>)))"

definition provision_faucet ::
    "externals \<Rightarrow> account_api \<Rightarrow> service_config \<Rightarrow> claim_client \<Rightarrow> address \<Rightarrow> u32 \<Rightarrow> byte list \<Rightarrow>
     (service, write_error, faucet) handler" where
  "provision_faucet E A cfg C token_address origin_network metadata =
     bindE (read_store (get_faucet_by_origin token_address origin_network)) (\<lambda>known.
     case known of
       Some entry \<Rightarrow> okE (faucet_of_entry entry)
     | None \<Rightarrow>
         (case (case cl_bridge_account C of
                  None \<Rightarrow> None
                | Some bridge \<Rightarrow>
                    map_option (Pair bridge) (find_registered_faucet_for_origin A bridge token_address origin_network)) of
            None \<Rightarrow> deploy_new_faucet E cfg C token_address origin_network metadata
          | Some (bridge, existing_id, conversion) \<Rightarrow>
              (case rebuild_faucet_entry_from_chain A bridge existing_id conversion (cl_tracked C existing_id)
                      (cl_imported C existing_id) (cl_account C existing_id) None of
                 Inl _ \<Rightarrow> deploy_new_faucet E cfg C token_address origin_network metadata
               | Inr entry \<Rightarrow>
                   bindE (try_store CeStore (register_faucet (entry\<lparr>fe_metadata := cap_stored_faucet_metadata metadata\<rparr>)))
                     (\<lambda>_. okE \<lparr>fc_id = existing_id, fc_decimals = fe_miden_decimals entry,
                              fc_origin_token_decimals = fe_origin_decimals entry\<rparr>))))"

text \<open>One round of the retry loop: the fast path, then provisioning here or waiting for a peer.\<close>

definition find_or_provision ::
    "externals \<Rightarrow> account_api \<Rightarrow> service_config \<Rightarrow> claim_client \<Rightarrow> address \<Rightarrow> u32 \<Rightarrow> byte list \<Rightarrow> nat \<Rightarrow>
     (service, write_error, faucet) handler \<Rightarrow> (service, write_error, faucet) handler" where
  "find_or_provision E A cfg C token_address origin_network metadata i again =
     bindE (read_store (get_faucet_by_origin token_address origin_network)) (\<lambda>known.
     case known of
       Some entry \<Rightarrow> okE (faucet_of_entry entry)
     | None \<Rightarrow>
         (case cl_peer C i of
            NoPeer \<Rightarrow> provision_faucet E A cfg C token_address origin_network metadata
          | PeerSettled f \<Rightarrow> okE f
          | PeerFailed \<Rightarrow> again))"

definition find_or_create_faucet ::
    "externals \<Rightarrow> account_api \<Rightarrow> service_config \<Rightarrow> claim_client \<Rightarrow> address \<Rightarrow> u32 \<Rightarrow> byte list \<Rightarrow>
     (service, write_error, faucet) handler" where
  "find_or_create_faucet E A cfg C token_address origin_network metadata =
     find_or_provision E A cfg C token_address origin_network metadata 0
       (find_or_provision E A cfg C token_address origin_network metadata 1 (errE CePeerFailedTwice))"

section \<open>Creating and handing over the note\<close>

definition scale_claim_amount :: "claim_client \<Rightarrow> u256 \<Rightarrow> faucet \<Rightarrow> write_error + u64" where
  "scale_claim_amount C amount f =
     (if fc_decimals f \<le> fc_origin_token_decimals f
      then (case cl_scale_to_token_amount C amount (fc_origin_token_decimals f - fc_decimals f) of
              Inl e \<Rightarrow> Inl (CeAmount e)
            | Inr v \<Rightarrow> Inr v)
      else Inl (CeScaleInvariant (fc_id f)))"

definition leaf_of_call :: "account_api \<Rightarrow> claim_asset_call \<Rightarrow> leaf_data" where
  "leaf_of_call A params =
     \<lparr>lf_origin_network = cc_origin_network params, lf_origin_token_address = cc_origin_token_address params,
      lf_destination_network = cc_destination_network params,
      lf_destination_address = cc_destination_address params, lf_amount = cc_amount params,
      lf_metadata_hash = aa_metadata_hash A (cc_metadata params)\<rparr>"

definition create_claim ::
    "account_api \<Rightarrow> claim_client \<Rightarrow> bool \<Rightarrow> claim_asset_call \<Rightarrow> faucet \<Rightarrow> (service, write_error, string \<times> string) handler" where
  "create_claim A C reject_zero_padding params f =
     bindE (read_store (resolve_address_with_policy (cl_embedded C) (cc_destination_address params) reject_zero_padding))
       (\<lambda>dest. bindE (liftE dest) (\<lambda>_.
     bindE (liftE (scale_claim_amount C (cc_amount params) f)) (\<lambda>amount.
     client_result (cl_claim_note C
       \<lparr>cs_proof_data = build_canonical_proof_data params, cs_leaf_data = leaf_of_call A params,
        cs_miden_claim_amount = amount\<rparr>))))"

record publish_claim_txn =
  pc_expires_at :: u64
  pc_note_commitment :: string

definition prove_claim :: "claim_client \<Rightarrow> (service, write_error, unit) handler" where
  "prove_claim C =
     (case (cl_prove C, cl_prove_fallback C) of
        (Inr _, _) \<Rightarrow> okE ()
      | (Inl e, None) \<Rightarrow> errE (CeClient e)
      | (Inl _, Some fallback) \<Rightarrow> client_result fallback)"

text \<open>From here on the note may exist on the node, whatever the client answers.\<close>

definition submit_note :: "tx_hash \<Rightarrow> string \<Rightarrow> client_error + unit \<Rightarrow> (service, write_error, unit) handler" where
  "submit_note h note_id r =
     bindE (\<lambda>sv. (Inr (), sv\<lparr>sv_submitted := sv_submitted sv @ [(h, note_id)]\<rparr>)) (\<lambda>_. client_result r)"

definition with_fence :: "(mem_store \<Rightarrow> (fence_error + 'a) \<times> mem_store) \<Rightarrow> (service, write_error, 'a) handler" where
  "with_fence f sv =
     (case f (sv_store sv) of
        (Inl e, s) \<Rightarrow> (Inl (CeFence e), sv\<lparr>sv_store := s\<rparr>)
      | (Inr x, s) \<Rightarrow> (Inr x, sv\<lparr>sv_store := s\<rparr>))"

definition on_mints ::
    "(expected_mint_row lru \<times> mem_store \<Rightarrow> expected_mint_row lru \<times> mem_store) \<Rightarrow> (service, write_error, unit) handler" where
  "on_mints f sv = (let (c, s) = f (sv_mints sv, sv_store sv) in (Inr (), sv\<lparr>sv_mints := c, sv_store := s\<rparr>))"

definition publish_claim_internal ::
    "externals \<Rightarrow> account_api \<Rightarrow> service_config \<Rightarrow> claim_client \<Rightarrow> claim_guard \<Rightarrow> claim_asset_call \<Rightarrow> u64 \<Rightarrow>
     (service, write_error, publish_claim_txn) handler" where
  "publish_claim_internal E A cfg C fence params latest_block_num =
     bindE (find_or_create_faucet E A cfg C (cc_origin_token_address params) (cc_origin_network params)
              (cc_metadata params)) (\<lambda>f.
     bindE (create_claim A C (cfg_reject_zero_padding_addresses cfg) params f) (\<lambda>(claim_note_id, note_commitment).
     let expires_at = latest_block_num + cfg_claim_receipt_expiration_blocks cfg
     in
     bindE (client_result (cl_execute C)) (\<lambda>expiration_block.
     bindE (others_run E C 0) (\<lambda>_.
     bindE (prove_claim C) (\<lambda>_.
     bindE (ensure_writable cfg) (\<lambda>_.
     bindE (with_fence (fence_prepare E fence note_commitment claim_note_id expiration_block (cl_now C 0))) (\<lambda>_.
     bindE (submit_note (cg_owner_tx_hash fence) claim_note_id (cl_submit C)) (\<lambda>_.
     bindE (client_result (cl_apply C)) (\<lambda>_.
     bindE (if cl_output_note_id C \<noteq> 0
            then on_mints (record_expected E (cfg_mints_capacity cfg) (cc_global_index params) (cl_output_note_id C))
            else okE ()) (\<lambda>_.
     bindE (others_run E C 1) (\<lambda>_.
     bindE (client_result (cl_committed C)) (\<lambda>committed.
     if committed
     then bindE (with_fence (fence_confirm E fence note_commitment)) (\<lambda>_.
          bindE (on_mints (mark_landed (cc_global_index params))) (\<lambda>_.
          okE \<lparr>pc_expires_at = expires_at, pc_note_commitment = note_commitment\<rparr>))
     else errE CeNotCommitted))))))))))))"

definition attempt_publish_claim ::
    "externals \<Rightarrow> account_api \<Rightarrow> service_config \<Rightarrow> claim_client \<Rightarrow> claim_guard \<Rightarrow> claim_asset_call \<Rightarrow> u64 \<Rightarrow>
     tx_hash \<Rightarrow> tx_envelope \<Rightarrow> address \<Rightarrow> (service, write_error, publish_claim_txn) handler" where
  "attempt_publish_claim E A cfg C fence params latest_block_num txn_hash txn_envelope signer =
     (if cl_closed C then errE (CeClient (OtherClientError ''request channel closed''))
      else
        bindE (publish_claim_internal E A cfg C fence params latest_block_num) (\<lambda>v.
        bindE (try_store CeStore (txn_begin_if_absent E txn_hash
                 \<lparr>te_id = None, te_envelope = txn_envelope, te_signer = signer,
                  te_expires_at = Some (pc_expires_at v), te_logs = []\<rparr>)) (\<lambda>_.
        okE v)))"

definition publish_claim ::
    "externals \<Rightarrow> account_api \<Rightarrow> service_config \<Rightarrow> claim_client \<Rightarrow> claim_client \<Rightarrow> claim_guard \<Rightarrow> claim_asset_call \<Rightarrow>
     u64 \<Rightarrow> tx_hash \<Rightarrow> tx_envelope \<Rightarrow> address \<Rightarrow> (service, write_error, publish_claim_txn) handler" where
  "publish_claim E A cfg C C' fence params latest_block_num txn_hash txn_envelope signer sv =
     (case attempt_publish_claim E A cfg C fence params latest_block_num txn_hash txn_envelope signer sv of
        (Inr v, sv') \<Rightarrow> (Inr v, sv')
      | (Inl err, sv') \<Rightarrow>
          if is_recoverable_account_error err \<and> get_note_link_for_tx (ext_fmt_hash E txn_hash) (sv_store sv') = None
          then attempt_publish_claim E A cfg C' fence params latest_block_num txn_hash txn_envelope signer sv'
          else (Inl err, sv'))"

end
