(* ===== verification/Claim_Worker.thy ===== *)
theory Claim_Worker
  imports Claim_Publish Store_Nonces
begin

text \<open>
  The claim side of the writer worker (\<^verbatim>\<open>worker_handle_claim_asset\<close> and what it calls, of
  \<^verbatim>\<open>src/src/service_send_raw_txn.rs\<close>): network and amount checks, the claim lock, the landed claim that is
  accepted and reverted, the unresolvable destination that is quarantined, and the publication
  under the guard of the lock.
\<close>

section \<open>Receipts written by the service\<close>

definition record_local_pending_tx ::
    "externals \<Rightarrow> tx_hash \<Rightarrow> tx_envelope \<Rightarrow> address \<Rightarrow> u64 option \<Rightarrow> log_data_t list \<Rightarrow> (service, write_error, unit) handler" where
  "record_local_pending_tx E h txn_envelope signer expires_at logs =
     bindE (try_store CeStore (txn_begin_if_absent E h
              \<lparr>te_id = None, te_envelope = txn_envelope, te_signer = signer, te_expires_at = expires_at, te_logs = logs\<rparr>))
       (\<lambda>_. okE ())"

text \<open>Reading a block hash may extend the block cache.\<close>

definition block_hash_of :: "externals \<Rightarrow> u64 \<Rightarrow> (service, 'e, b256) handler" where
  "block_hash_of E n sv =
     (let (h, bs) = get_block_hash E n (sv_block_state sv) in (Inr h, sv\<lparr>sv_block_state := bs\<rparr>))"

definition record_local_success_at_block ::
    "externals \<Rightarrow> tx_hash \<Rightarrow> tx_envelope \<Rightarrow> address \<Rightarrow> u64 \<Rightarrow> log_data_t list \<Rightarrow> (service, write_error, unit) handler" where
  "record_local_success_at_block E h txn_envelope signer block_num logs =
     bindE (record_local_pending_tx E h txn_envelope signer None logs) (\<lambda>_.
     bindE (block_hash_of E block_num) (\<lambda>block_hash.
     try_store CeStore (txn_commit E h (Inr ()) block_num block_hash)))"

definition record_local_immediate_success ::
    "externals \<Rightarrow> tx_hash \<Rightarrow> tx_envelope \<Rightarrow> address \<Rightarrow> log_data_t list \<Rightarrow> (service, write_error, unit) handler" where
  "record_local_immediate_success E h txn_envelope signer logs =
     bindE (read_store latest_block_number) (\<lambda>block_num.
     record_local_success_at_block E h txn_envelope signer block_num logs)"

text \<open>Decimal text of an integer.\<close>

fun decimal_text :: "nat \<Rightarrow> string" where
  "decimal_text n = (if n < 10 then [char_of (48 + n)] else decimal_text (n div 10) @ [char_of (48 + n mod 10)])"

declare decimal_text.simps [simp del]

definition accept_and_revert_landed_claim ::
    "externals \<Rightarrow> claim_asset_call \<Rightarrow> tx_hash \<Rightarrow> tx_envelope \<Rightarrow> address \<Rightarrow> string \<Rightarrow> u64 \<Rightarrow> (service, write_error, unit) handler" where
  "accept_and_revert_landed_claim E params h txn_envelope signer signer_str tx_nonce =
     bindE (read_store latest_block_number) (\<lambda>block_num.
     bindE (block_hash_of E block_num) (\<lambda>block_hash.
     bindE (on_store (commit_reverted_receipt_and_advance_nonce E h
              \<lparr>te_id = None, te_envelope = txn_envelope, te_signer = signer, te_expires_at = None, te_logs = []\<rparr>
              (''claim for globalIndex '' @ decimal_text (unat (cc_global_index params)) @
               '' already landed (AlreadyClaimed); reverted (#55)'') block_num signer_str tx_nonce)) (\<lambda>_.
     okE ())))"

section \<open>Publishing under the lock\<close>

text \<open>The log of \<^verbatim>\<open>ClaimEvent::from(params)\<close>: its signature hash and its five words.\<close>

definition claim_event_log :: "externals \<Rightarrow> claim_asset_call \<Rightarrow> log_data_t" where
  "claim_event_log E params =
     \<lparr>ld_topics = [ext_keccak E (ascii_bytes ''ClaimEvent(uint256,uint32,address,address,uint256)'')],
      ld_data = claim_event_bytes (cc_global_index params) (cc_origin_network params)
                  (cc_origin_token_address params) (cc_destination_address params) (cc_amount params)\<rparr>"

record worker_client =
  wk_others :: "nat \<Rightarrow> claim_op list"
  wk_now :: "nat \<Rightarrow> time"
  wk_first :: claim_client
  wk_second :: claim_client

definition publish_and_record_claim ::
    "externals \<Rightarrow> account_api \<Rightarrow> service_config \<Rightarrow> worker_client \<Rightarrow> claim_asset_call \<Rightarrow> tx_hash \<Rightarrow> tx_envelope \<Rightarrow>
     address \<Rightarrow> claim_guard \<Rightarrow> (service, write_error, unit) handler" where
  "publish_and_record_claim E A cfg W params h txn_envelope signer guard sv =
     (case publish_claim E A cfg (wk_first W) (wk_second W) guard params (latest_block_number (sv_store sv)) h
             txn_envelope signer sv of
        (Inr _, sv') \<Rightarrow> (Inr (), sv')
      | (Inl err, sv') \<Rightarrow>
          if get_note_handoff_for_tx (ext_fmt_hash E h) (sv_store sv') \<noteq> None then (Inr (), sv') else (Inl err, sv'))"

definition release_guard :: "claim_guard \<Rightarrow> (service, write_error, unit) handler" where
  "release_guard g sv = (Inr (), sv\<lparr>sv_store := snd (guard_release g (sv_store sv))\<rparr>)"

text \<open>A destination that resolves to no account: quarantine the claim and complete its receipt with the event.\<close>

definition quarantine_unclaimable ::
    "externals \<Rightarrow> claim_asset_call \<Rightarrow> tx_hash \<Rightarrow> tx_envelope \<Rightarrow> address \<Rightarrow> claim_guard \<Rightarrow> (service, write_error, unit) handler" where
  "quarantine_unclaimable E params h txn_envelope signer guard =
     bindE (on_store (record_unclaimable_claim
              \<lparr>uc_global_index = cc_global_index params, uc_destination_address = cc_destination_address params,
               uc_origin_network = cc_origin_network params, uc_origin_address = cc_origin_token_address params,
               uc_amount = cc_amount params, uc_reason = UnresolvableDestination, uc_eth_tx_hash = h\<rparr>)) (\<lambda>_.
     bindE (record_local_immediate_success E h txn_envelope signer [claim_event_log E params]) (\<lambda>_.
     release_guard guard))"

text \<open>An early \<^verbatim>\<open>?\<close> return drops the guard, which releases the lock as well.\<close>

definition dropping :: "claim_guard \<Rightarrow> (service, write_error, 'a) handler \<Rightarrow> (service, write_error, 'a) handler" where
  "dropping g m sv =
     (case m sv of
        (Inr x, sv') \<Rightarrow> (Inr x, sv')
      | (Inl e, sv') \<Rightarrow> (Inl e, sv'\<lparr>sv_store := snd (guard_release g (sv_store sv'))\<rparr>))"

definition worker_handle_claim_asset ::
    "externals \<Rightarrow> account_api \<Rightarrow> service_config \<Rightarrow> worker_client \<Rightarrow> claim_asset_call \<Rightarrow> tx_hash \<Rightarrow> tx_envelope \<Rightarrow>
     address \<Rightarrow> (service, write_error, unit) handler" where
  "worker_handle_claim_asset E A cfg W params h txn_envelope signer =
     (if cc_destination_network params \<noteq> cfg_network_id cfg
      then errE (CeWrongNetwork (cc_destination_network params))
      else if cc_amount params = 0
      then record_local_immediate_success E h txn_envelope signer []
      else
        bindE (on_store (acquire_claim_lock E (wk_others W) (wk_now W) (cc_global_index params) h
                 (cfg_claim_resubmit_ttl cfg))) (\<lambda>outcome.
        case outcome of
          Landed \<Rightarrow>
            accept_and_revert_landed_claim E params h txn_envelope signer (ext_fmt_address E signer)
              (envelope_nonce txn_envelope)
        | InFlight \<Rightarrow> errE (CeAlreadySubmitted (cc_global_index params))
        | Acquired fence \<Rightarrow>
            let guard = guard_new (cc_global_index params) h fence
            in bindE (read_store (resolve_address (cl_embedded (wk_first W)) (cc_destination_address params))) (\<lambda>dest.
               case dest of
                 Inl _ \<Rightarrow> dropping guard (quarantine_unclaimable E params h txn_envelope signer guard)
               | Inr _ \<Rightarrow>
                   dropping guard (publish_and_record_claim E A cfg W params h txn_envelope signer guard))))"

end
