(* ===== verification/Claim_Submission.thy ===== *)
theory Claim_Submission
  imports Claim_Worker
begin

text \<open>
  What the claim worker guarantees about notes it hands to the Miden node: one note per run at
  most, linked to its transaction before the hand-over, never followed by a second one after an
  ambiguous answer, and never followed by an error.
\<close>

section \<open>Links survive the operations of other tasks\<close>

definition linked_to :: "externals \<Rightarrow> tx_hash \<Rightarrow> string \<Rightarrow> mem_store \<Rightarrow> bool" where
  "linked_to E h note s =
     (case hm_get (tx_note_links s) (ext_fmt_hash E h) of
        None \<Rightarrow> False | Some l \<Rightarrow> nh_note_id l = Some note)"

definition keeps_link :: "externals \<Rightarrow> tx_hash \<Rightarrow> claim_op \<Rightarrow> bool" where
  "keeps_link E h op = (case op of OpClearExpired t c \<Rightarrow> t \<noteq> ext_fmt_hash E h | _ \<Rightarrow> True)"

lemma linked_to_confirms:
  "confirms s s' \<Longrightarrow> linked_to E h note s \<Longrightarrow> linked_to E h note s'"
  unfolding confirms_def linked_to_def
  by (auto split: option.splits) (metis option.distinct(1) option.inject option.simps(9) submit_link_simps(3))+

lemma linked_to_exec:
  assumes "linked_to E h note s" and "keeps_link E h op"
  shows "linked_to E h note (claim_exec E op s)"
proof (cases op)
  case (OpClearExpired t c)
  with assms show ?thesis
    by (cases rule: clear_expired_cases [of E t c s]) (auto simp: claim_exec_def keeps_link_def linked_to_def)
next
  case (OpPrepare gi owner f h' c i x now)
  with assms(1) show ?thesis
    by (auto simp: claim_exec_def linked_to_def prepare_claim_submission_fenced_def Let_def split: option.splits if_splits)
next
  case (OpLand n ba bn bh txh gi on oa da am now)
  with assms(1) show ?thesis
    by (auto simp: claim_exec_def linked_to_def confirm_link_of_def split: option.splits)
qed (use assms(1) linked_to_confirms [OF confirms_handoff] linked_to_confirms [OF confirms_by_commitment]
      linked_to_confirms [OF confirms_prepared] in \<open>auto simp: claim_exec_def\<close>,
    auto simp: linked_to_def try_claim_fenced_def try_reclaim_claim_fenced_def unclaim_fenced_def Let_def
      split: option.splits)

lemma linked_to_run:
  "linked_to E h note s \<Longrightarrow> list_all (keeps_link E h) ops \<Longrightarrow> linked_to E h note (fold (claim_exec E) ops s)"
  by (induction ops arbitrary: s) (simp_all add: linked_to_exec)

lemma linked_to_cong: "tx_note_links s' = tx_note_links s \<Longrightarrow> linked_to E h note s' = linked_to E h note s"
  by (simp add: linked_to_def)

section \<open>Assertions\<close>

text \<open>Nothing was handed over; or exactly one note was, and it is linked.\<close>

definition idle :: "(tx_hash \<times> string) list \<Rightarrow> service \<Rightarrow> bool" where
  "idle T sv = (sv_submitted sv = T)"

definition handed_over :: "externals \<Rightarrow> (tx_hash \<times> string) list \<Rightarrow> tx_hash \<Rightarrow> service \<Rightarrow> bool" where
  "handed_over E T h sv = (\<exists>note. sv_submitted sv = T @ [(h, note)] \<and> linked_to E h note (sv_store sv))"

lemma handed_over_link:
  "handed_over E T h sv \<Longrightarrow> get_note_link_for_tx (ext_fmt_hash E h) (sv_store sv) \<noteq> None"
  by (auto simp: handed_over_def linked_to_def get_note_link_for_tx_def split: option.splits)

lemma handed_over_handoff:
  "handed_over E T h sv \<Longrightarrow> get_note_handoff_for_tx (ext_fmt_hash E h) (sv_store sv) \<noteq> None"
  by (auto simp: handed_over_def linked_to_def get_note_handoff_for_tx_def split: option.splits)

lemma handed_over_cong:
  "sv_submitted sv' = sv_submitted sv \<Longrightarrow> tx_note_links (sv_store sv') = tx_note_links (sv_store sv) \<Longrightarrow>
   handed_over E T h sv' = handed_over E T h sv"
  by (simp add: handed_over_def linked_to_def)

lemma idle_store [simp]: "idle T (sv\<lparr>sv_store := s\<rparr>) = idle T sv"
  by (simp add: idle_def)

lemma stable_client_result [stableE_rules]: "stableE P (client_result r)"
  by (simp add: client_result_def stableE_liftE)

lemma stable_ensure_writable [stableE_rules]: "stableE P (ensure_writable cfg)"
  by (simp add: ensure_writable_def stableE_rules)

lemma stable_prove_claim [stableE_rules]: "stableE P (prove_claim C)"
  by (simp add: prove_claim_def stableE_rules split: sum.split option.split)

lemma stable_idle_others [stableE_rules]: "stableE (idle T) (others_run E C k)"
  by (simp add: stableE_def others_run_def)

lemma stable_idle_fence [stableE_rules]: "stableE (idle T) (with_fence f)"
  by (simp add: stableE_def with_fence_def split: prod.split sum.split)

lemma stable_idle_deploy [stableE_rules]:
  "stableE (idle T) (deploy_new_faucet E cfg C token network metadata)"
  unfolding deploy_new_faucet_def create_and_register_faucet_def Let_def
  by (intro stableE_rules) simp_all

lemma stable_idle_faucet: "stableE (idle T) (find_or_create_faucet E A cfg C token network metadata)"
proof -
  have p: "stableE (idle T) (provision_faucet E A cfg C token network metadata)"
    unfolding provision_faucet_def by (intro stableE_rules) simp_all
  have "stableE (idle T) (find_or_provision E A cfg C token network metadata i again)"
    if "stableE (idle T) again" for i again
    unfolding find_or_provision_def using p that by (intro stableE_rules) (simp_all add: stableE_rules split: peer.split)
  then show ?thesis
    unfolding find_or_create_faucet_def by (simp add: stableE_rules)
qed

lemma stable_idle_create_claim: "stableE (idle T) (create_claim A C reject params f)"
  unfolding create_claim_def by (intro stableE_rules)

abbreviation idle_or_over :: "externals \<Rightarrow> (tx_hash \<times> string) list \<Rightarrow> tx_hash \<Rightarrow> service \<Rightarrow> bool" where
  "idle_or_over E T h sv \<equiv> idle T sv \<or> handed_over E T h sv"

lemma hoareE_case_prod: "(\<And>x y. hoareE P (f x y) Q R) \<Longrightarrow> hoareE P (case p of (x, y) \<Rightarrow> f x y) Q R"
  by (simp split: prod.split)

lemma hoare_prepare:
  "hoareE (idle T) (with_fence (fence_prepare E fence cm i x now))
     (\<lambda>_ sv. idle T sv \<and> linked_to E (cg_owner_tx_hash fence) i (sv_store sv)) (\<lambda>_. idle T)"
  unfolding hoareE_def
proof (intro allI impI)
  fix sv assume t: "idle T sv"
  obtain r s' where f: "fence_prepare E fence cm i x now (sv_store sv) = (r, s')" by fastforce
  show "case with_fence (fence_prepare E fence cm i x now) sv of
          (Inr y, sv') \<Rightarrow> idle T sv' \<and> linked_to E (cg_owner_tx_hash fence) i (sv_store sv')
        | (Inl e, sv') \<Rightarrow> idle T sv'"
  proof (cases r)
    case (Inl e)
    with f t show ?thesis by (simp add: with_fence_def)
  next
    case (Inr u)
    then have "linked_to E (cg_owner_tx_hash fence) i s'"
      using f by (auto simp: fence_prepare_def prepare_claim_submission_fenced_def linked_to_def Let_def
          split: option.splits if_splits prod.splits sum.splits bool.splits)
    with Inr f t show ?thesis by (simp add: with_fence_def)
  qed
qed

lemma hoare_submit:
  "hoareE (\<lambda>sv. idle T sv \<and> linked_to E h i (sv_store sv)) (submit_note h i r)
     (\<lambda>_. handed_over E T h) (\<lambda>_. handed_over E T h)"
proof -
  have "hoareE (handed_over E T h) (client_result r) (\<lambda>_. handed_over E T h) (\<lambda>_. handed_over E T h)"
    by (rule hoareE_stable) (simp_all add: stableE_rules)
  then show ?thesis
    unfolding submit_note_def
    by (intro hoareE_bind [where Q = "\<lambda>_. handed_over E T h"])
      (simp_all add: hoareE_def idle_def handed_over_def)
qed

lemma stable_over_others:
  "\<forall>k. list_all (keeps_link E h) (cl_others C k) \<Longrightarrow> stableE (handed_over E T h) (others_run E C k)"
  by (auto simp: stableE_def others_run_def handed_over_def linked_to_run)

lemma stable_over_confirm: "stableE (handed_over E T h) (with_fence (fence_confirm E fence cm))"
  unfolding stableE_def
proof (intro allI impI)
  fix sv assume "handed_over E T h sv"
  then obtain m where n: "sv_submitted sv = T @ [(h, m)]" "linked_to E h m (sv_store sv)"
    by (auto simp: handed_over_def)
  have "linked_to E h m (snd (confirm_note_handoff E (ext_fmt_hash E (cg_owner_tx_hash fence)) cm (sv_store sv)))"
    using linked_to_confirms [OF confirms_handoff n(2)] .
  then show "handed_over E T h (snd (with_fence (fence_confirm E fence cm) sv))"
    using n(1) by (auto simp: with_fence_def fence_confirm_def handed_over_def split: prod.splits bool.splits)
qed

lemma stable_over_mints:
  assumes "\<And>c s. tx_note_links (snd (f (c, s))) = tx_note_links s"
  shows "stableE (handed_over E T h) (on_mints f)"
  unfolding stableE_def
proof (intro allI impI)
  fix sv assume "handed_over E T h sv"
  moreover have "tx_note_links (snd (f (sv_mints sv, sv_store sv))) = tx_note_links (sv_store sv)" by (rule assms)
  ultimately show "handed_over E T h (snd (on_mints f sv))"
    by (auto simp: on_mints_def handed_over_def linked_to_def Let_def split: prod.split)
qed

lemma hoare_publish_internal:
  assumes "cg_owner_tx_hash fence = h" and "\<forall>k. list_all (keeps_link E h) (cl_others C k)"
  shows "hoareE (idle T) (publish_claim_internal E A cfg C fence params latest)
           (\<lambda>_. handed_over E T h) (\<lambda>_. idle_or_over E T h)"
proof -
  note idle_step = hoareE_bind [where Q = "\<lambda>_. idle T" and P = "idle T", OF hoareE_stable]
  note over_step = hoareE_bind [where Q = "\<lambda>_. handed_over E T h" and P = "handed_over E T h", OF hoareE_stable]
  have tail: "hoareE (handed_over E T h)
      (bindE (client_result (cl_apply C)) (\<lambda>_.
       bindE (if cl_output_note_id C \<noteq> 0
              then on_mints (record_expected E (cfg_mints_capacity cfg) (cc_global_index params) (cl_output_note_id C))
              else okE ()) (\<lambda>_.
       bindE (others_run E C 1) (\<lambda>_.
       bindE (client_result (cl_committed C)) (\<lambda>committed.
       if committed
       then bindE (with_fence (fence_confirm E fence cm)) (\<lambda>_.
            bindE (on_mints (mark_landed (cc_global_index params))) (\<lambda>_.
            okE \<lparr>pc_expires_at = x, pc_note_commitment = cm\<rparr>))
       else errE CeNotCommitted)))))
      (\<lambda>_. handed_over E T h) (\<lambda>_. idle_or_over E T h)" for cm x
  proof -
    have "stableE (handed_over E T h) (if cl_output_note_id C \<noteq> 0
              then on_mints (record_expected E (cfg_mints_capacity cfg) (cc_global_index params) (cl_output_note_id C))
              else okE ())"
      by (intro stableE_rules stable_over_mints) (simp add: record_expected_def expected_mint_record_def)
    moreover have "stableE (handed_over E T h) (on_mints (mark_landed (cc_global_index params)))"
      by (rule stable_over_mints) (simp add: mark_landed_def expected_mint_remove_def)
    ultimately show ?thesis
      using stable_over_confirm [of E T h fence cm] stable_over_others [OF assms(2), of T 1]
      by (auto intro!: over_step hoareE_okE hoareE_errE simp: stable_client_result)
  qed
  have pre: "hoareE (idle T) (with_fence (fence_prepare E fence cm i x now))
     (\<lambda>_ sv. idle T sv \<and> linked_to E h i (sv_store sv)) (\<lambda>_. idle_or_over E T h)" for cm i x now
    by (rule hoareE_weaken [OF hoare_prepare]) (simp_all add: assms(1))
  have sub: "hoareE (\<lambda>sv. idle T sv \<and> linked_to E h i (sv_store sv)) (submit_note (cg_owner_tx_hash fence) i r)
     (\<lambda>_. handed_over E T h) (\<lambda>_. idle_or_over E T h)" for i r
    unfolding assms(1) by (rule hoareE_weaken [OF hoare_submit]) simp_all
  show ?thesis
    unfolding publish_claim_internal_def Let_def
    by (intro idle_step hoareE_bind [OF pre] hoareE_bind [OF sub] tail hoareE_case_prod
        stable_idle_faucet stable_idle_create_claim stable_idle_others stableE_rules) simp_all
qed

lemma links_txn_begin: "tx_note_links (snd (txn_begin_if_absent E h entry s)) = tx_note_links s"
  by (simp add: txn_begin_if_absent_def split: option.split)

lemma stable_over_begin: "stableE (handed_over E T h) (try_store err (txn_begin_if_absent E h' entry))"
  by (intro stableE_rules) (simp add: handed_over_def linked_to_def links_txn_begin)

lemma hoare_attempt:
  assumes "cg_owner_tx_hash fence = h" and "\<forall>k. list_all (keeps_link E h) (cl_others C k)"
  shows "hoareE (idle T) (attempt_publish_claim E A cfg C fence params latest h env signer)
           (\<lambda>_. handed_over E T h) (\<lambda>_. idle_or_over E T h)"
proof (cases "cl_closed C")
  case True
  then show ?thesis by (simp add: attempt_publish_claim_def hoareE_errE)
next
  case False
  have "hoareE (handed_over E T h) (bindE (try_store CeStore (txn_begin_if_absent E h entry)) (\<lambda>_. okE v))
      (\<lambda>_. handed_over E T h) (\<lambda>_. idle_or_over E T h)" for entry v
    by (rule hoareE_stable) (auto intro: stableE_rules stable_over_begin)
  with False show ?thesis
    unfolding attempt_publish_claim_def
    by (simp only: if_False) (rule hoareE_bind [OF hoare_publish_internal [OF assms]])
qed

lemma publish_claim_submits:
  assumes "cg_owner_tx_hash fence = h" and "\<forall>k. list_all (keeps_link E h) (cl_others C k)"
    and "\<forall>k. list_all (keeps_link E h) (cl_others C' k)" and "idle T sv"
    and "publish_claim E A cfg C C' fence params latest h env signer sv = (r, sv')"
  shows "case r of Inr _ \<Rightarrow> handed_over E T h sv' | Inl _ \<Rightarrow> idle_or_over E T h sv'"
proof -
  obtain r1 sv1 where a: "attempt_publish_claim E A cfg C fence params latest h env signer sv = (r1, sv1)" by fastforce
  have h1: "case r1 of Inr _ \<Rightarrow> handed_over E T h sv1 | Inl _ \<Rightarrow> idle_or_over E T h sv1"
    using hoareE_D [OF hoare_attempt [OF assms(1,2)] assms(4) a] .
  show ?thesis
  proof (cases "\<exists>e. r1 = Inl e \<and> is_recoverable_account_error e \<and>
      get_note_link_for_tx (ext_fmt_hash E h) (sv_store sv1) = None")
    case True
    then have "\<not> handed_over E T h sv1" using handed_over_link [of E T h sv1] by auto
    then have "idle T sv1" using True h1 by auto
    moreover have "attempt_publish_claim E A cfg C' fence params latest h env signer sv1 = (r, sv')"
      using True a assms(5) by (auto simp: publish_claim_def)
    ultimately show ?thesis using hoareE_D [OF hoare_attempt [OF assms(1,3)]] by blast
  next
    case False
    then have "r = r1" "sv' = sv1" using a assms(5) by (auto simp: publish_claim_def split: sum.splits if_splits)
    with h1 show ?thesis by (simp split: sum.split_asm)
  qed
qed

lemma publish_and_record_submits:
  assumes "cg_owner_tx_hash fence = h" and "\<forall>k. list_all (keeps_link E h) (cl_others (wk_first W) k)"
    and "\<forall>k. list_all (keeps_link E h) (cl_others (wk_second W) k)" and "idle T sv"
    and "publish_and_record_claim E A cfg W params h env signer fence sv = (r, sv')"
  shows "case r of Inr _ \<Rightarrow> idle_or_over E T h sv' | Inl _ \<Rightarrow> idle T sv'"
proof -
  obtain r1 sv1 where a: "publish_claim E A cfg (wk_first W) (wk_second W) fence params
      (latest_block_number (sv_store sv)) h env signer sv = (r1, sv1)" by fastforce
  have h1: "case r1 of Inr _ \<Rightarrow> handed_over E T h sv1 | Inl _ \<Rightarrow> idle_or_over E T h sv1"
    using publish_claim_submits [OF assms(1-4) a] .
  then show ?thesis
    using assms(5) a handed_over_handoff [of E T h sv1]
    by (auto simp: publish_and_record_claim_def split: sum.splits if_splits)
qed

lemma links_unclaim: "tx_note_links (snd (unclaim_fenced gi owner f s)) = tx_note_links s"
  by (simp add: unclaim_fenced_def Let_def)

lemma links_guard_release: "tx_note_links (snd (guard_release g s)) = tx_note_links s"
  by (simp add: guard_release_def links_unclaim)

lemma dropping_cases:
  assumes "dropping g m sv = (r, sv')" and "\<And>r sv'. m sv = (r, sv') \<Longrightarrow> (case r of Inr _ \<Rightarrow> idle_or_over E T h sv' | Inl _ \<Rightarrow> idle T sv')"
  shows "case r of Inr _ \<Rightarrow> idle_or_over E T h sv' | Inl _ \<Rightarrow> idle T sv'"
  using assms by (cases "m sv"; cases "fst (m sv)") (fastforce simp: dropping_def)+

lemma stable_idle_block_hash [stableE_rules]: "stableE (idle T) (block_hash_of E n)"
  by (simp add: stableE_def block_hash_of_def idle_def Let_def split: prod.split)

lemma stable_idle_receipt [stableE_rules]: "stableE (idle T) (record_local_immediate_success E h env signer logs)"
  unfolding record_local_immediate_success_def record_local_success_at_block_def record_local_pending_tx_def
  by (intro stableE_rules) simp_all

lemma stable_idle_revert [stableE_rules]:
  "stableE (idle T) (accept_and_revert_landed_claim E params h env signer signer_str n)"
  unfolding accept_and_revert_landed_claim_def by (intro stableE_rules) simp_all

lemma stable_idle_quarantine [stableE_rules]: "stableE (idle T) (quarantine_unclaimable E params h env signer g)"
proof -
  have "stableE (idle T) (release_guard g)" by (simp add: stableE_def release_guard_def)
  then show ?thesis unfolding quarantine_unclaimable_def by (intro stableE_rules) simp_all
qed

lemma worker_submits:
  assumes "\<forall>k. list_all (keeps_link E h) (cl_others (wk_first W) k)"
    and "\<forall>k. list_all (keeps_link E h) (cl_others (wk_second W) k)" and "idle T sv"
    and "worker_handle_claim_asset E A cfg W params h env signer sv = (r, sv')"
  shows "case r of Inr _ \<Rightarrow> idle_or_over E T h sv' | Inl _ \<Rightarrow> idle T sv'"
proof (cases "cc_destination_network params \<noteq> cfg_network_id cfg \<or> cc_amount params = 0")
  case True
  then have "idle T sv'"
    using assms(3,4) stableE_D [OF stable_idle_receipt assms(3)]
    by (auto simp: worker_handle_claim_asset_def split: if_splits)
  then show ?thesis by (simp split: sum.split)
next
  case False
  let ?acq = "acquire_claim_lock E (wk_others W) (wk_now W) (cc_global_index params) h (cfg_claim_resubmit_ttl cfg) (sv_store sv)"
  let ?sv1 = "sv\<lparr>sv_store := snd ?acq\<rparr>"
  have i1: "idle T ?sv1" using assms(3) by simp
  show ?thesis
  proof (cases "fst ?acq")
    case (Acquired f)
    let ?g = "guard_new (cc_global_index params) h f"
    have "dropping ?g (if isl (resolve_address (cl_embedded (wk_first W)) (cc_destination_address params) (snd ?acq))
            then quarantine_unclaimable E params h env signer ?g
            else publish_and_record_claim E A cfg W params h env signer ?g) ?sv1 = (r, sv')"
      using assms(4) False Acquired by (auto simp: worker_handle_claim_asset_def Let_def split: sum.splits)
    moreover have "case r of Inr _ \<Rightarrow> idle_or_over E T h sv2 | Inl _ \<Rightarrow> idle T sv2"
      if "quarantine_unclaimable E params h env signer ?g ?sv1 = (r, sv2)" for r sv2
      using stableE_D [OF stable_idle_quarantine i1 that] by (simp split: sum.split)
    moreover have "case r of Inr _ \<Rightarrow> idle_or_over E T h sv2 | Inl _ \<Rightarrow> idle T sv2"
      if "publish_and_record_claim E A cfg W params h env signer ?g ?sv1 = (r, sv2)" for r sv2
      using publish_and_record_submits [OF _ assms(1,2) i1 that] by (simp add: guard_new_def)
    ultimately show ?thesis by (cases "isl (resolve_address (cl_embedded (wk_first W)) (cc_destination_address params) (snd ?acq))")
        (auto elim!: dropping_cases)
  next
    case InFlight
    then show ?thesis using assms(4) False i1 by (auto simp: worker_handle_claim_asset_def)
  next
    case Landed
    then have "accept_and_revert_landed_claim E params h env signer (ext_fmt_address E signer) (envelope_nonce env) ?sv1 = (r, sv')"
      using assms(4) False by (simp add: worker_handle_claim_asset_def)
    from stableE_D [OF stable_idle_revert i1 this] show ?thesis by (simp split: sum.split)
  qed
qed

section \<open>Properties\<close>

text \<open>
  C3. The claim worker hands at most one note to the Miden node per run, whatever the client
  answers at each step, in both attempts, and whatever other tasks do to claims meanwhile (short
  of clearing this transaction's own expired preparation). A note that was handed over is linked
  to this transaction in the store; and when the worker reports an error, nothing was handed over,
  so the failure receipt that follows is true.
\<close>

theorem claim_worker_submits_once:
  assumes "\<forall>k. list_all (keeps_link E h) (cl_others (wk_first W) k)"
    and "\<forall>k. list_all (keeps_link E h) (cl_others (wk_second W) k)"
    and "worker_handle_claim_asset E A cfg W params h env signer sv = (r, sv')"
  shows "sv_submitted sv' = sv_submitted sv \<or>
         (\<exists>n. r = Inr () \<and> sv_submitted sv' = sv_submitted sv @ [(h, n)] \<and> linked_to E h n (sv_store sv'))"
proof -
  have "idle (sv_submitted sv) sv" by (simp add: idle_def)
  from worker_submits [OF assms(1,2) this assms(3)] show ?thesis
    by (cases r) (auto simp: idle_def handed_over_def)
qed

definition demo_config :: service_config where
  "demo_config = \<lparr>cfg_chain_id = 2, cfg_network_id = 1, cfg_allowed_signers = None, cfg_allow_any_signer = True,
     cfg_reject_unverified_ger = True, cfg_l1_evidence_tag = Latest, cfg_reject_zero_padding_addresses = False,
     cfg_read_only = False, cfg_claim_receipt_expiration_blocks = 120, cfg_claim_resubmit_ttl = 120,
     cfg_reservation_lease = 90, cfg_tx_ttl = 300, cfg_mints_capacity = 10\<rparr>"

definition demo_service :: service where
  "demo_service = \<lparr>sv_store = new_store\<lparr>faucets := [demo_faucet 1 []]\<rparr>,
     sv_block_state = \<lparr>bs_blocks = [], bs_hash_to_number = [], bs_current_block = 0\<rparr>, sv_block_tip = 0,
     sv_mints = [], sv_writer = None, sv_submitted = []\<rparr>"

definition demo_claim :: claim_asset_call where
  "demo_claim = \<lparr>cc_smt_proof_local = [], cc_smt_proof_rollup = [], cc_global_index = 77, cc_mainnet_exit_root = 1,
     cc_rollup_exit_root = 2, cc_origin_network = 0, cc_origin_token_address = 5, cc_destination_network = 1,
     cc_destination_address = 3, cc_amount = 10, cc_metadata = []\<rparr>"

text \<open>A node that takes the note and a client that then fails to apply the transaction.\<close>

definition demo_client :: claim_client where
  "demo_client = \<lparr>cl_closed = False, cl_peer = (\<lambda>_. NoPeer), cl_add_account = Inr (), cl_bridge_account = None,
     cl_tracked = (\<lambda>_. None), cl_imported = (\<lambda>_. False), cl_account = (\<lambda>_. Inr None),
     cl_deploy_faucet = (\<lambda>_ _. Inr 4), cl_scale_to_token_amount = (\<lambda>_ _. Inr 1), cl_embedded = (\<lambda>_. Some 8),
     cl_claim_note = (\<lambda>_. Inr (''n'', ''c'')), cl_execute = Inr 64, cl_prove = Inr (), cl_prove_fallback = None,
     cl_submit = Inr (), cl_apply = Inl AccountDataNotFound, cl_output_note_id = 0, cl_committed = Inr False,
     cl_others = (\<lambda>_. [OpUnclaim 77 8 1]), cl_now = (\<lambda>_. 5)\<rparr>"

definition demo_worker :: worker_client where
  "demo_worker = \<lparr>wk_others = (\<lambda>_. []), wk_now = (\<lambda>_. 3), wk_first = demo_client, wk_second = demo_client\<rparr>"

lemma demo_destination: "is_miden_compatible_address 3"
  by code_simp

lemma demo_claim_run:
  "\<exists>sv'. worker_handle_claim_asset demo_ext demo_api demo_config demo_worker demo_claim 9 (demo_envelope 9 0) 6 demo_service =
       (Inr (), sv') \<and> sv_submitted sv' \<noteq> sv_submitted demo_service"
proof -
  let ?run = "worker_handle_claim_asset demo_ext demo_api demo_config demo_worker demo_claim 9 (demo_envelope 9 0) 6
      demo_service"
  have "fst ?run = Inr () \<and> sv_submitted (snd ?run) \<noteq> sv_submitted demo_service"
    by (simp add: worker_handle_claim_asset_def Let_def bindE_def on_store_def read_store_def liftE_def acquire_undisturbed
        has_claim_event_for_global_index_def demo_claim_def demo_config_def demo_worker_def dropping_def
        publish_and_record_claim_def publish_claim_def attempt_publish_claim_def publish_claim_internal_def
        find_or_create_faucet_def find_or_provision_def create_claim_def client_result_def
        others_run_def prove_claim_def ensure_writable_def with_fence_def submit_note_def
        resolve_address_def resolve_address_with_policy_def demo_client_def
        account_id_from_address_def demo_destination claim_exec_def get_address_mapping_def
        get_faucet_by_origin_def demo_faucet_def faucet_of_entry_def scale_claim_amount_def
        unclaim_fenced_def hm_get_def hm_insert_def fence_prepare_def guard_new_def
        prepare_claim_submission_fenced_def is_recoverable_account_error_def
        get_note_link_for_tx_def get_note_handoff_for_tx_def demo_service_def)
  then show ?thesis by (cases ?run) simp
qed

theorem claim_worker_submits_once_witness:
  "\<exists>n sv'. worker_handle_claim_asset demo_ext demo_api demo_config demo_worker demo_claim 9 (demo_envelope 9 0) 6
      demo_service = (Inr (), sv') \<and> sv_submitted sv' = [(9, n)] \<and> linked_to demo_ext 9 n (sv_store sv')"
proof -
  obtain sv' where r: "worker_handle_claim_asset demo_ext demo_api demo_config demo_worker demo_claim 9 (demo_envelope 9 0) 6
      demo_service = (Inr (), sv')" and n: "sv_submitted sv' \<noteq> sv_submitted demo_service"
    using demo_claim_run by blast
  show ?thesis
    using claim_worker_submits_once [OF _ _ r] r n
    by (auto simp: demo_worker_def demo_client_def demo_service_def keeps_link_def)
qed

end
