(* ===== verification/Ger_Insert.thy ===== *)
theory Ger_Insert
  imports Claim_Submission Store_Ger
begin

text \<open>
  Injecting a global exit root (\<^verbatim>\<open>src/src/ger.rs\<close> and the GER side of the writer worker in
  \<^verbatim>\<open>src/src/service_send_raw_txn.rs\<close>): the gate that demands L1 evidence, the bounded wait for it, the note
  with its durable hand-over record, the single retry, and what becomes of the receipt.

  The wait is a loop that ends because time passes; it is a partial function whose value is
  \<open>None\<close> when it does not return.
\<close>

section \<open>Evidence\<close>

definition describe_tag :: "evidence_tag \<Rightarrow> string" where
  "describe_tag t = (case t of Latest \<Rightarrow> ''latest'' | Safe \<Rightarrow> ''safe'' | Finalized \<Rightarrow> ''finalized'')"

definition parse_tag :: "string \<Rightarrow> evidence_tag option" where
  "parse_tag s =
     (let t = to_lowercase (trim s)
      in if t = ''latest'' then Some Latest else if t = ''safe'' then Some Safe
         else if t = ''finalized'' then Some Finalized else None)"

lemma parse_describe_tag: "parse_tag (describe_tag t) = Some t"
  by (cases t; hypsubst; code_simp)

definition combined_ger :: "externals \<Rightarrow> b256 \<Rightarrow> b256 \<Rightarrow> b256" where
  "combined_ger E mainnet rollup = ext_keccak E (be_bytes 32 mainnet @ be_bytes 32 rollup)"

definition roots_observed :: "ger_entry \<Rightarrow> bool" where
  "roots_observed e = (ge_mainnet_exit_root e \<noteq> None \<and> ge_rollup_exit_root e \<noteq> None)"

definition ensure_ger_l1_observed :: "b256 \<Rightarrow> bool \<Rightarrow> evidence_tag \<Rightarrow> mem_store \<Rightarrow> write_error + unit" where
  "ensure_ger_l1_observed ger require_l1_observed tag s =
     (if is_ger_injected ger s then Inr ()
      else
        let entry = get_ger_entry ger s;
            observed = (case entry of None \<Rightarrow> False | Some e \<Rightarrow> roots_observed e);
            policy_observed = (case entry of None \<Rightarrow> False | Some e \<Rightarrow> ge_evidence_verified e);
            l1_verified = (observed \<and> policy_observed)
        in if \<not> l1_verified \<and> require_l1_observed then Inl (CeGerNotObserved ger tag) else Inr ())"

definition ger_l1_evidence_reached :: "b256 \<Rightarrow> mem_store \<Rightarrow> bool" where
  "ger_l1_evidence_reached ger s =
     (if is_ger_injected ger s then True
      else case get_ger_entry ger s of
             None \<Rightarrow> False
           | Some e \<Rightarrow> roots_observed e \<and> ge_evidence_verified e)"

section \<open>The wait\<close>

text \<open>What the other tasks do meanwhile: claims, the L1 scan, and the injections the projector observes.\<close>

datatype task_op = ClaimTask claim_op | ScanTask b256 b256 b256 u64 u64 | InjectTask ger_commit

definition task_exec :: "externals \<Rightarrow> task_op \<Rightarrow> mem_store \<Rightarrow> mem_store" where
  "task_exec E op s =
     (case op of
        ClaimTask c \<Rightarrow> claim_exec E c s
      | ScanTask ger m r n t \<Rightarrow> set_ger_exit_roots ger m r n t s
      | InjectTask c \<Rightarrow> ger_exec E c s)"

text \<open>Milliseconds between two polls.\<close>

definition GER_EVIDENCE_POLL_INTERVAL :: time where "GER_EVIDENCE_POLL_INTERVAL = 250"

text \<open>\<open>polls i\<close> is what runs before the \<open>i\<close>-th poll and \<open>elapsed i\<close> the reading of the clock at it.\<close>

partial_function (option) wait_loop ::
    "externals \<Rightarrow> (nat \<Rightarrow> task_op list) \<Rightarrow> (nat \<Rightarrow> time) \<Rightarrow> b256 \<Rightarrow> write_error \<Rightarrow> time \<Rightarrow> nat \<Rightarrow> mem_store \<Rightarrow>
     ((write_error + unit) \<times> mem_store) option" where
  "wait_loop E polls elapsed ger pending_error timeout i s =
     (let s' = fold (task_exec E) (polls i) s
      in if ger_l1_evidence_reached ger s' then Some (Inr (), s')
         else if timeout \<le> elapsed i then Some (Inl pending_error, s')
         else wait_loop E polls elapsed ger pending_error timeout (Suc i) s')"

definition wait_for_ger_l1_observed_with_timing ::
    "externals \<Rightarrow> (nat \<Rightarrow> task_op list) \<Rightarrow> (nat \<Rightarrow> time) \<Rightarrow> b256 \<Rightarrow> bool \<Rightarrow> evidence_tag \<Rightarrow> time \<Rightarrow> mem_store \<Rightarrow>
     ((write_error + unit) \<times> mem_store) option" where
  "wait_for_ger_l1_observed_with_timing E polls elapsed ger require_l1_observed tag timeout s =
     (case ensure_ger_l1_observed ger require_l1_observed tag s of
        Inr _ \<Rightarrow> Some (Inr (), s)
      | Inl err \<Rightarrow>
          if require_l1_observed then wait_loop E polls elapsed ger err timeout 0 s
          else Some (Inl err, s))"

section \<open>The note\<close>

text \<open>What the client answers during one attempt.\<close>

record ger_client =
  gm_closed :: bool
  gm_sync :: "client_error + unit"
  gm_note :: "client_error + string \<times> string"
  gm_execute :: "client_error + u64"
  gm_prove :: "client_error + unit"
  gm_submit :: "client_error + unit"
  gm_apply :: "client_error + unit"
  gm_committed :: "client_error + bool"
  gm_others :: "nat \<Rightarrow> task_op list"

definition ger_others :: "externals \<Rightarrow> ger_client \<Rightarrow> nat \<Rightarrow> (service, write_error, unit) handler" where
  "ger_others E C k sv = (Inr (), sv\<lparr>sv_store := fold (task_exec E) (gm_others C k) (sv_store sv)\<rparr>)"

definition record_ger_submission_handoff ::
    "externals \<Rightarrow> tx_hash \<Rightarrow> string \<Rightarrow> string \<Rightarrow> u64 \<Rightarrow> tx_envelope \<Rightarrow> address \<Rightarrow> (service, write_error, unit) handler" where
  "record_ger_submission_handoff E h note_commitment note_id expiration_block txn_envelope signer =
     bindE (try_store CeStore (prepare_note_handoff (ext_fmt_hash E h) note_commitment note_id expiration_block)) (\<lambda>_.
     bindE (try_store CeStore (txn_begin_if_absent E h
              \<lparr>te_id = None, te_envelope = txn_envelope, te_signer = signer, te_expires_at = None, te_logs = []\<rparr>)) (\<lambda>_.
     okE ()))"

definition submit_update_ger_note ::
    "externals \<Rightarrow> service_config \<Rightarrow> ger_client \<Rightarrow> tx_hash \<Rightarrow> tx_envelope \<Rightarrow> address \<Rightarrow> (service, write_error, unit) handler" where
  "submit_update_ger_note E cfg C h txn_envelope signer =
     (if gm_closed C then errE (CeClient (OtherClientError ''request channel closed''))
      else
        bindE (client_result (gm_sync C)) (\<lambda>_.
        bindE (client_result (gm_note C)) (\<lambda>(note_id, note_commitment).
        bindE (ensure_writable cfg) (\<lambda>_.
        bindE (client_result (gm_execute C)) (\<lambda>expiration_block.
        bindE (client_result (gm_prove C)) (\<lambda>_.
        bindE (ger_others E C 0) (\<lambda>_.
        bindE (record_ger_submission_handoff E h note_commitment note_id expiration_block txn_envelope signer) (\<lambda>_.
        bindE (submit_note h note_id (gm_submit C)) (\<lambda>_.
        bindE (client_result (gm_apply C)) (\<lambda>_.
        bindE (ger_others E C 1) (\<lambda>_.
        bindE (client_result (gm_committed C)) (\<lambda>committed.
        if \<not> committed then errE CeNotCommitted
        else
          bindE (on_store (confirm_note_handoff E (ext_fmt_hash E h) note_commitment)) (\<lambda>confirmed.
          if \<not> confirmed then errE (CeHandoffChanged h) else okE ())))))))))))))"

section \<open>The injection\<close>

text \<open>The environment of one injection: the variable that bounds the wait, the polls, and two attempts.\<close>

record ger_injection =
  gi_wait_timeout :: "string option"
  gi_polls :: "nat \<Rightarrow> task_op list"
  gi_elapsed :: "nat \<Rightarrow> time"
  gi_first :: ger_client
  gi_second :: ger_client
  gi_reimport :: "client_error + unit"

definition wait_for_ger_l1_observed ::
    "externals \<Rightarrow> ger_injection \<Rightarrow> b256 \<Rightarrow> bool \<Rightarrow> evidence_tag \<Rightarrow> mem_store \<Rightarrow> ((write_error + unit) \<times> mem_store) option" where
  "wait_for_ger_l1_observed E I ger require_l1_observed tag s =
     wait_for_ger_l1_observed_with_timing E (gi_polls I) (gi_elapsed I) ger require_l1_observed tag
       (1000 * ger_evidence_wait_timeout (gi_wait_timeout I)) s"

definition submit_ger_with_recovery ::
    "externals \<Rightarrow> service_config \<Rightarrow> ger_injection \<Rightarrow> tx_hash \<Rightarrow> tx_envelope \<Rightarrow> address \<Rightarrow> (service, write_error, unit) handler" where
  "submit_ger_with_recovery E cfg I h txn_envelope signer sv =
     (case submit_update_ger_note E cfg (gi_first I) h txn_envelope signer sv of
        (Inr _, sv') \<Rightarrow> (Inr (), sv')
      | (Inl err, sv') \<Rightarrow>
          if is_recoverable_account_error err
          then if get_note_link_for_tx (ext_fmt_hash E h) (sv_store sv') \<noteq> None then (Inl err, sv')
               else bindE (client_result (gi_reimport I))
                      (\<lambda>_. submit_update_ger_note E cfg (gi_second I) h txn_envelope signer) sv'
          else (Inl err, sv'))"

text \<open>What follows the wait; the result says whether the root was new.\<close>

definition inject_ger ::
    "externals \<Rightarrow> service_config \<Rightarrow> ger_injection \<Rightarrow> b256 \<Rightarrow> tx_hash \<Rightarrow> tx_envelope \<Rightarrow> address \<Rightarrow>
     (service, write_error, bool) handler" where
  "inject_ger E cfg I ger h txn_envelope signer =
     bindE (read_store (\<lambda>s. \<not> is_ger_injected ger s)) (\<lambda>is_new.
     if is_new then bindE (submit_ger_with_recovery E cfg I h txn_envelope signer) (\<lambda>_. okE True)
     else okE False)"

definition insert_ger ::
    "externals \<Rightarrow> service_config \<Rightarrow> ger_injection \<Rightarrow> b256 \<Rightarrow> tx_hash \<Rightarrow> tx_envelope \<Rightarrow> address \<Rightarrow> service \<Rightarrow>
     ((write_error + bool) \<times> service) option" where
  "insert_ger E cfg I ger h txn_envelope signer sv =
     (case wait_for_ger_l1_observed E I ger (cfg_reject_unverified_ger cfg) (cfg_l1_evidence_tag cfg) (sv_store sv) of
        None \<Rightarrow> None
      | Some (Inl err, s) \<Rightarrow> Some (Inl err, sv\<lparr>sv_store := s\<rparr>)
      | Some (Inr _, s) \<Rightarrow> Some (inject_ger E cfg I ger h txn_envelope signer (sv\<lparr>sv_store := s\<rparr>)))"

definition handle_ger_result ::
    "externals \<Rightarrow> write_error + bool \<Rightarrow> tx_hash \<Rightarrow> tx_envelope \<Rightarrow> address \<Rightarrow> (service, write_error, unit) handler" where
  "handle_ger_result E result h txn_envelope signer =
     (case result of
        Inr is_new \<Rightarrow>
          if is_new
          then bindE (read_store (txn_get h)) (\<lambda>row.
               if row = None then record_local_pending_tx E h txn_envelope signer None [] else okE ())
          else record_local_immediate_success E h txn_envelope signer []
      | Inl err \<Rightarrow>
          bindE (read_store (get_note_handoff_for_tx (ext_fmt_hash E h))) (\<lambda>handoff.
          if handoff \<noteq> None then okE () else errE err))"

definition worker_handle_ger_insert ::
    "externals \<Rightarrow> service_config \<Rightarrow> ger_injection \<Rightarrow> b256 \<Rightarrow> tx_hash \<Rightarrow> tx_envelope \<Rightarrow> address \<Rightarrow> service \<Rightarrow>
     ((write_error + unit) \<times> service) option" where
  "worker_handle_ger_insert E cfg I ger h txn_envelope signer sv =
     map_option (\<lambda>(result, sv'). handle_ger_result E result h txn_envelope signer sv')
       (insert_ger E cfg I ger h txn_envelope signer sv)"

section \<open>Evidence is never lost\<close>

text \<open>Stores that differ in links and claims only.\<close>

definition only_links :: "mem_store \<Rightarrow> mem_store \<Rightarrow> bool" where
  "only_links s s' = (s\<lparr>tx_note_links := [], claimed := []\<rparr> = s'\<lparr>tx_note_links := [], claimed := []\<rparr>)"

lemma only_links_confirm: "only_links s (snd (confirm_note_handoff E t c s))"
  by (simp add: only_links_def confirm_note_handoff_def split: option.split)

lemma only_links_trans: "only_links a b \<Longrightarrow> only_links b c \<Longrightarrow> only_links a c"
  by (simp add: only_links_def)

lemma only_links_refl [simp]: "only_links s s"
  by (simp add: only_links_def)

lemma only_links_fold: "(\<And>x s. only_links s (f x s)) \<Longrightarrow> only_links s (fold f xs s)"
  by (induction xs arbitrary: s) (auto intro: only_links_trans)

lemma only_links_by_commitment: "only_links s (snd (confirm_note_handoff_by_commitment E c s))"
proof -
  have "only_links s (confirm_one E t s)" for t s
    by (simp add: only_links_def confirm_one_def split: option.split)
  then have "only_links s (fold (confirm_one E) ts s)" for ts
    by (rule only_links_fold)
  then show ?thesis
    by (simp add: confirm_note_handoff_by_commitment_def Let_def split: list.split del: fold.simps)
qed

lemma only_links_prepared: "only_links s (snd (confirm_prepared_note_handoffs E ids s))"
proof -
  have "only_links s (fold (\<lambda>(t, c) st. snd (confirm_note_handoff E t c st)) ms s)" for ms
    by (rule only_links_fold) (simp add: only_links_confirm case_prod_unfold)
  then show ?thesis
    unfolding confirm_prepared_note_handoffs_def Let_def confirm_prepared_as_fold [unfolded Let_def] by simp
qed

abbreviation ger_fields :: "mem_store \<Rightarrow> (b256, ger_entry) hashmap \<times> b256 set" where
  "ger_fields s \<equiv> (seen_gers s, injected_gers s)"

lemma ger_fields_only_links: "only_links s s' \<Longrightarrow> ger_fields s' = ger_fields s"
  unfolding only_links_def by (drule arg_cong [where f = "\<lambda>s. (seen_gers s, injected_gers s)"]) simp

lemma ger_fields_claim_exec: "ger_fields (claim_exec E op s) = ger_fields s"
proof (cases op)
  case (OpConfirm t c)
  then show ?thesis using ger_fields_only_links [OF only_links_confirm, of E t c s] by (simp add: claim_exec_def)
next
  case (OpConfirmByCommitment c)
  then show ?thesis using ger_fields_only_links [OF only_links_by_commitment, of E c s] by (simp add: claim_exec_def)
next
  case (OpConfirmPrepared ids)
  then show ?thesis using ger_fields_only_links [OF only_links_prepared, of E ids s] by (simp add: claim_exec_def)
qed (simp_all add: claim_exec_def try_claim_fenced_def try_reclaim_claim_fenced_def
      prepare_claim_submission_fenced_def unclaim_fenced_def clear_expired_prepared_note_handoff_def
      commit_manual_claim_event_atomic_def Let_def split: option.split)

text \<open>The roots of a GER are known and stem from the configured scan.\<close>

definition corroborated :: "b256 \<Rightarrow> mem_store \<Rightarrow> bool" where
  "corroborated ger s =
     (case get_ger_entry ger s of None \<Rightarrow> False | Some e \<Rightarrow> roots_observed e \<and> ge_evidence_verified e)"

lemma evidence_reached_iff: "ger_l1_evidence_reached ger s = (is_ger_injected ger s \<or> corroborated ger s)"
  by (simp add: ger_l1_evidence_reached_def corroborated_def)

lemma ensure_observed_iff:
  "ensure_ger_l1_observed ger require tag s =
     (if require \<and> \<not> ger_l1_evidence_reached ger s then Inl (CeGerNotObserved ger tag) else Inr ())"
  by (auto simp: ensure_ger_l1_observed_def evidence_reached_iff corroborated_def split: option.split)

lemma corroborated_cong: "seen_gers s' = seen_gers s \<Longrightarrow> corroborated ger s' = corroborated ger s"
  by (simp add: corroborated_def get_ger_entry_def)

lemma corroborated_task: "corroborated ger s \<Longrightarrow> corroborated ger (task_exec E op s)"
proof (cases op)
  case (ClaimTask c)
  then show "corroborated ger s \<Longrightarrow> ?thesis"
    using corroborated_cong [of "claim_exec E c s" s ger] ger_fields_claim_exec [of E c s] by (simp add: task_exec_def)
next
  case (ScanTask g m r n t)
  then show "corroborated ger s \<Longrightarrow> ?thesis"
    by (auto simp: task_exec_def corroborated_def get_ger_entry_def set_ger_exit_roots_def roots_observed_def Let_def
        split: option.splits)
next
  case (InjectTask c)
  then show "corroborated ger s \<Longrightarrow> ?thesis"
    by (auto simp: task_exec_def ger_exec_def corroborated_def get_ger_entry_def commit_ger_event_atomic_def
        see_ger_def hm_contains_def Let_def split: option.splits)
qed

lemma corroborated_tasks: "corroborated ger s \<Longrightarrow> corroborated ger (fold (task_exec E) ops s)"
  by (induction ops arbitrary: s) (simp_all add: corroborated_task)

section \<open>The wait ends\<close>

text \<open>The store at the \<open>n\<close>-th poll.\<close>

definition polled :: "externals \<Rightarrow> (nat \<Rightarrow> task_op list) \<Rightarrow> nat \<Rightarrow> nat \<Rightarrow> mem_store \<Rightarrow> mem_store" where
  "polled E polls i n s = fold (task_exec E) (concat (map polls [i..<Suc n])) s"

lemma polled_self [simp]: "polled E polls i i s = fold (task_exec E) (polls i) s"
  by (simp add: polled_def)

lemma polled_step: "i < n \<Longrightarrow> polled E polls (Suc i) n (polled E polls i i s) = polled E polls i n s"
  by (simp add: polled_def upt_conv_Cons)

lemma wait_loop_ends:
  assumes "\<forall>i. elapsed i + GER_EVIDENCE_POLL_INTERVAL \<le> elapsed (Suc i)"
  shows "\<exists>n\<ge>i. wait_loop E polls elapsed ger err timeout i s =
             Some (if ger_l1_evidence_reached ger (polled E polls i n s) then Inr () else Inl err, polled E polls i n s) \<and>
           (\<forall>j. i \<le> j \<and> j < n \<longrightarrow> elapsed j < timeout \<and> \<not> ger_l1_evidence_reached ger (polled E polls i j s)) \<and>
           (ger_l1_evidence_reached ger (polled E polls i n s) \<or> timeout \<le> elapsed n)"
proof (induction "timeout - elapsed i" arbitrary: i s rule: less_induct)
  case less
  let ?s = "polled E polls i i s"
  show ?case
  proof (cases "ger_l1_evidence_reached ger ?s \<or> timeout \<le> elapsed i")
    case True
    then show ?thesis
      by (intro exI [of _ i]) (subst wait_loop.simps, auto simp: Let_def)
  next
    case False
    then have "timeout - elapsed (Suc i) < timeout - elapsed i"
      using assms [rule_format, of i] unfolding GER_EVIDENCE_POLL_INTERVAL_def by linarith
    from less [OF this, of ?s] obtain n where n: "Suc i \<le> n"
      "wait_loop E polls elapsed ger err timeout (Suc i) ?s =
         Some (if ger_l1_evidence_reached ger (polled E polls (Suc i) n ?s) then Inr () else Inl err, polled E polls (Suc i) n ?s)"
      "\<forall>j. Suc i \<le> j \<and> j < n \<longrightarrow> elapsed j < timeout \<and> \<not> ger_l1_evidence_reached ger (polled E polls (Suc i) j ?s)"
      "ger_l1_evidence_reached ger (polled E polls (Suc i) n ?s) \<or> timeout \<le> elapsed n"
      by blast
    have "\<forall>j. i \<le> j \<and> j < n \<longrightarrow> elapsed j < timeout \<and> \<not> ger_l1_evidence_reached ger (polled E polls i j s)"
    proof (intro allI impI)
      fix j assume "i \<le> j \<and> j < n"
      then show "elapsed j < timeout \<and> \<not> ger_l1_evidence_reached ger (polled E polls i j s)"
        using False n(3) [rule_format, of j] polled_step [of i j E polls s] by (cases "j = i") auto
    qed
    moreover have "wait_loop E polls elapsed ger err timeout i s = wait_loop E polls elapsed ger err timeout (Suc i) ?s"
      using False by (subst wait_loop.simps) (simp add: Let_def)
    ultimately show ?thesis
      using n(1,2,4) polled_step [of i n E polls s] by (intro exI [of _ n]) auto
  qed
qed

lemma clock_progress:
  "\<forall>i. elapsed i + GER_EVIDENCE_POLL_INTERVAL \<le> elapsed (Suc i) \<Longrightarrow> n * GER_EVIDENCE_POLL_INTERVAL \<le> elapsed n"
proof (induction n)
  case (Suc n)
  then have "elapsed n + GER_EVIDENCE_POLL_INTERVAL \<le> elapsed (Suc n)" by blast
  moreover have "n * GER_EVIDENCE_POLL_INTERVAL \<le> elapsed n" by (rule Suc.IH [OF Suc.prems])
  ultimately show ?case unfolding mult_Suc by linarith
qed simp

section \<open>At most one note\<close>

definition task_keeps_link :: "externals \<Rightarrow> tx_hash \<Rightarrow> task_op \<Rightarrow> bool" where
  "task_keeps_link E h op = (case op of ClaimTask c \<Rightarrow> keeps_link E h c | _ \<Rightarrow> True)"

lemma linked_to_task: "linked_to E h note s \<Longrightarrow> task_keeps_link E h op \<Longrightarrow> linked_to E h note (task_exec E op s)"
  by (cases op, simp add: task_exec_def task_keeps_link_def linked_to_exec)
    (auto simp: task_exec_def ger_exec_def linked_to_def set_ger_exit_roots_def confirm_link_of_def Let_def
      split: option.splits)

lemma linked_to_tasks:
  "linked_to E h note s \<Longrightarrow> list_all (task_keeps_link E h) ops \<Longrightarrow> linked_to E h note (fold (task_exec E) ops s)"
  by (induction ops arbitrary: s) (simp_all add: linked_to_task)

lemma stable_idle_ger_others [stableE_rules]: "stableE (idle T) (ger_others E C k)"
  by (simp add: stableE_def ger_others_def)

lemma stable_over_ger_others:
  "\<forall>k. list_all (task_keeps_link E h) (gm_others C k) \<Longrightarrow> stableE (handed_over E T h) (ger_others E C k)"
  by (auto simp: stableE_def ger_others_def handed_over_def linked_to_tasks)

lemma stable_over_store_confirm: "stableE (handed_over E T h) (on_store (confirm_note_handoff E t c))"
  by (rule stableE_on_store) (auto simp: handed_over_def intro: linked_to_confirms [OF confirms_handoff])

lemma hoare_ger_handoff:
  "hoareE (idle T) (record_ger_submission_handoff E h c i x env signer)
     (\<lambda>_ sv. idle T sv \<and> linked_to E h i (sv_store sv)) (\<lambda>_. idle_or_over E T h)"
proof -
  have "hoareE (idle T) (try_store CeStore (prepare_note_handoff (ext_fmt_hash E h) c i x))
      (\<lambda>_ sv. idle T sv \<and> linked_to E h i (sv_store sv)) (\<lambda>_. idle_or_over E T h)"
    by (auto simp: hoareE_def try_store_def prepare_note_handoff_def linked_to_def split: option.splits)
  moreover have "stableE (\<lambda>sv. idle T sv \<and> linked_to E h i (sv_store sv)) (try_store CeStore (txn_begin_if_absent E h e))" for e
    by (intro stableE_rules) (simp add: linked_to_def links_txn_begin)
  ultimately show ?thesis
    unfolding record_ger_submission_handoff_def
    by (intro hoareE_bind [where Q = "\<lambda>_ sv. idle T sv \<and> linked_to E h i (sv_store sv)"] hoareE_okE)
      (auto intro: hoareE_stable)
qed

lemma hoare_submit_ger:
  assumes "\<forall>k. list_all (task_keeps_link E h) (gm_others C k)"
  shows "hoareE (idle T) (submit_update_ger_note E cfg C h env signer)
           (\<lambda>_. handed_over E T h) (\<lambda>_. idle_or_over E T h)"
proof -
  note idle_step = hoareE_bind [where Q = "\<lambda>_. idle T" and P = "idle T", OF hoareE_stable]
  note over_step = hoareE_bind [where Q = "\<lambda>_. handed_over E T h" and P = "handed_over E T h", OF hoareE_stable]
  have tail: "hoareE (handed_over E T h)
      (bindE (client_result (gm_apply C)) (\<lambda>_.
       bindE (ger_others E C 1) (\<lambda>_.
       bindE (client_result (gm_committed C)) (\<lambda>committed.
       if \<not> committed then errE CeNotCommitted
       else bindE (on_store (confirm_note_handoff E (ext_fmt_hash E h) c)) (\<lambda>confirmed.
            if \<not> confirmed then errE (CeHandoffChanged h) else okE ())))))
      (\<lambda>_. handed_over E T h) (\<lambda>_. idle_or_over E T h)" for c
    by (auto intro!: over_step hoareE_okE hoareE_errE stable_over_store_confirm stable_over_ger_others
        simp: stable_client_result assms)
  have sub: "hoareE (\<lambda>sv. idle T sv \<and> linked_to E h i (sv_store sv)) (submit_note h i r)
     (\<lambda>_. handed_over E T h) (\<lambda>_. idle_or_over E T h)" for i r
    by (rule hoareE_weaken [OF hoare_submit]) simp_all
  show ?thesis
  proof (cases "gm_closed C")
    case True
    then show ?thesis by (simp add: submit_update_ger_note_def hoareE_errE)
  next
    case False
    then show ?thesis
      unfolding submit_update_ger_note_def
      by (simp only: if_False)
        (intro idle_step hoareE_bind [OF hoare_ger_handoff] hoareE_bind [OF sub] tail hoareE_case_prod stableE_rules; simp)
  qed
qed

lemma recovery_submits:
  assumes "\<forall>k. list_all (task_keeps_link E h) (gm_others (gi_first I) k)"
    and "\<forall>k. list_all (task_keeps_link E h) (gm_others (gi_second I) k)" and "idle T sv"
    and "submit_ger_with_recovery E cfg I h env signer sv = (r, sv')"
  shows "case r of Inr _ \<Rightarrow> handed_over E T h sv' | Inl _ \<Rightarrow> idle_or_over E T h sv'"
proof -
  obtain r1 sv1 where a: "submit_update_ger_note E cfg (gi_first I) h env signer sv = (r1, sv1)" by fastforce
  have h1: "case r1 of Inr _ \<Rightarrow> handed_over E T h sv1 | Inl _ \<Rightarrow> idle_or_over E T h sv1"
    using hoareE_D [OF hoare_submit_ger [OF assms(1)] assms(3) a] .
  let ?again = "\<exists>e. r1 = Inl e \<and> is_recoverable_account_error e \<and>
      get_note_link_for_tx (ext_fmt_hash E h) (sv_store sv1) = None"
  show ?thesis
  proof (cases ?again)
    case True
    then have "\<not> handed_over E T h sv1" using handed_over_link [of E T h sv1] by auto
    then have "idle T sv1" using True h1 by auto
    moreover have "bindE (client_result (gi_reimport I)) (\<lambda>_. submit_update_ger_note E cfg (gi_second I) h env signer) sv1
        = (r, sv')"
      using True a assms(4) by (auto simp: submit_ger_with_recovery_def)
    moreover have "hoareE (idle T) (bindE (client_result (gi_reimport I))
        (\<lambda>_. submit_update_ger_note E cfg (gi_second I) h env signer)) (\<lambda>_. handed_over E T h) (\<lambda>_. idle_or_over E T h)"
      by (rule hoareE_bind [OF hoareE_stable [OF stable_client_result] hoare_submit_ger [OF assms(2)]]) simp_all
    ultimately show ?thesis by (blast dest: hoareE_D)
  next
    case False
    then have "isl r = isl r1" "sv' = sv1"
      using a assms(4) by (auto simp: submit_ger_with_recovery_def split: sum.splits if_splits)
    with h1 show ?thesis by (cases r; cases r1) auto
  qed
qed

lemma inject_submits:
  assumes "\<forall>k. list_all (task_keeps_link E h) (gm_others (gi_first I) k)"
    and "\<forall>k. list_all (task_keeps_link E h) (gm_others (gi_second I) k)" and "idle T sv"
    and "inject_ger E cfg I ger h env signer sv = (r, sv')"
  shows "case r of Inr new \<Rightarrow> (if new then handed_over E T h sv' else sv' = sv) | Inl _ \<Rightarrow> idle_or_over E T h sv'"
proof (cases "is_ger_injected ger (sv_store sv)")
  case True
  with assms(4) show ?thesis by (auto simp: inject_ger_def)
next
  case False
  obtain r1 sv1 where a: "submit_ger_with_recovery E cfg I h env signer sv = (r1, sv1)" by fastforce
  with False assms(4) have "sv' = sv1" "case r1 of Inr _ \<Rightarrow> r = Inr True | Inl e \<Rightarrow> r = Inl e"
    by (auto simp: inject_ger_def bindE_def read_store_def split: sum.splits)
  with recovery_submits [OF assms(1-3) a] show ?thesis by (auto split: sum.splits)
qed

lemma stable_over_local_receipts:
  "stableE (handed_over E T h) (record_local_pending_tx E h env signer x logs)"
  unfolding record_local_pending_tx_def by (intro stableE_rules stable_over_begin)

lemma handle_submits:
  assumes "case r of Inr new \<Rightarrow> (if new then handed_over E T h sv else idle T sv) | Inl _ \<Rightarrow> idle_or_over E T h sv"
    and "handle_ger_result E r h env signer sv = (r', sv')"
  shows "case r' of Inr _ \<Rightarrow> idle_or_over E T h sv' | Inl _ \<Rightarrow> idle T sv'"
proof (cases r)
  case (Inl e)
  with assms handed_over_handoff [of E T h sv] show ?thesis
    by (auto simp: handle_ger_result_def split: if_splits)
next
  case (Inr new)
  show ?thesis
  proof (cases new)
    case True
    with Inr assms have over: "handed_over E T h sv" by simp
    have "stableE (handed_over E T h) (handle_ger_result E r h env signer)"
      by (simp only: handle_ger_result_def Inr sum.case True if_True)
        (intro stableE_bindE stableE_read_store stableE_if stableE_okE stable_over_local_receipts)
    from stableE_D [OF this over assms(2)] have "handed_over E T h sv'" .
    moreover have "r' = Inr ()"
      using assms(2) by (auto simp: handle_ger_result_def Inr True record_local_pending_tx_def bindE_def try_store_def
          read_store_def txn_begin_if_absent_def split: if_splits option.splits)
    ultimately show ?thesis by simp
  next
    case False
    with Inr assms have "idle T sv" and "record_local_immediate_success E h env signer [] sv = (r', sv')"
      by (simp_all add: handle_ger_result_def)
    then have "idle T sv'" by (rule stableE_D [OF stable_idle_receipt])
    then show ?thesis by (simp split: sum.split)
  qed
qed

lemma ger_worker_submits:
  assumes "\<forall>k. list_all (task_keeps_link E h) (gm_others (gi_first I) k)"
    and "\<forall>k. list_all (task_keeps_link E h) (gm_others (gi_second I) k)" and "idle T sv"
    and "worker_handle_ger_insert E cfg I ger h env signer sv = Some (r, sv')"
  shows "case r of Inr _ \<Rightarrow> idle_or_over E T h sv' | Inl _ \<Rightarrow> idle T sv'"
proof -
  obtain r1 sv1 where i: "insert_ger E cfg I ger h env signer sv = Some (r1, sv1)"
    and w: "handle_ger_result E r1 h env signer sv1 = (r, sv')"
    using assms(4) by (auto simp: worker_handle_ger_insert_def)
  have "case r1 of Inr new \<Rightarrow> (if new then handed_over E T h sv1 else idle T sv1) | Inl _ \<Rightarrow> idle_or_over E T h sv1"
  proof (cases "wait_for_ger_l1_observed E I ger (cfg_reject_unverified_ger cfg) (cfg_l1_evidence_tag cfg) (sv_store sv)")
    case None
    with i show ?thesis by (simp add: insert_ger_def)
  next
    case (Some p)
    obtain rw s where p: "p = (rw, s)" by fastforce
    show ?thesis
    proof (cases rw)
      case (Inl e)
      with i Some p assms(3) show ?thesis by (auto simp: insert_ger_def)
    next
      case (Inr u)
      with i Some p have "inject_ger E cfg I ger h env signer (sv\<lparr>sv_store := s\<rparr>) = (r1, sv1)"
        by (simp add: insert_ger_def)
      with inject_submits [OF assms(1,2), where T = T and sv = "sv\<lparr>sv_store := s\<rparr>"] assms(3) show ?thesis
        by (fastforce split: sum.splits)
    qed
  qed
  from handle_submits [OF this w] show ?thesis .
qed

section \<open>Strict mode\<close>

lemma seen_gers_logs: "seen_gers (fold (\<lambda>ld st. snd (add_log (f ld) st)) lds s) = seen_gers s"
  by (induction lds arbitrary: s) (simp_all add: add_log_def)

lemma seen_gers_frame:
  "seen_gers (snd (prepare_note_handoff t c i x s)) = seen_gers s"
  "seen_gers (snd (txn_begin_if_absent E h e s)) = seen_gers s"
  "seen_gers (snd (confirm_note_handoff E t c s)) = seen_gers s"
  "seen_gers (snd (txn_commit E h res n bh s)) = seen_gers s"
  by (simp_all add: prepare_note_handoff_def txn_begin_if_absent_def confirm_note_handoff_def txn_commit_def Let_def
      seen_gers_logs split: option.split)

abbreviation witnessed :: "b256 \<Rightarrow> service \<Rightarrow> bool" where
  "witnessed ger sv \<equiv> corroborated ger (sv_store sv)"

lemma stable_witnessed_store:
  "(\<And>s. seen_gers (snd (f s)) = seen_gers s) \<Longrightarrow> stableE (witnessed ger) (on_store f)"
  "(\<And>s. seen_gers (snd (g s)) = seen_gers s) \<Longrightarrow> stableE (witnessed ger) (try_store err g)"
  by (intro stableE_rules; simp add: corroborated_def get_ger_entry_def)+

lemma stable_witnessed_others: "stableE (witnessed ger) (ger_others E C k)"
  by (simp add: stableE_def ger_others_def corroborated_tasks)

lemma stable_witnessed_submit_note: "stableE (witnessed ger) (submit_note h i r)"
  unfolding submit_note_def by (rule stableE_bindE) (simp_all add: stableE_def client_result_def liftE_def)

lemma stable_witnessed_submission: "stableE (witnessed ger) (submit_update_ger_note E cfg C h env signer)"
  unfolding submit_update_ger_note_def record_ger_submission_handoff_def
  by (intro stableE_bindE stableE_if stableE_okE stableE_errE stableE_case_prod stable_client_result stable_ensure_writable
      stable_witnessed_others stable_witnessed_submit_note stable_witnessed_store seen_gers_frame)

lemma stable_witnessed_recovery: "stableE (witnessed ger) (submit_ger_with_recovery E cfg I h env signer)"
  unfolding stableE_def
proof (intro allI impI)
  fix sv assume w: "witnessed ger sv"
  obtain r1 sv1 where a: "submit_update_ger_note E cfg (gi_first I) h env signer sv = (r1, sv1)" by fastforce
  have w1: "witnessed ger sv1" by (rule stableE_D [OF stable_witnessed_submission w a])
  have "stableE (witnessed ger) (bindE (client_result (gi_reimport I)) (\<lambda>_. submit_update_ger_note E cfg (gi_second I) h env signer))"
    by (intro stableE_bindE stable_client_result stable_witnessed_submission)
  with w1 show "witnessed ger (snd (submit_ger_with_recovery E cfg I h env signer sv))"
    by (simp add: submit_ger_with_recovery_def a stableE_def split: sum.split)
qed

lemma stable_witnessed_receipts:
  "stableE (witnessed ger) (record_local_pending_tx E h env signer x logs)"
  "stableE (witnessed ger) (record_local_immediate_success E h env signer logs)"
proof -
  have b: "stableE (witnessed ger) (block_hash_of E n)" for n
    by (simp add: stableE_def block_hash_of_def Let_def split: prod.split)
  show p: "stableE (witnessed ger) (record_local_pending_tx E h env signer x logs)" for x logs
    unfolding record_local_pending_tx_def
    by (intro stableE_bindE stableE_okE stable_witnessed_store seen_gers_frame)
  show "stableE (witnessed ger) (record_local_immediate_success E h env signer logs)"
    unfolding record_local_immediate_success_def record_local_success_at_block_def
    by (intro stableE_bindE stableE_read_store p b stable_witnessed_store seen_gers_frame)
qed

lemma stable_witnessed_result: "stableE (witnessed ger) (handle_ger_result E r h env signer)"
  unfolding handle_ger_result_def
  by (intro stableE_case_sum stableE_bindE stableE_if stableE_okE stableE_errE stableE_read_store stable_witnessed_receipts)

text \<open>Whatever the clock does, a strict wait that succeeds has seen the evidence.\<close>

lemma wait_loop_evidence:
  assumes "wait_loop E polls elapsed ger err timeout i s = Some (Inr u, s')"
  shows "ger_l1_evidence_reached ger s'"
proof -
  have "fst (Inr u :: write_error + unit, s') = Inr () \<longrightarrow> ger_l1_evidence_reached ger (snd (Inr u :: write_error + unit, s'))"
    using assms
    by (rule wait_loop.raw_induct [where P = "\<lambda>E polls elapsed ger err timeout i s y. fst y = Inr () \<longrightarrow> ger_l1_evidence_reached ger (snd y)", rotated])
      (auto simp: Let_def split: if_splits)
  then show ?thesis by simp
qed

lemma strict_wait_evidence:
  assumes "wait_for_ger_l1_observed E I ger True tag s = Some (Inr u, s')"
  shows "ger_l1_evidence_reached ger s'"
  using assms wait_loop_evidence [of E "gi_polls I" "gi_elapsed I" ger]
  by (auto simp: wait_for_ger_l1_observed_def wait_for_ger_l1_observed_with_timing_def ensure_observed_iff split: if_splits)

lemma strict_inject_witnessed:
  assumes "ger_l1_evidence_reached ger (sv_store sv)" and "inject_ger E cfg I ger h env signer sv = (r, sv')"
  shows "r = Inr False \<and> sv' = sv \<or> witnessed ger sv'"
proof (cases "is_ger_injected ger (sv_store sv)")
  case True
  with assms(2) show ?thesis by (simp add: inject_ger_def)
next
  case False
  with assms(1) have w: "witnessed ger sv" by (simp add: evidence_reached_iff)
  have "bindE (submit_ger_with_recovery E cfg I h env signer) (\<lambda>_. okE True) sv = (r, sv')"
    using False assms(2) by (simp add: inject_ger_def)
  with w have "witnessed ger sv'"
    by (rule stableE_D [OF stableE_bindE [OF stable_witnessed_recovery stableE_okE]])
  then show ?thesis ..
qed

section \<open>Properties\<close>

text \<open>
  C24. The wait for L1 evidence always ends, and it ends right. As long as the clock advances by
  the poll interval between polls, a strict wait returns after at most one poll more than the
  timeout has intervals. It answers at the first poll at which the evidence is there, or at the
  first at which the timeout has passed, and it succeeds exactly when the evidence is there at
  that poll; it writes nothing to the store itself.
\<close>

theorem ger_wait_terminates:
  assumes "\<forall>i. elapsed i + GER_EVIDENCE_POLL_INTERVAL \<le> elapsed (Suc i)"
    and "\<not> ger_l1_evidence_reached ger s"
  shows "\<exists>n \<le> timeout div GER_EVIDENCE_POLL_INTERVAL + 1.
           wait_for_ger_l1_observed_with_timing E polls elapsed ger True tag timeout s =
             Some (if ger_l1_evidence_reached ger (polled E polls 0 n s) then Inr () else Inl (CeGerNotObserved ger tag),
                   polled E polls 0 n s) \<and>
           (\<forall>j<n. elapsed j < timeout \<and> \<not> ger_l1_evidence_reached ger (polled E polls 0 j s)) \<and>
           (ger_l1_evidence_reached ger (polled E polls 0 n s) \<or> timeout \<le> elapsed n)"
proof -
  obtain n where n: "wait_loop E polls elapsed ger (CeGerNotObserved ger tag) timeout 0 s =
        Some (if ger_l1_evidence_reached ger (polled E polls 0 n s) then Inr () else Inl (CeGerNotObserved ger tag),
              polled E polls 0 n s)"
      "\<forall>j<n. elapsed j < timeout \<and> \<not> ger_l1_evidence_reached ger (polled E polls 0 j s)"
      "ger_l1_evidence_reached ger (polled E polls 0 n s) \<or> timeout \<le> elapsed n"
    using wait_loop_ends [OF assms(1), of 0 E polls ger "CeGerNotObserved ger tag" timeout s] by auto
  have "n \<le> timeout div GER_EVIDENCE_POLL_INTERVAL + 1"
  proof (cases n)
    case (Suc m)
    then have "m * GER_EVIDENCE_POLL_INTERVAL \<le> timeout"
      using n(2) clock_progress [OF assms(1), of m] by (meson lessI less_imp_le le_trans)
    then show ?thesis using Suc by (simp add: GER_EVIDENCE_POLL_INTERVAL_def less_eq_div_iff_mult_less_eq)
  qed simp
  with n assms(2) show ?thesis
    by (intro exI [of _ n]) (simp add: wait_for_ger_l1_observed_with_timing_def ensure_observed_iff)
qed

definition demo_polls :: "nat \<Rightarrow> task_op list" where
  "demo_polls i = (if i = 1 then [ScanTask 7 1 2 3 4] else [])"

theorem ger_wait_terminates_witness:
  "wait_for_ger_l1_observed_with_timing demo_ext demo_polls (\<lambda>i. 250 * i) 7 True Safe 300 new_store =
     Some (Inr (), polled demo_ext demo_polls 0 1 new_store)"
proof -
  let ?reached = "\<lambda>j. ger_l1_evidence_reached 7 (polled demo_ext demo_polls 0 j new_store)"
  have no: "\<not> ger_l1_evidence_reached 7 new_store"
    by (simp add: ger_l1_evidence_reached_def is_ger_injected_def get_ger_entry_def)
  have p: "?reached 1" "\<not> ?reached 0"
    by (simp_all add: demo_polls_def polled_def upt_conv_Cons ger_l1_evidence_reached_def is_ger_injected_def
        get_ger_entry_def task_exec_def set_ger_exit_roots_def roots_observed_def)
  have clock: "\<forall>i. 250 * i + GER_EVIDENCE_POLL_INTERVAL \<le> 250 * Suc i"
    by (simp add: GER_EVIDENCE_POLL_INTERVAL_def)
  obtain n where w: "wait_for_ger_l1_observed_with_timing demo_ext demo_polls (\<lambda>i. 250 * i) 7 True Safe 300 new_store =
        Some (if ?reached n then Inr () else Inl (CeGerNotObserved 7 Safe), polled demo_ext demo_polls 0 n new_store)"
      and b: "\<forall>j<n. 250 * j < 300 \<and> \<not> ?reached j" and e: "?reached n \<or> 300 \<le> 250 * n"
    using ger_wait_terminates [OF clock no, of 300 demo_ext demo_polls Safe] by blast
  have "n \<noteq> 0" using p(2) e by (cases "n = 0") auto
  moreover have "\<not> 1 < n" using b p(1) by blast
  ultimately have "n = 1" by linarith
  with w p(1) show ?thesis by simp
qed

text \<open>
  C22. Under strict injection no note for a root reaches the Miden node before the L1 scan
  corroborated the root. Whatever the clock, the client and the other tasks do: when the worker
  handed a note over, both exit roots of the root are stored and marked as observed by the
  configured scan.
\<close>

theorem strict_ger_needs_evidence:
  assumes "cfg_reject_unverified_ger cfg"
    and "worker_handle_ger_insert E cfg I ger h env signer sv = Some (r, sv')"
  shows "sv_submitted sv' = sv_submitted sv \<or> corroborated ger (sv_store sv')"
proof -
  let ?T = "sv_submitted sv"
  obtain rw s where w: "wait_for_ger_l1_observed E I ger True (cfg_l1_evidence_tag cfg) (sv_store sv) = Some (rw, s)"
    using assms by (auto simp: worker_handle_ger_insert_def insert_ger_def split: option.splits)
  show ?thesis
  proof (cases rw)
    case (Inl e)
    with assms w have "handle_ger_result E (Inl e) h env signer (sv\<lparr>sv_store := s\<rparr>) = (r, sv')"
      by (simp add: worker_handle_ger_insert_def insert_ger_def)
    then show ?thesis by (auto simp: handle_ger_result_def split: if_splits)
  next
    case (Inr u)
    obtain r1 sv1 where i: "inject_ger E cfg I ger h env signer (sv\<lparr>sv_store := s\<rparr>) = (r1, sv1)" by fastforce
    with assms w Inr have h: "handle_ger_result E r1 h env signer sv1 = (r, sv')"
      by (simp add: worker_handle_ger_insert_def insert_ger_def)
    have "ger_l1_evidence_reached ger s" using strict_wait_evidence w Inr by blast
    with strict_inject_witnessed [OF _ i] consider "r1 = Inr False" "sv1 = sv\<lparr>sv_store := s\<rparr>" | "witnessed ger sv1"
      by auto
    then show ?thesis
    proof cases
      case 1
      with h have "record_local_immediate_success E h env signer [] (sv\<lparr>sv_store := s\<rparr>) = (r, sv')"
        by (simp add: handle_ger_result_def)
      then have "idle ?T sv'" by (rule stableE_D [OF stable_idle_receipt, rotated]) (simp add: idle_def)
      then show ?thesis by (simp add: idle_def)
    next
      case 2
      from stableE_D [OF stable_witnessed_result this h] show ?thesis ..
    qed
  qed
qed

text \<open>A first attempt that fails before the note exists, and a second one whose commit is not seen in time.\<close>

definition demo_ger_client :: "client_error + unit \<Rightarrow> ger_client" where
  "demo_ger_client r = \<lparr>gm_closed = False, gm_sync = r, gm_note = Inr (''n'', ''c''), gm_execute = Inr 64, gm_prove = Inr (),
     gm_submit = Inr (), gm_apply = Inr (), gm_committed = Inr False, gm_others = (\<lambda>_. [])\<rparr>"

definition demo_injection :: ger_injection where
  "demo_injection = \<lparr>gi_wait_timeout = None, gi_polls = (\<lambda>_. [ScanTask 7 1 2 3 4]), gi_elapsed = (\<lambda>i. 250 * i),
     gi_first = demo_ger_client (Inl AccountDataNotFound), gi_second = demo_ger_client (Inr ()), gi_reimport = Inr ()\<rparr>"

lemma demo_ger_run:
  "\<exists>sv'. worker_handle_ger_insert demo_ext demo_config demo_injection 7 9 (demo_envelope 9 0) 6 demo_service = Some (Inr (), sv') \<and>
     sv_submitted sv' \<noteq> sv_submitted demo_service"
proof -
  let ?s = "set_ger_exit_roots 7 1 2 3 4 (sv_store demo_service)"
  have "wait_loop demo_ext (\<lambda>_. [ScanTask 7 1 2 3 4]) (\<lambda>i. 250 * i) 7 err timeout 0 (sv_store demo_service) = Some (Inr (), ?s)"
    for err timeout
    by (subst wait_loop.simps)
      (simp add: Let_def task_exec_def ger_l1_evidence_reached_def get_ger_entry_def set_ger_exit_roots_def roots_observed_def)
  then have "wait_for_ger_l1_observed demo_ext demo_injection 7 True Latest (sv_store demo_service) = Some (Inr (), ?s)"
    by (simp add: wait_for_ger_l1_observed_def wait_for_ger_l1_observed_with_timing_def demo_injection_def
        ensure_ger_l1_observed_def is_ger_injected_def get_ger_entry_def demo_service_def)
  then show ?thesis
    by (simp add: worker_handle_ger_insert_def insert_ger_def demo_config_def inject_ger_def is_ger_injected_def
        submit_ger_with_recovery_def demo_injection_def submit_update_ger_note_def demo_ger_client_def client_result_def
        is_recoverable_account_error_def get_note_link_for_tx_def ensure_writable_def ger_others_def
        record_ger_submission_handoff_def prepare_note_handoff_def txn_begin_if_absent_def try_store_def submit_note_def
        get_note_handoff_for_tx_def bindE_def read_store_def on_store_def liftE_def handle_ger_result_def
        record_local_pending_tx_def set_ger_exit_roots_def demo_service_def)
qed

theorem strict_ger_needs_evidence_witness:
  "\<exists>sv'. worker_handle_ger_insert demo_ext demo_config demo_injection 7 9 (demo_envelope 9 0) 6 demo_service = Some (Inr (), sv') \<and>
     corroborated 7 (sv_store sv')"
  using strict_ger_needs_evidence [where cfg = demo_config] demo_ger_run by (fastforce simp: demo_config_def)

text \<open>
  C23. The GER worker hands at most one note to the node per run, in both attempts together,
  whatever the client answers and whatever the other tasks do short of clearing this
  transaction's own expired preparation. The note is linked to the transaction, and when the
  worker reports an error nothing was handed over.
\<close>

theorem ger_worker_submits_once:
  assumes "\<forall>k. list_all (task_keeps_link E h) (gm_others (gi_first I) k)"
    and "\<forall>k. list_all (task_keeps_link E h) (gm_others (gi_second I) k)"
    and "worker_handle_ger_insert E cfg I ger h env signer sv = Some (r, sv')"
  shows "sv_submitted sv' = sv_submitted sv \<or>
         (\<exists>n. r = Inr () \<and> sv_submitted sv' = sv_submitted sv @ [(h, n)] \<and> linked_to E h n (sv_store sv'))"
proof -
  have "idle (sv_submitted sv) sv" by (simp add: idle_def)
  from ger_worker_submits [OF assms(1,2) this assms(3)] show ?thesis
    by (cases r) (auto simp: idle_def handed_over_def)
qed

theorem ger_worker_submits_once_witness:
  "\<exists>sv' n. worker_handle_ger_insert demo_ext demo_config demo_injection 7 9 (demo_envelope 9 0) 6 demo_service = Some (Inr (), sv') \<and>
     sv_submitted sv' = [(9, n)] \<and> linked_to demo_ext 9 n (sv_store sv')"
proof -
  obtain sv' where r: "worker_handle_ger_insert demo_ext demo_config demo_injection 7 9 (demo_envelope 9 0) 6 demo_service =
      Some (Inr (), sv')" and "sv_submitted sv' \<noteq> sv_submitted demo_service"
    using demo_ger_run by blast
  with ger_worker_submits_once [OF _ _ r] show ?thesis
    by (auto simp: demo_injection_def demo_ger_client_def demo_service_def)
qed

end
