(* ===== verification/Write_Path.thy ===== *)
theory Write_Path
  imports Ger_Insert
begin

text \<open>
  What every step of a publication keeps. The locale \<open>write_path\<close> says which primitive changes
  the claim and the GER publications are made of; an assertion that each of them keeps is kept
  by the whole publication, whatever the client answers. Two assertions are instances: the state
  of the writer is not touched, and the receipt of the transaction does not become a failure.
\<close>

section \<open>Acquiring a lock is a run of claim operations\<close>

lemma claim_exec_ops:
  "claim_exec E (OpTryClaim gi owner lease now) s = snd (try_claim_fenced gi owner lease now s)"
  "claim_exec E (OpReclaim gi owner lease now) s = snd (try_reclaim_claim_fenced gi owner lease now s)"
  "claim_exec E (OpPrepare gi owner f h c i x now) s = snd (prepare_claim_submission_fenced E gi owner f h c i x now s)"
  "claim_exec E (OpUnclaim gi owner f) s = snd (unclaim_fenced gi owner f s)"
  "claim_exec E (OpConfirm t c) s = snd (confirm_note_handoff E t c s)"
  by (simp_all add: claim_exec_def)

lemma fold_keeps: "(\<And>x s. P s \<Longrightarrow> P (f x s)) \<Longrightarrow> P s \<Longrightarrow> P (fold f xs s)"
  by (induction xs arbitrary: s) simp_all

lemma acquire_keeps:
  assumes step: "\<And>op s. P s \<Longrightarrow> P (claim_exec E op s)" and "P s"
  shows "P (snd (acquire_claim_lock E others now gi owner ttl s))"
proof -
  have run: "P s \<Longrightarrow> P (fold (claim_exec E) ops s)" for ops s
    by (rule fold_keeps [of P "claim_exec E", OF step])
  have take: "P s \<Longrightarrow> P (snd (try_claim_fenced gi owner ttl t s))"
    and retake: "P s \<Longrightarrow> P (snd (try_reclaim_claim_fenced gi owner ttl t s))"
    and free: "P s \<Longrightarrow> P (snd (unclaim_fenced gi owner f s))" for t f s
    using step [of s "OpTryClaim gi owner ttl t"] step [of s "OpReclaim gi owner ttl t"] step [of s "OpUnclaim gi owner f"]
    by (simp_all add: claim_exec_ops)
  show ?thesis
    unfolding acquire_claim_lock_def Let_def case_prod_unfold
    by (auto split: option.split intro!: run take retake free assms(2))
qed

text \<open>So is the wait for L1 evidence, of the operations other tasks do.\<close>

lemma wait_loop_run:
  assumes "wait_loop E polls elapsed ger err timeout i s = Some y"
  shows "\<exists>ops. snd y = fold (task_exec E) ops s"
  using assms
proof (rule wait_loop.raw_induct [where P = "\<lambda>E polls elapsed ger err timeout i s y. \<exists>ops. snd y = fold (task_exec E) ops s", rotated])
  fix wl E polls elapsed ger err timeout i s y
  assume IH: "\<And>E polls elapsed ger err timeout i s y. wl E polls elapsed ger err timeout i s = Some y \<Longrightarrow>
      \<exists>ops. snd y = fold (task_exec E) ops s"
    and body: "(let s' = fold (task_exec E) (polls i) s
      in if ger_l1_evidence_reached ger s' then Some (Inr (), s')
         else if timeout \<le> elapsed i then Some (Inl err, s')
         else wl E polls elapsed ger err timeout (Suc i) s') = Some y"
  let ?s = "fold (task_exec E) (polls i) s"
  consider "snd y = ?s" | "wl E polls elapsed ger err timeout (Suc i) ?s = Some y"
    using body by (auto simp: Let_def split: if_splits)
  then show "\<exists>ops. snd y = fold (task_exec E) ops s"
  proof cases
    case 2
    from IH [OF this] obtain ops where "snd y = fold (task_exec E) (polls i @ ops) s" by auto
    then show ?thesis by blast
  qed blast
qed

section \<open>The steps of a publication\<close>

locale write_path =
  fixes E :: externals and h :: tx_hash and P :: "service \<Rightarrow> bool"
  assumes keep_register: "P sv \<Longrightarrow> P (sv\<lparr>sv_store := snd (register_faucet f (sv_store sv))\<rparr>)"
    and keep_task: "P sv \<Longrightarrow> P (sv\<lparr>sv_store := task_exec E op (sv_store sv)\<rparr>)"
    and keep_expect: "P sv \<Longrightarrow> P (sv\<lparr>sv_mints := c, sv_store := expected_mint_record g m (sv_store sv)\<rparr>)"
    and keep_land: "P sv \<Longrightarrow> P (sv\<lparr>sv_mints := c, sv_store := expected_mint_remove g (sv_store sv)\<rparr>)"
    and keep_submitted: "P sv \<Longrightarrow> P (sv\<lparr>sv_submitted := T\<rparr>)"
    and keep_begin: "P sv \<Longrightarrow> P (sv\<lparr>sv_store := snd (txn_begin_if_absent E h e (sv_store sv))\<rparr>)"
    and keep_handoff: "P sv \<Longrightarrow> P (sv\<lparr>sv_store := snd (prepare_note_handoff t cm i x (sv_store sv))\<rparr>)"
begin

lemma keep_claim: "P sv \<Longrightarrow> P (sv\<lparr>sv_store := claim_exec E op (sv_store sv)\<rparr>)"
  using keep_task [of sv "ClaimTask op"] by (simp add: task_exec_def)

lemma keep_tasks: "P sv \<Longrightarrow> P (sv\<lparr>sv_store := fold (task_exec E) ops (sv_store sv)\<rparr>)"
proof (induction ops arbitrary: sv)
  case (Cons op ops)
  from Cons.IH [OF keep_task [OF Cons.prems, of op]] show ?case by simp
qed simp

lemma keep_claims: "P sv \<Longrightarrow> P (sv\<lparr>sv_store := fold (claim_exec E) ops (sv_store sv)\<rparr>)"
proof (induction ops arbitrary: sv)
  case (Cons op ops)
  from Cons.IH [OF keep_claim [OF Cons.prems, of op]] show ?case by simp
qed simp

lemma keep_acquire:
  assumes "P sv"
  shows "P (sv\<lparr>sv_store := snd (acquire_claim_lock E others now gi owner ttl (sv_store sv))\<rparr>)"
proof -
  have "P (sv\<lparr>sv_store := s\<rparr>) \<Longrightarrow> P (sv\<lparr>sv_store := claim_exec E op s\<rparr>)" for s op
    using keep_claim [of "sv\<lparr>sv_store := s\<rparr>"] by simp
  from acquire_keeps [where P = "\<lambda>s. P (sv\<lparr>sv_store := s\<rparr>)", OF this] assms show ?thesis by simp
qed

lemma keep_release: "P sv \<Longrightarrow> P (sv\<lparr>sv_store := snd (guard_release g (sv_store sv))\<rparr>)"
  using keep_claim [of sv "OpUnclaim (cg_global_index g) (cg_owner_tx_hash g) (cg_fence g)"]
  by (simp add: guard_release_def claim_exec_ops)

lemma stable_others: "stableE P (others_run E C k)" "stableE P (ger_others E C' k)"
  by (simp_all add: stableE_def others_run_def ger_others_def keep_claims keep_tasks)

lemma stable_register: "stableE P (try_store CeStore (register_faucet e))"
  by (rule stableE_try_store) (rule keep_register)

lemma stable_begin: "stableE P (try_store CeStore (txn_begin_if_absent E h e))"
  by (rule stableE_try_store) (rule keep_begin)

lemma stable_handoff: "stableE P (try_store CeStore (prepare_note_handoff t c i x))"
  by (rule stableE_try_store) (rule keep_handoff)

lemma stable_confirm: "stableE P (on_store (confirm_note_handoff E t c))"
  by (rule stableE_on_store) (use keep_claim [of _ "OpConfirm t c" for t c] in \<open>simp add: claim_exec_ops\<close>)

lemma stable_fence_prepare: "stableE P (with_fence (fence_prepare E fence cm i x now))"
  unfolding stableE_def
proof (intro allI impI)
  fix sv assume "P sv"
  from keep_claim [OF this, of "OpPrepare (cg_global_index fence) (cg_owner_tx_hash fence) (cg_fence fence)
      (cg_owner_tx_hash fence) cm i x now"]
  show "P (snd (with_fence (fence_prepare E fence cm i x now) sv))"
    by (auto simp: with_fence_def fence_prepare_def claim_exec_ops split: prod.split sum.split bool.split)
qed

lemma stable_fence_confirm: "stableE P (with_fence (fence_confirm E fence cm))"
  unfolding stableE_def
proof (intro allI impI)
  fix sv assume "P sv"
  from keep_claim [OF this, of "OpConfirm (ext_fmt_hash E (cg_owner_tx_hash fence)) cm"]
  show "P (snd (with_fence (fence_confirm E fence cm) sv))"
    by (auto simp: with_fence_def fence_confirm_def claim_exec_ops split: prod.split bool.split)
qed

lemma stable_mints:
  "stableE P (on_mints (record_expected E cap gi m))" "stableE P (on_mints (mark_landed gi))"
  by (simp_all add: stableE_def on_mints_def record_expected_def mark_landed_def keep_expect keep_land)

lemma stable_submit: "stableE P (submit_note h' i r)"
proof -
  have "stableE P (\<lambda>sv. (Inr (), sv\<lparr>sv_submitted := sv_submitted sv @ [(h', i)]\<rparr>) :: (write_error + unit) \<times> service)"
    by (simp add: stableE_def keep_submitted)
  then show ?thesis unfolding submit_note_def by (rule stableE_bindE) (rule stable_client_result)
qed

lemmas stable_steps =
  stable_others stable_register stable_begin stable_handoff stable_confirm stable_fence_prepare
  stable_fence_confirm stable_mints stable_submit stable_client_result stable_ensure_writable stable_prove_claim

lemma stable_faucet: "stableE P (find_or_create_faucet E A cfg C token network metadata)"
proof -
  have d: "stableE P (deploy_new_faucet E cfg C token network metadata)"
    unfolding deploy_new_faucet_def create_and_register_faucet_def Let_def
    by (intro stableE_rules stable_steps)
  have p: "stableE P (provision_faucet E A cfg C token network metadata)"
    unfolding provision_faucet_def
    by (intro stableE_bindE stableE_read_store stableE_case_option stableE_case_sum stableE_case_prod stableE_okE
        d stable_register)
  have "stableE P (find_or_provision E A cfg C token network metadata i again)" if "stableE P again" for i again
    unfolding find_or_provision_def
    using p that by (intro stableE_bindE stableE_read_store stableE_case_option stableE_okE) (simp add: stableE_okE split: peer.split)
  then show ?thesis unfolding find_or_create_faucet_def by (simp add: stableE_errE)
qed

lemma stable_create_claim: "stableE P (create_claim A C reject params f)"
  unfolding create_claim_def
  by (intro stableE_bindE stableE_read_store stableE_liftE stable_client_result)

lemma stable_publish_internal: "stableE P (publish_claim_internal E A cfg C fence params latest)"
  unfolding publish_claim_internal_def Let_def
  by (intro stableE_bindE stableE_case_prod stableE_if stableE_okE stableE_errE stable_faucet stable_create_claim stable_steps)

lemma stable_attempt: "stableE P (attempt_publish_claim E A cfg C fence params latest h env signer)"
  unfolding attempt_publish_claim_def
  by (intro stableE_bindE stableE_if stableE_okE stableE_errE stable_publish_internal stable_begin)

lemma stable_publish: "stableE P (publish_claim E A cfg C C' fence params latest h env signer)"
  unfolding stableE_def
proof (intro allI impI)
  fix sv assume p: "P sv"
  obtain r sv1 where a: "attempt_publish_claim E A cfg C fence params latest h env signer sv = (r, sv1)" by fastforce
  with p have "P sv1" by (rule stableE_D [OF stable_attempt])
  then show "P (snd (publish_claim E A cfg C C' fence params latest h env signer sv))"
    using stable_attempt by (auto simp: publish_claim_def a stableE_def split: sum.split)
qed

lemma stable_publish_and_record: "stableE P (publish_and_record_claim E A cfg W params h env signer guard)"
  unfolding stableE_def
proof (intro allI impI)
  fix sv assume p: "P sv"
  obtain r sv1 where a: "publish_claim E A cfg (wk_first W) (wk_second W) guard params (latest_block_number (sv_store sv)) h
      env signer sv = (r, sv1)" by fastforce
  with p have "P sv1" by (rule stableE_D [OF stable_publish])
  then show "P (snd (publish_and_record_claim E A cfg W params h env signer guard sv))"
    by (simp add: publish_and_record_claim_def a split: sum.split)
qed

lemma stable_ger_submission: "stableE P (submit_update_ger_note E cfg C h env signer)"
  unfolding submit_update_ger_note_def record_ger_submission_handoff_def
  by (intro stableE_bindE stableE_if stableE_case_prod stableE_okE stableE_errE stable_steps)

lemma stable_ger_recovery: "stableE P (submit_ger_with_recovery E cfg I h env signer)"
  unfolding stableE_def
proof (intro allI impI)
  fix sv assume p: "P sv"
  obtain r sv1 where a: "submit_update_ger_note E cfg (gi_first I) h env signer sv = (r, sv1)" by fastforce
  with p have "P sv1" by (rule stableE_D [OF stable_ger_submission])
  moreover have "stableE P (bindE (client_result (gi_reimport I)) (\<lambda>_. submit_update_ger_note E cfg (gi_second I) h env signer))"
    by (intro stableE_bindE stable_client_result stable_ger_submission)
  ultimately show "P (snd (submit_ger_with_recovery E cfg I h env signer sv))"
    by (auto simp: submit_ger_with_recovery_def a stableE_def split: sum.split)
qed

lemma stable_inject: "stableE P (inject_ger E cfg I ger h env signer)"
  unfolding inject_ger_def
  by (intro stableE_bindE stableE_read_store stableE_if stableE_okE stable_ger_recovery)

lemma insert_ger_keeps:
  assumes "P sv" and "insert_ger E cfg I ger h env signer sv = Some (r, sv')"
  shows "P sv'"
proof -
  obtain rw s where w: "wait_for_ger_l1_observed E I ger (cfg_reject_unverified_ger cfg) (cfg_l1_evidence_tag cfg) (sv_store sv)
      = Some (rw, s)"
    using assms(2) by (auto simp: insert_ger_def split: option.splits)
  then have "\<exists>ops. s = fold (task_exec E) ops (sv_store sv)"
    using wait_loop_run by (fastforce simp: wait_for_ger_l1_observed_def wait_for_ger_l1_observed_with_timing_def
        split: sum.splits if_splits intro: exI [of _ "[]"])
  then have "P (sv\<lparr>sv_store := s\<rparr>)" using keep_tasks [OF assms(1)] by auto
  then show ?thesis
    using assms(2) w stable_inject [of cfg I ger env signer]
    by (auto simp: insert_ger_def stableE_def split: sum.splits dest: spec [of _ "sv\<lparr>sv_store := s\<rparr>"])
qed

end

section \<open>The writer is not touched\<close>

interpretation kept_writer: write_path E h "\<lambda>sv. sv_writer sv = w" for E h w
  by unfold_locales simp_all

section \<open>No failure receipt\<close>

definition failed_receipt :: "tx_hash \<Rightarrow> mem_store \<Rightarrow> bool" where
  "failed_receipt h s =
     (case hm_get (transactions s) h of
        None \<Rightarrow> False
      | Some r \<Rightarrow> (case tr_result r of Some (Inl _) \<Rightarrow> True | _ \<Rightarrow> False))"

lemma failed_receipt_iff: "failed_receipt h s = (\<exists>reason n. txn_receipt_get h s = Some (Inl reason, n))"
  by (simp add: failed_receipt_def txn_receipt_get_def split: option.split sum.split)

lemma failed_receipt_cong: "transactions s' = transactions s \<Longrightarrow> failed_receipt h s' = failed_receipt h s"
  by (simp add: failed_receipt_def)

lemma failed_receipt_modify:
  assumes "\<And>r reason. tr_result (f r) = Some (Inl reason) \<Longrightarrow> tr_result r = Some (Inl reason)"
    and "failed_receipt h (s\<lparr>transactions := lru_modify k f m\<rparr>)"
  shows "failed_receipt h (s\<lparr>transactions := m\<rparr>)"
  using assms(2) by (auto simp: failed_receipt_def split: option.splits if_splits sum.splits dest: assms(1))

lemma transactions_only_links: "only_links s s' \<Longrightarrow> transactions s' = transactions s"
  unfolding only_links_def by (drule arg_cong [where f = transactions]) simp

lemma failed_receipt_settle:
  "failed_receipt h (s\<lparr>transactions := settle_receipt E t n m\<rparr>) \<Longrightarrow> failed_receipt h (s\<lparr>transactions := m\<rparr>)"
  by (auto simp: settle_receipt_def settle_success_def split: option.splits elim: failed_receipt_modify [rotated])

lemma failed_receipt_reopen:
  "failed_receipt h (s\<lparr>transactions := lru_modify k reopen_failed m\<rparr>) \<Longrightarrow> failed_receipt h (s\<lparr>transactions := m\<rparr>)"
  by (erule failed_receipt_modify [rotated]) (auto simp: reopen_failed_def split: option.splits sum.splits)

lemma transactions_claim_exec:
  "transactions (claim_exec E op s) = transactions s \<or>
   (\<exists>t n. transactions (claim_exec E op s) = settle_receipt E t n (transactions s)) \<or>
   (\<exists>k. transactions (claim_exec E op s) = lru_modify k reopen_failed (transactions s))"
proof (cases op)
  case (OpConfirm t c)
  then show ?thesis using transactions_only_links [OF only_links_confirm, of E t c s] by (simp add: claim_exec_def)
next
  case (OpConfirmByCommitment c)
  then show ?thesis using transactions_only_links [OF only_links_by_commitment, of E c s] by (simp add: claim_exec_def)
next
  case (OpConfirmPrepared ids)
  then show ?thesis using transactions_only_links [OF only_links_prepared, of E ids s] by (simp add: claim_exec_def)
next
  case (OpClearExpired t c)
  then show ?thesis
    by (cases rule: clear_expired_cases [of E t c s]) (auto simp: claim_exec_def split: option.split)
next
  case (OpLand n ba bn bh txh gi on oa da am now)
  then show ?thesis
    by (auto simp: claim_exec_def commit_manual_claim_event_atomic_def Let_def)
qed (simp_all add: claim_exec_def try_claim_fenced_def try_reclaim_claim_fenced_def
      prepare_claim_submission_fenced_def unclaim_fenced_def Let_def split: option.split)

lemma transactions_task:
  "transactions (task_exec E op s) = transactions s \<or>
   (\<exists>t n. transactions (task_exec E op s) = settle_receipt E t n (transactions s)) \<or>
   (\<exists>k. transactions (task_exec E op s) = lru_modify k reopen_failed (transactions s))"
proof (cases op)
  case (ClaimTask c)
  then show ?thesis using transactions_claim_exec [of E c s] by (simp add: task_exec_def)
next
  case (InjectTask c)
  then have "transactions (task_exec E op s) = settle_receipt E (gc_tx_hash c) (gc_block_number c) (transactions s)"
    by (simp add: task_exec_def ger_exec_def)
  then show ?thesis by blast
qed (simp add: task_exec_def set_ger_exit_roots_def Let_def)

lemma failed_receipt_task: "failed_receipt h (task_exec E op s) \<Longrightarrow> failed_receipt h s"
proof -
  have set: "failed_receipt h (s\<lparr>transactions := m\<rparr>) = failed_receipt h s'" if "transactions s' = m" for s' m
    using that by (simp add: failed_receipt_def)
  assume f: "failed_receipt h (task_exec E op s)"
  consider "transactions (task_exec E op s) = transactions s"
    | t n where "transactions (task_exec E op s) = settle_receipt E t n (transactions s)"
    | k where "transactions (task_exec E op s) = lru_modify k reopen_failed (transactions s)"
    using transactions_task [of E op s] by blast
  then show ?thesis
  proof cases
    case 1
    with f show ?thesis by (simp add: failed_receipt_def)
  next
    case (2 t n)
    with set [OF this] f have "failed_receipt h (s\<lparr>transactions := settle_receipt E t n (transactions s)\<rparr>)" by blast
    from failed_receipt_settle [OF this] show ?thesis by simp
  next
    case (3 k)
    with set [OF this] f have "failed_receipt h (s\<lparr>transactions := lru_modify k reopen_failed (transactions s)\<rparr>)" by blast
    from failed_receipt_reopen [OF this] show ?thesis by simp
  qed
qed

lemma failed_receipt_begin: "failed_receipt h (snd (txn_begin_if_absent E h e s)) \<Longrightarrow> failed_receipt h s"
  by (auto simp: failed_receipt_def txn_begin_if_absent_def refresh_pending_def receipt_of_entry_def hm_get_lru_put
      split: option.splits if_splits sum.splits)

lemma failed_receipt_frame [simp]:
  "failed_receipt h (snd (register_faucet f s)) = failed_receipt h s"
  "failed_receipt h (expected_mint_record g m s) = failed_receipt h s"
  "failed_receipt h (expected_mint_remove g s) = failed_receipt h s"
  "failed_receipt h (snd (prepare_note_handoff t c i x s)) = failed_receipt h s"
  by (rule failed_receipt_cong; simp add: register_faucet_def expected_mint_record_def expected_mint_remove_def
      prepare_note_handoff_def Let_def split: option.split)+

interpretation unfailed: write_path E h "\<lambda>sv. \<not> failed_receipt h (sv_store sv)" for E h
  by unfold_locales (auto dest: failed_receipt_task failed_receipt_begin)

end
