(* ===== verification/Writer_Worker.thy ===== *)
theory Writer_Worker
  imports Write_Path
begin

text \<open>
  The writer worker (\<^verbatim>\<open>src/src/writer_worker.rs\<close>): the single consumer of the bounded queue. It expires jobs
  that waited too long, dispatches the others, contains panics, and turns each outcome into the
  state of the in-flight entry and, where no note was handed over, a failure receipt. The
  sweeper renews reservations of live jobs and forgets old terminal entries.
\<close>

section \<open>Operations\<close>

text \<open>
  What one job meets: the clients, a panic of the dispatched task, the rendering of errors, and
  the clock when the job is taken and when it ends.
\<close>

record dispatch_env =
  de_claim :: worker_client
  de_ger :: ger_injection
  de_panic :: "string option"
  de_error_text :: "write_error \<Rightarrow> string"
  de_started :: time
  de_ended :: time

definition preserve_pending_after_handoff :: "externals \<Rightarrow> tx_hash \<Rightarrow> mem_store \<Rightarrow> bool" where
  "preserve_pending_after_handoff E h s = (get_note_handoff_for_tx (ext_fmt_hash E h) s \<noteq> None)"

definition write_failure_receipt :: "externals \<Rightarrow> tx_hash \<Rightarrow> string \<Rightarrow> (service, write_error, unit) handler" where
  "write_failure_receipt E h err_text =
     bindE (read_store (preserve_pending_after_handoff E h)) (\<lambda>preserved.
     if preserved then okE ()
     else
       bindE (read_store latest_block_number) (\<lambda>block_num.
       bindE (block_hash_of E block_num) (\<lambda>block_hash.
       try_store CeStore (txn_commit E h (Inl (''writer_worker: '' @ err_text)) block_num block_hash))))"

definition dispatch_job ::
    "externals \<Rightarrow> account_api \<Rightarrow> service_config \<Rightarrow> dispatch_env \<Rightarrow> write_job \<Rightarrow> service \<Rightarrow>
     ((write_error + unit) \<times> service) option" where
  "dispatch_job E A cfg D job sv =
     (case wj_call job of
        ClaimCall params \<Rightarrow>
          Some (worker_handle_claim_asset E A cfg (de_claim D) params (wj_eth_tx_hash job) (wj_envelope job)
                  (wj_signer job) sv)
      | GerCall ger_bytes \<Rightarrow>
          worker_handle_ger_insert E cfg (de_ger D) ger_bytes (wj_eth_tx_hash job) (wj_envelope job)
            (wj_signer job) sv)"

text \<open>A panic keeps what the task did and loses its result.\<close>

definition supervise_dispatch :: "string option \<Rightarrow> (write_error + unit) \<times> service \<Rightarrow> (write_error + unit) \<times> service" where
  "supervise_dispatch panic res = (case panic of None \<Rightarrow> res | Some msg \<Rightarrow> (Inl (CePanic msg), snd res))"

definition on_inflight ::
    "((tx_hash, in_flight_entry) hashmap \<Rightarrow> (tx_hash, in_flight_entry) hashmap) \<Rightarrow> service \<Rightarrow> service" where
  "on_inflight f sv =
     sv\<lparr>sv_writer := map_option (\<lambda>w. w\<lparr>wh_inflight := f (wh_inflight w)\<rparr>) (sv_writer sv)\<rparr>"

definition update_job :: "tx_hash \<Rightarrow> (in_flight_entry \<Rightarrow> in_flight_entry) \<Rightarrow> service \<Rightarrow> service" where
  "update_job h f = on_inflight (\<lambda>m. case hm_get m h of None \<Rightarrow> m | Some e \<Rightarrow> hm_insert h (f e) m)"

definition end_job :: "tx_hash \<Rightarrow> job_state \<Rightarrow> time \<Rightarrow> service \<Rightarrow> service" where
  "end_job h st now = update_job h (\<lambda>e. e\<lparr>if_state := st, if_terminal_at := Some now\<rparr>)"

definition fail_job :: "externals \<Rightarrow> dispatch_env \<Rightarrow> tx_hash \<Rightarrow> string \<Rightarrow> service \<Rightarrow> service" where
  "fail_job E D h err_text sv =
     (if preserve_pending_after_handoff E h (sv_store sv) then on_inflight (hm_remove h) sv
      else snd (write_failure_receipt E h err_text (end_job h JFailed (de_ended D) sv)))"

definition commit_job :: "dispatch_env \<Rightarrow> tx_hash \<Rightarrow> service \<Rightarrow> service" where
  "commit_job D h sv =
     (let block = latest_block_number (sv_store sv);
          sv1 = (if 0 < block then sv\<lparr>sv_block_tip := record_tip block (sv_block_tip sv)\<rparr> else sv)
      in end_job h (JCommitted block) (de_ended D) sv1)"

definition queue_wait :: "dispatch_env \<Rightarrow> tx_hash \<Rightarrow> service \<Rightarrow> time" where
  "queue_wait D h sv =
     (case sv_writer sv of
        None \<Rightarrow> 0
      | Some w \<Rightarrow> (case get_inflight h w of None \<Rightarrow> 0 | Some e \<Rightarrow> de_started D - if_created_at e))"

definition process ::
    "externals \<Rightarrow> account_api \<Rightarrow> service_config \<Rightarrow> dispatch_env \<Rightarrow> write_job \<Rightarrow> service \<Rightarrow> service option" where
  "process E A cfg D job sv =
     (let h = wj_eth_tx_hash job
      in if cfg_tx_ttl cfg \<le> queue_wait D h sv
         then Some (fail_job E D h
                (''writer_worker: TTL expired in queue before dispatch (>'' @ decimal_text (cfg_tx_ttl cfg) @ ''s)'') sv)
         else
           (case dispatch_job E A cfg D job (update_job h (\<lambda>e. e\<lparr>if_state := JSubmitting\<rparr>) sv) of
              None \<Rightarrow> None
            | Some res \<Rightarrow>
                (case supervise_dispatch (de_panic D) res of
                   (Inr _, sv') \<Rightarrow> Some (commit_job D h sv')
                 | (Inl err, sv') \<Rightarrow> Some (fail_job E D h (de_error_text D err) sv'))))"

text \<open>One round of the consuming loop: the head of the queue, if there is one.\<close>

definition run_once ::
    "externals \<Rightarrow> account_api \<Rightarrow> service_config \<Rightarrow> dispatch_env \<Rightarrow> service \<Rightarrow> service option" where
  "run_once E A cfg D sv =
     (case sv_writer sv of
        None \<Rightarrow> Some sv
      | Some w \<Rightarrow>
          (case wh_queue w of
             [] \<Rightarrow> Some sv
           | job # rest \<Rightarrow> process E A cfg D job (sv\<lparr>sv_writer := Some (w\<lparr>wh_queue := rest\<rparr>)\<rparr>)))"

section \<open>The sweeper\<close>

definition jobs_to_renew :: "writer_handle \<Rightarrow> (tx_hash \<times> address \<times> u64) list" where
  "jobs_to_renew w =
     map (\<lambda>(h, e). (h, if_signer e, envelope_nonce (if_envelope e)))
       (filter (\<lambda>(_, e). \<not> is_terminal (if_state e)) (wh_inflight w))"

definition jobs_to_evict :: "time \<Rightarrow> time \<Rightarrow> writer_handle \<Rightarrow> tx_hash list" where
  "jobs_to_evict ttl now w =
     map fst (filter (\<lambda>(_, e). is_terminal (if_state e) \<and>
                        (case if_terminal_at e of None \<Rightarrow> False | Some t \<Rightarrow> ttl < now - t)) (wh_inflight w))"

definition sweep :: "externals \<Rightarrow> service_config \<Rightarrow> time \<Rightarrow> service \<Rightarrow> service" where
  "sweep E cfg now sv =
     (case sv_writer sv of
        None \<Rightarrow> sv
      | Some w \<Rightarrow>
          let s = fold (\<lambda>(h, signer, nonce) s.
                    snd (renew_reservation (ext_fmt_address E signer) nonce h (cfg_reservation_lease cfg) now s))
                    (jobs_to_renew w) (sv_store sv)
          in on_inflight (fold hm_remove (jobs_to_evict (cfg_tx_ttl cfg) now w)) (sv\<lparr>sv_store := s\<rparr>))"

text \<open>The handle a spawned worker starts with.\<close>

definition spawn :: "nat \<Rightarrow> writer_handle" where
  "spawn queue_depth = \<lparr>wh_queue = [], wh_queue_depth = queue_depth, wh_closed = False, wh_inflight = []\<rparr>"

section \<open>The state machine of the writer\<close>

text \<open>
  Requests enqueue a hash that is not in flight (the request path answers a hash in flight without
  enqueueing it again), the worker takes jobs, the sweeper runs, other tasks change the store.
\<close>

inductive writer_step :: "externals \<Rightarrow> account_api \<Rightarrow> service_config \<Rightarrow> service \<Rightarrow> service \<Rightarrow> bool"
  for E A cfg where
  enqueue: "sv_writer sv = Some w \<Longrightarrow> \<not> is_inflight (wj_eth_tx_hash job) w \<Longrightarrow> try_enqueue job now w = (r, w') \<Longrightarrow>
      writer_step E A cfg sv (sv\<lparr>sv_writer := Some w'\<rparr>)"
| consume: "run_once E A cfg D sv = Some sv' \<Longrightarrow> writer_step E A cfg sv sv'"
| sweeping: "writer_step E A cfg sv (sweep E cfg now sv)"
| others: "writer_step E A cfg sv (sv\<lparr>sv_store := s\<rparr>)"
| shutdown: "sv_writer sv = Some w \<Longrightarrow> writer_step E A cfg sv (sv\<lparr>sv_writer := Some (w\<lparr>wh_closed := True\<rparr>)\<rparr>)"

inductive_cases writer_stepE: "writer_step E A cfg sv sv'"

text \<open>
  The queue respects its bound and holds each hash once; an entry is in flight and not terminal
  exactly when its job is queued, and it then describes that job.
\<close>

definition writer_ok :: "writer_handle \<Rightarrow> bool" where
  "writer_ok w =
     (length (wh_queue w) \<le> wh_queue_depth w \<and> hm_wf (wh_inflight w) \<and>
      distinct (map wj_eth_tx_hash (wh_queue w)) \<and>
      list_all (\<lambda>job. \<exists>now. get_inflight (wj_eth_tx_hash job) w = Some (in_flight_of_job job now)) (wh_queue w) \<and>
      (\<forall>h e. get_inflight h w = Some e \<and> h \<notin> wj_eth_tx_hash ` set (wh_queue w) \<longrightarrow>
             is_terminal (if_state e) \<and> if_terminal_at e \<noteq> None))"

section \<open>Dispatching does not touch the queue\<close>

lemma stable_writer_receipts:
  "stableE (\<lambda>sv. sv_writer sv = w) (block_hash_of E n)"
  "stableE (\<lambda>sv. sv_writer sv = w) (record_local_pending_tx E h env signer x logs)"
  "stableE (\<lambda>sv. sv_writer sv = w) (record_local_immediate_success E h env signer logs)"
  "stableE (\<lambda>sv. sv_writer sv = w) (accept_and_revert_landed_claim E params h env signer text n)"
  "stableE (\<lambda>sv. sv_writer sv = w) (write_failure_receipt E h err_text)"
proof -
  show b: "stableE (\<lambda>sv. sv_writer sv = w) (block_hash_of E n)" for n
    by (simp add: stableE_def block_hash_of_def Let_def split: prod.split)
  show p: "stableE (\<lambda>sv. sv_writer sv = w) (record_local_pending_tx E h env signer x logs)" for x logs
    unfolding record_local_pending_tx_def by (intro stableE_bindE stableE_try_store stableE_okE) simp
  show "stableE (\<lambda>sv. sv_writer sv = w) (record_local_immediate_success E h env signer logs)"
    unfolding record_local_immediate_success_def record_local_success_at_block_def
    by (intro stableE_bindE stableE_read_store stableE_try_store p b) simp
  show "stableE (\<lambda>sv. sv_writer sv = w) (accept_and_revert_landed_claim E params h env signer text n)"
    unfolding accept_and_revert_landed_claim_def
    by (intro stableE_bindE stableE_read_store stableE_on_store stableE_okE b) simp
  show "stableE (\<lambda>sv. sv_writer sv = w) (write_failure_receipt E h err_text)"
    unfolding write_failure_receipt_def
    by (intro stableE_bindE stableE_read_store stableE_if stableE_okE stableE_try_store b) simp
qed

lemma stable_dropping:
  assumes "stableE (\<lambda>sv. sv_writer sv = w) m"
  shows "stableE (\<lambda>sv. sv_writer sv = w) (dropping g m)"
  unfolding stableE_def
proof (intro allI impI)
  fix sv :: service assume "sv_writer sv = w"
  with assms have "sv_writer (snd (m sv)) = w" by (simp add: stableE_def)
  then show "sv_writer (snd (dropping g m sv)) = w"
    by (auto simp: dropping_def split: prod.split sum.split)
qed

lemma stable_writer_claim: "stableE (\<lambda>sv. sv_writer sv = w) (worker_handle_claim_asset E A cfg W params h env signer)"
proof -
  have q: "stableE (\<lambda>sv. sv_writer sv = w) (quarantine_unclaimable E params h env signer g)" for g
    unfolding quarantine_unclaimable_def
    by (intro stableE_bindE stableE_on_store stable_writer_receipts) (simp_all add: stableE_def release_guard_def)
  have c: "stableE (\<lambda>sv. sv_writer sv = w) (case x of Acquired f \<Rightarrow> a f | InFlight \<Rightarrow> b | Landed \<Rightarrow> c)"
    if "\<And>f. stableE (\<lambda>sv. sv_writer sv = w) (a f)" "stableE (\<lambda>sv. sv_writer sv = w) b" "stableE (\<lambda>sv. sv_writer sv = w) c"
    for x and a :: "u64 \<Rightarrow> (service, write_error, unit) handler" and b c
    using that by (cases x) simp_all
  show ?thesis
    unfolding worker_handle_claim_asset_def Let_def
    by (intro stableE_if stableE_errE stableE_bindE stableE_on_store stableE_read_store stableE_case_sum stable_dropping
        stable_writer_receipts q c kept_writer.stable_publish_and_record) simp
qed

lemma dispatch_keeps_writer:
  assumes "dispatch_job E A cfg D job sv = Some (r, sv')"
  shows "sv_writer sv' = sv_writer sv"
proof (cases "wj_call job")
  case (ClaimCall params)
  with assms have "worker_handle_claim_asset E A cfg (de_claim D) params (wj_eth_tx_hash job) (wj_envelope job) (wj_signer job)
      sv = (r, sv')" by (simp add: dispatch_job_def)
  from stableE_D [OF stable_writer_claim refl this] show ?thesis .
next
  case (GerCall ger)
  with assms obtain r1 sv1 where i: "insert_ger E cfg (de_ger D) ger (wj_eth_tx_hash job) (wj_envelope job) (wj_signer job) sv
        = Some (r1, sv1)"
    and w: "handle_ger_result E r1 (wj_eth_tx_hash job) (wj_envelope job) (wj_signer job) sv1 = (r, sv')"
    by (auto simp: dispatch_job_def worker_handle_ger_insert_def)
  have k: "sv_writer sv1 = sv_writer sv" by (rule kept_writer.insert_ger_keeps [OF refl i])
  have "stableE (\<lambda>sv'. sv_writer sv' = sv_writer sv) (handle_ger_result E r1 h env signer)" for h env signer
    unfolding handle_ger_result_def
    by (intro stableE_case_sum stableE_if stableE_bindE stableE_read_store stableE_okE stableE_errE stable_writer_receipts)
  from stableE_D [OF this k w] show ?thesis .
qed

section \<open>A job is settled\<close>

text \<open>What processing a job does to the handle: nothing but to end the job's own entry.\<close>

definition job_ended :: "tx_hash \<Rightarrow> writer_handle \<Rightarrow> writer_handle \<Rightarrow> bool" where
  "job_ended h w w' =
     (w' = w\<lparr>wh_inflight := wh_inflight w'\<rparr> \<and> (hm_wf (wh_inflight w) \<longrightarrow> hm_wf (wh_inflight w')) \<and>
      (\<forall>h'. h' \<noteq> h \<longrightarrow> get_inflight h' w' = get_inflight h' w) \<and>
      (case get_inflight h w' of
         None \<Rightarrow> True
       | Some e \<Rightarrow> is_terminal (if_state e) \<and> if_terminal_at e \<noteq> None))"

lemma on_inflight_writer [simp]:
  "sv_writer (on_inflight f sv) = map_option (\<lambda>w. w\<lparr>wh_inflight := f (wh_inflight w)\<rparr>) (sv_writer sv)"
  "sv_store (on_inflight f sv) = sv_store sv"
  "sv_submitted (on_inflight f sv) = sv_submitted sv"
  by (simp_all add: on_inflight_def)

lemma update_job_frame [simp]:
  "sv_store (update_job h f sv) = sv_store sv" "sv_submitted (update_job h f sv) = sv_submitted sv"
  "sv_store (end_job h st t sv) = sv_store sv" "sv_submitted (end_job h st t sv) = sv_submitted sv"
  by (simp_all add: update_job_def end_job_def)

lemma commit_job_frame [simp]:
  "sv_store (commit_job D h sv) = sv_store sv" "sv_submitted (commit_job D h sv) = sv_submitted sv"
  by (simp_all add: commit_job_def Let_def)

lemma end_job_ends:
  assumes "sv_writer sv = Some w" and "is_terminal st"
  shows "\<exists>w'. sv_writer (end_job h st t sv) = Some w' \<and> job_ended h w w'"
  using assms by (auto simp: end_job_def update_job_def job_ended_def get_inflight_def split: option.splits)

lemma job_ended_after:
  assumes "sv_writer sv = Some w" and "sv_writer sv1 = sv_writer (update_job h f sv)"
  obtains w1 where "sv_writer sv1 = Some w1" and "\<And>w'. job_ended h w1 w' \<Longrightarrow> job_ended h w w'"
proof
  let ?w = "w\<lparr>wh_inflight := (case hm_get (wh_inflight w) h of None \<Rightarrow> wh_inflight w | Some e \<Rightarrow> hm_insert h (f e) (wh_inflight w))\<rparr>"
  show "sv_writer sv1 = Some ?w" using assms by (simp add: update_job_def)
  show "job_ended h w w'" if "job_ended h ?w w'" for w'
    using that by (auto simp: job_ended_def get_inflight_def split: option.splits)
qed

lemma fail_job_ends:
  assumes "sv_writer sv = Some w"
  shows "\<exists>w'. sv_writer (fail_job E D h msg sv) = Some w' \<and> job_ended h w w'"
proof (cases "preserve_pending_after_handoff E h (sv_store sv)")
  case True
  with assms show ?thesis by (simp add: fail_job_def job_ended_def get_inflight_def)
next
  case False
  obtain w' where w': "sv_writer (end_job h JFailed (de_ended D) sv) = Some w'" "job_ended h w w'"
    using end_job_ends [OF assms, of JFailed] by (auto simp: is_terminal_def)
  have "sv_writer (snd (write_failure_receipt E h msg (end_job h JFailed (de_ended D) sv))) = Some w'"
    using stable_writer_receipts(5) [of "Some w'" E h msg] w'(1) by (simp add: stableE_def)
  with False w'(2) show ?thesis by (simp add: fail_job_def)
qed

lemma commit_job_ends:
  "sv_writer sv = Some w \<Longrightarrow> \<exists>w'. sv_writer (commit_job D h sv) = Some w' \<and> job_ended h w w'"
  by (simp add: commit_job_def Let_def end_job_ends is_terminal_def)

lemma process_ends:
  assumes "sv_writer sv = Some w" and "process E A cfg D job sv = Some sv'"
  shows "\<exists>w'. sv_writer sv' = Some w' \<and> job_ended (wj_eth_tx_hash job) w w'"
proof (cases "cfg_tx_ttl cfg \<le> queue_wait D (wj_eth_tx_hash job) sv")
  case True
  with assms fail_job_ends show ?thesis by (auto simp: process_def Let_def)
next
  case False
  let ?h = "wj_eth_tx_hash job"
  let ?sv = "update_job ?h (\<lambda>e. e\<lparr>if_state := JSubmitting\<rparr>) sv"
  obtain r sv1 where d: "dispatch_job E A cfg D job ?sv = Some (r, sv1)"
    using assms(2) False by (auto simp: process_def Let_def split: option.splits)
  obtain w1 where w1: "sv_writer sv1 = Some w1" "\<And>w'. job_ended ?h w1 w' \<Longrightarrow> job_ended ?h w w'"
    using job_ended_after [OF assms(1) dispatch_keeps_writer [OF d]] by metis
  obtain r2 where s: "supervise_dispatch (de_panic D) (r, sv1) = (r2, sv1)"
    by (cases "de_panic D") (simp_all add: supervise_dispatch_def)
  have "sv' = commit_job D ?h sv1 \<or> (\<exists>text. sv' = fail_job E D ?h text sv1)"
    using assms(2) False d s by (cases r2) (auto simp: process_def Let_def)
  then show ?thesis using commit_job_ends [OF w1(1)] fail_job_ends [OF w1(1)] w1(2) by metis
qed

section \<open>The invariant\<close>

lemma writer_ok_spawn: "writer_ok (spawn depth)"
  by (simp add: writer_ok_def spawn_def get_inflight_def)

lemma writer_ok_ended:
  assumes "writer_ok w" and "wh_queue w = job # rest"
    and "job_ended (wj_eth_tx_hash job) (w\<lparr>wh_queue := rest\<rparr>) w'"
  shows "writer_ok w'"
proof -
  let ?h = "wj_eth_tx_hash job"
  have w': "w' = w\<lparr>wh_queue := rest, wh_inflight := wh_inflight w'\<rparr>"
    using assms(3) by (simp add: job_ended_def)
  have q: "wh_queue w' = rest" "wh_queue_depth w' = wh_queue_depth w"
    by (subst w', simp)+
  have g: "get_inflight h' w' = get_inflight h' w" if "h' \<noteq> ?h" for h'
    using assms(3) that by (simp add: job_ended_def get_inflight_def)
  have t: "get_inflight ?h w' = Some e \<Longrightarrow> is_terminal (if_state e) \<and> if_terminal_at e \<noteq> None" for e
    using assms(3) by (simp add: job_ended_def)
  have other: "job' \<in> set rest \<Longrightarrow> wj_eth_tx_hash job' \<noteq> ?h" for job'
    using assms(1,2) by (auto simp: writer_ok_def image_iff)
  have "list_all (\<lambda>job. \<exists>now. get_inflight (wj_eth_tx_hash job) w' = Some (in_flight_of_job job now)) rest"
    using assms(1,2) g other by (auto simp: writer_ok_def list_all_iff)
  moreover have "is_terminal (if_state e) \<and> if_terminal_at e \<noteq> None"
    if "get_inflight h w' = Some e" "h \<notin> wj_eth_tx_hash ` set rest" for h e
  proof (cases "h = ?h")
    case True
    with that t show ?thesis by simp
  next
    case False
    with that g [of h] assms(1,2) show ?thesis by (fastforce simp: writer_ok_def)
  qed
  ultimately show ?thesis
    using assms q by (auto simp: writer_ok_def job_ended_def)
qed

lemma writer_ok_enqueue:
  assumes "writer_ok w" and "\<not> is_inflight (wj_eth_tx_hash job) w" and "try_enqueue job now w = (r, w')"
  shows "writer_ok w'"
proof (cases "wh_closed w \<or> available_capacity w = 0")
  case True
  have "get_inflight h w' = get_inflight h w" for h
    using True assms(2,3) by (auto simp: try_enqueue_def Let_def get_inflight_def is_inflight_def available_capacity_def split: if_splits)
  moreover have "wh_queue w' = wh_queue w" "wh_queue_depth w' = wh_queue_depth w" "hm_wf (wh_inflight w')"
    using True assms by (auto simp: try_enqueue_def writer_ok_def Let_def available_capacity_def split: if_splits)
  ultimately show ?thesis using assms(1) by (simp add: writer_ok_def)
next
  case False
  then have w': "w' = w\<lparr>wh_inflight := hm_insert (wj_eth_tx_hash job) (in_flight_of_job job now) (wh_inflight w),
      wh_queue := wh_queue w @ [job]\<rparr>"
    using assms(3) by (auto simp: try_enqueue_def Let_def available_capacity_def)
  have fresh: "wj_eth_tx_hash job \<notin> wj_eth_tx_hash ` set (wh_queue w)"
    using assms(1,2) by (auto simp: writer_ok_def is_inflight_def get_inflight_def list_all_iff)
  have "list_all (\<lambda>job'. \<exists>now. get_inflight (wj_eth_tx_hash job') w' = Some (in_flight_of_job job' now)) (wh_queue w @ [job])"
    using assms(1) fresh by (auto simp: w' writer_ok_def get_inflight_def list_all_iff image_iff)
  with assms(1) False fresh show ?thesis
    by (auto simp: w' writer_ok_def get_inflight_def available_capacity_def split: if_splits)
qed

lemma hm_get_remove_all: "hm_get (fold hm_remove ks m) k = (if k \<in> set ks then None else hm_get m k)"
  by (induction ks arbitrary: m) auto

lemma hm_wf_remove_all: "hm_wf m \<Longrightarrow> hm_wf (fold hm_remove ks m)"
  by (induction ks arbitrary: m) auto

lemma evicted_is_terminal:
  assumes "hm_wf (wh_inflight w)" and "h \<in> set (jobs_to_evict ttl now w)"
  shows "\<exists>e. get_inflight h w = Some e \<and> is_terminal (if_state e)"
  using assms by (auto simp: jobs_to_evict_def get_inflight_def dest: hm_in_get)

lemma writer_ok_evict:
  assumes "writer_ok w"
  shows "writer_ok (w\<lparr>wh_inflight := fold hm_remove (jobs_to_evict ttl now w) (wh_inflight w)\<rparr>)"
proof -
  let ?w = "w\<lparr>wh_inflight := fold hm_remove (jobs_to_evict ttl now w) (wh_inflight w)\<rparr>"
  have wf: "hm_wf (wh_inflight w)" using assms by (simp add: writer_ok_def)
  have same: "get_inflight (wj_eth_tx_hash job) ?w = get_inflight (wj_eth_tx_hash job) w" if j: "job \<in> set (wh_queue w)" for job
  proof -
    obtain t where "get_inflight (wj_eth_tx_hash job) w = Some (in_flight_of_job job t)"
      using assms j by (auto simp: writer_ok_def list_all_iff)
    then have "wj_eth_tx_hash job \<notin> set (jobs_to_evict ttl now w)"
      using evicted_is_terminal [OF wf, of "wj_eth_tx_hash job" ttl now] by (auto simp: in_flight_of_job_def is_terminal_def)
    then show ?thesis by (simp add: get_inflight_def hm_get_remove_all)
  qed
  have less: "get_inflight h ?w = Some e \<Longrightarrow> get_inflight h w = Some e" for h e
    by (simp add: get_inflight_def hm_get_remove_all split: if_splits)
  have "list_all (\<lambda>job. \<exists>now. get_inflight (wj_eth_tx_hash job) ?w = Some (in_flight_of_job job now)) (wh_queue w)"
    unfolding list_all_iff
  proof
    fix job assume j: "job \<in> set (wh_queue w)"
    with assms show "\<exists>now. get_inflight (wj_eth_tx_hash job) ?w = Some (in_flight_of_job job now)"
      unfolding same [OF j] by (auto simp: writer_ok_def list_all_iff)
  qed
  moreover have "is_terminal (if_state e) \<and> if_terminal_at e \<noteq> None"
    if "get_inflight h ?w = Some e" "h \<notin> wj_eth_tx_hash ` set (wh_queue w)" for h e
    using less [OF that(1)] that(2) assms unfolding writer_ok_def by blast
  ultimately show ?thesis
    using assms hm_wf_remove_all [OF wf] unfolding writer_ok_def by auto
qed

definition writer_good :: "nat \<Rightarrow> service \<Rightarrow> bool" where
  "writer_good depth sv = (\<exists>w. sv_writer sv = Some w \<and> writer_ok w \<and> wh_queue_depth w = depth)"

lemma job_ended_depth: "job_ended h w w' \<Longrightarrow> wh_queue_depth w' = wh_queue_depth w \<and> wh_queue w' = wh_queue w"
proof -
  assume "job_ended h w w'"
  then have "w' = w\<lparr>wh_inflight := wh_inflight w'\<rparr>" by (simp add: job_ended_def)
  then show ?thesis by (metis writer_handle.select_convs(1,2) writer_handle.surjective writer_handle.update_convs(4))
qed

lemma run_once_good:
  assumes "writer_good depth sv" and "run_once E A cfg D sv = Some sv'"
  shows "writer_good depth sv'"
proof -
  obtain w where w: "sv_writer sv = Some w" "writer_ok w" "wh_queue_depth w = depth"
    using assms(1) by (auto simp: writer_good_def)
  show ?thesis
  proof (cases "wh_queue w")
    case Nil
    with assms w show ?thesis by (simp add: run_once_def)
  next
    case (Cons job rest)
    then have "process E A cfg D job (sv\<lparr>sv_writer := Some (w\<lparr>wh_queue := rest\<rparr>)\<rparr>) = Some sv'"
      using assms(2) w(1) by (simp add: run_once_def)
    from process_ends [OF _ this] obtain w' where
      "sv_writer sv' = Some w'" "job_ended (wj_eth_tx_hash job) (w\<lparr>wh_queue := rest\<rparr>) w'" by auto
    with writer_ok_ended [OF w(2) Cons] w(3) job_ended_depth show ?thesis by (fastforce simp: writer_good_def)
  qed
qed

lemma writer_good_step: "writer_step E A cfg sv sv' \<Longrightarrow> writer_good depth sv \<Longrightarrow> writer_good depth sv'"
proof (induction rule: writer_step.induct)
  case (enqueue sv w job now r w')
  then have "wh_queue_depth w' = wh_queue_depth w"
    by (auto simp: try_enqueue_def Let_def split: if_splits)
  with enqueue writer_ok_enqueue show ?case by (auto simp: writer_good_def)
next
  case (consume D sv sv')
  then show ?case by (simp add: run_once_good)
next
  case (sweeping sv now)
  then show ?case
    by (auto simp: writer_good_def sweep_def Let_def intro: writer_ok_evict)
next
  case (shutdown sv w)
  then show ?case by (auto simp: writer_good_def writer_ok_def get_inflight_def)
qed (simp add: writer_good_def)

section \<open>Failures are true\<close>

lemma claim_worker_unfailed:
  assumes "\<not> failed_receipt h (sv_store sv)" and "idle T sv"
    and "worker_handle_claim_asset E A cfg W params h env signer sv = (r, sv')"
  shows "idle T sv' \<or> \<not> failed_receipt h (sv_store sv')"
proof (cases "cc_destination_network params \<noteq> cfg_network_id cfg \<or> cc_amount params = 0")
  case True
  then show ?thesis
    using assms(2,3) stableE_D [OF stable_idle_receipt assms(2)]
    by (auto simp: worker_handle_claim_asset_def split: if_splits)
next
  case False
  let ?acq = "acquire_claim_lock E (wk_others W) (wk_now W) (cc_global_index params) h (cfg_claim_resubmit_ttl cfg) (sv_store sv)"
  let ?sv1 = "sv\<lparr>sv_store := snd ?acq\<rparr>"
  have i1: "idle T ?sv1" and u1: "\<not> failed_receipt h (sv_store ?sv1)"
    using assms(2) unfailed.keep_acquire [OF assms(1)] by simp_all
  show ?thesis
  proof (cases "fst ?acq")
    case (Acquired f)
    let ?g = "guard_new (cc_global_index params) h f"
    show ?thesis
    proof (cases "isl (resolve_address (cl_embedded (wk_first W)) (cc_destination_address params) (snd ?acq))")
      case True
      with assms(3) False Acquired have "dropping ?g (quarantine_unclaimable E params h env signer ?g) ?sv1 = (r, sv')"
        by (auto simp: worker_handle_claim_asset_def Let_def split: sum.splits)
      then have "idle T sv'"
        using stableE_D [OF stable_idle_quarantine i1]
        by (fastforce simp: dropping_def split: prod.splits sum.splits)
      then show ?thesis ..
    next
      case res: False
      obtain r2 sv2 where p: "publish_and_record_claim E A cfg W params h env signer ?g ?sv1 = (r2, sv2)" by fastforce
      have u2: "\<not> failed_receipt h (sv_store sv2)"
        by (rule stableE_D [OF unfailed.stable_publish_and_record u1 p])
      have "dropping ?g (publish_and_record_claim E A cfg W params h env signer ?g) ?sv1 = (r, sv')"
        using assms(3) False Acquired res by (auto simp: worker_handle_claim_asset_def Let_def split: sum.splits)
      with p u2 unfailed.keep_release [OF u2, of ?g] show ?thesis
        by (auto simp: dropping_def split: sum.splits)
    qed
  next
    case InFlight
    then show ?thesis using assms(3) False i1 by (auto simp: worker_handle_claim_asset_def)
  next
    case Landed
    then have "accept_and_revert_landed_claim E params h env signer (ext_fmt_address E signer) (envelope_nonce env) ?sv1 = (r, sv')"
      using assms(3) False by (simp add: worker_handle_claim_asset_def)
    from stableE_D [OF stable_idle_revert i1 this] show ?thesis ..
  qed
qed

lemma ger_worker_unfailed:
  assumes "\<not> failed_receipt h (sv_store sv)" and "idle T sv"
    and "worker_handle_ger_insert E cfg I ger h env signer sv = Some (r, sv')"
  shows "idle T sv' \<or> \<not> failed_receipt h (sv_store sv')"
proof -
  obtain r1 sv1 where i: "insert_ger E cfg I ger h env signer sv = Some (r1, sv1)"
    and w: "handle_ger_result E r1 h env signer sv1 = (r, sv')"
    using assms(3) by (auto simp: worker_handle_ger_insert_def)
  have u: "\<not> failed_receipt h (sv_store sv1)" by (rule unfailed.insert_ger_keeps [OF assms(1) i])
  show ?thesis
  proof (cases "r1 = Inr False")
    case True
    have "sv_submitted sv1 = sv_submitted sv"
      using i True by (auto simp: insert_ger_def inject_ger_def bindE_def read_store_def
          split: option.splits prod.splits sum.splits if_splits)
    with assms(2) have "idle T sv1" by (simp add: idle_def)
    moreover have "record_local_immediate_success E h env signer [] sv1 = (r, sv')"
      using w True by (simp add: handle_ger_result_def)
    ultimately have "idle T sv'" by (rule stableE_D [OF stable_idle_receipt])
    then show ?thesis ..
  next
    case False
    have p: "stableE (\<lambda>sv. \<not> failed_receipt h (sv_store sv)) (record_local_pending_tx E h env signer None [])"
      unfolding record_local_pending_tx_def by (intro stableE_bindE unfailed.stable_begin stableE_okE)
    have "stableE (\<lambda>sv. \<not> failed_receipt h (sv_store sv)) (handle_ger_result E r1 h env signer)"
    proof (cases r1)
      case (Inl e)
      then show ?thesis
        by (simp only: handle_ger_result_def sum.case) (intro stableE_bindE stableE_read_store stableE_if stableE_okE stableE_errE)
    next
      case (Inr new)
      with \<open>r1 \<noteq> Inr False\<close> have "new" by simp
      with Inr show ?thesis
        by (simp only: handle_ger_result_def sum.case if_True) (intro stableE_bindE stableE_read_store stableE_if stableE_okE p)
    qed
    from stableE_D [OF this u w] show ?thesis ..
  qed
qed

text \<open>Other tasks may do anything but clear the preparation of this transaction.\<close>

definition env_keeps_link :: "externals \<Rightarrow> tx_hash \<Rightarrow> dispatch_env \<Rightarrow> bool" where
  "env_keeps_link E h D =
     ((\<forall>k. list_all (keeps_link E h) (cl_others (wk_first (de_claim D)) k)) \<and>
      (\<forall>k. list_all (keeps_link E h) (cl_others (wk_second (de_claim D)) k)) \<and>
      (\<forall>k. list_all (task_keeps_link E h) (gm_others (gi_first (de_ger D)) k)) \<and>
      (\<forall>k. list_all (task_keeps_link E h) (gm_others (gi_second (de_ger D)) k)))"

lemma dispatch_submits:
  assumes "env_keeps_link E (wj_eth_tx_hash job) D" and "idle T sv" and "\<not> failed_receipt (wj_eth_tx_hash job) (sv_store sv)"
    and "dispatch_job E A cfg D job sv = Some (r, sv')"
  shows "idle T sv' \<or> handed_over E T (wj_eth_tx_hash job) sv' \<and> \<not> failed_receipt (wj_eth_tx_hash job) (sv_store sv')"
proof -
  let ?h = "wj_eth_tx_hash job"
  have k: "\<forall>k. list_all (keeps_link E ?h) (cl_others (wk_first (de_claim D)) k)"
    "\<forall>k. list_all (keeps_link E ?h) (cl_others (wk_second (de_claim D)) k)"
    "\<forall>k. list_all (task_keeps_link E ?h) (gm_others (gi_first (de_ger D)) k)"
    "\<forall>k. list_all (task_keeps_link E ?h) (gm_others (gi_second (de_ger D)) k)"
    using assms(1) by (simp_all add: env_keeps_link_def)
  have "(case r of Inr _ \<Rightarrow> idle_or_over E T ?h sv' | Inl _ \<Rightarrow> idle T sv') \<and>
      (idle T sv' \<or> \<not> failed_receipt ?h (sv_store sv'))"
  proof (cases "wj_call job")
    case (ClaimCall params)
    with assms(4) have d: "worker_handle_claim_asset E A cfg (de_claim D) params ?h (wj_envelope job) (wj_signer job) sv = (r, sv')"
      by (simp add: dispatch_job_def)
    from worker_submits [OF k(1,2) assms(2) d] claim_worker_unfailed [OF assms(3,2) d] show ?thesis ..
  next
    case (GerCall ger)
    with assms(4) have d: "worker_handle_ger_insert E cfg (de_ger D) ger ?h (wj_envelope job) (wj_signer job) sv = Some (r, sv')"
      by (simp add: dispatch_job_def)
    from ger_worker_submits [OF k(3,4) assms(2) d] ger_worker_unfailed [OF assms(3,2) d] show ?thesis ..
  qed
  then show ?thesis by (auto split: sum.splits)
qed

lemma stable_idle_failure: "stableE (idle T) (write_failure_receipt E h err_text)"
  unfolding write_failure_receipt_def
  by (intro stableE_bindE stableE_read_store stableE_if stableE_okE stableE_try_store stable_idle_block_hash) simp

lemma fail_job_idle: "idle T sv \<Longrightarrow> idle T (fail_job E D h msg sv)"
proof -
  assume "idle T sv"
  then have "idle T (on_inflight (hm_remove h) sv)" and e: "idle T (end_job h JFailed (de_ended D) sv)"
    by (simp_all add: idle_def)
  moreover have "idle T (snd (write_failure_receipt E h msg (end_job h JFailed (de_ended D) sv)))"
    using stable_idle_failure [of T E h msg] e by (simp add: stableE_def)
  ultimately show ?thesis by (simp add: fail_job_def)
qed

lemma fail_job_handed_over:
  assumes "handed_over E T h sv"
  shows "fail_job E D h msg sv = on_inflight (hm_remove h) sv"
  using handed_over_handoff [OF assms] by (simp add: fail_job_def preserve_pending_after_handoff_def)

section \<open>A job never hangs\<close>

lemma ger_worker_returns:
  assumes "\<forall>i. gi_elapsed I i + GER_EVIDENCE_POLL_INTERVAL \<le> gi_elapsed I (Suc i)"
  shows "\<exists>r sv'. worker_handle_ger_insert E cfg I ger h env signer sv = Some (r, sv')"
proof -
  have "\<exists>y. wait_loop E (gi_polls I) (gi_elapsed I) ger err t 0 s = Some y" for err t s
    using wait_loop_ends [OF assms, of 0 E "gi_polls I" ger err t s] by blast
  then have "\<exists>rw s. wait_for_ger_l1_observed E I ger req tag (sv_store sv) = Some (rw, s)" for req tag
    by (fastforce simp: wait_for_ger_l1_observed_def wait_for_ger_l1_observed_with_timing_def ensure_observed_iff)
  then obtain rw s where
    "wait_for_ger_l1_observed E I ger (cfg_reject_unverified_ger cfg) (cfg_l1_evidence_tag cfg) (sv_store sv) = Some (rw, s)"
    by blast
  then have "\<exists>y. insert_ger E cfg I ger h env signer sv = Some y"
    by (cases rw) (simp_all add: insert_ger_def)
  then show ?thesis by (auto simp: worker_handle_ger_insert_def)
qed

lemma process_returns:
  assumes "\<forall>i. gi_elapsed (de_ger D) i + GER_EVIDENCE_POLL_INTERVAL \<le> gi_elapsed (de_ger D) (Suc i)"
  shows "\<exists>sv'. process E A cfg D job sv = Some sv'"
proof -
  obtain res where "dispatch_job E A cfg D job (update_job (wj_eth_tx_hash job) (\<lambda>e. e\<lparr>if_state := JSubmitting\<rparr>) sv) = Some res"
    using ger_worker_returns [OF assms] by (fastforce simp: dispatch_job_def split: decoded_write_call.split)
  then show ?thesis
    by (simp add: process_def Let_def split: prod.split sum.split)
qed

text \<open>The receipt after a failure was written: no row is left pending.\<close>

lemma failure_receipt_settles:
  assumes "\<not> preserve_pending_after_handoff E h (sv_store sv)"
    and "hm_get (transactions (sv_store (snd (write_failure_receipt E h msg sv)))) h = Some row"
  shows "tr_result row \<noteq> None"
proof -
  let ?n = "latest_block_number (sv_store sv)"
  obtain bh bs where b: "get_block_hash E ?n (sv_block_state sv) = (bh, bs)" by fastforce
  have "sv_store (snd (write_failure_receipt E h msg sv)) =
      snd (txn_commit E h (Inl (''writer_worker: '' @ msg)) ?n bh (sv_store sv))"
    using assms(1) b
    by (auto simp: write_failure_receipt_def bindE_def read_store_def block_hash_of_def try_store_def split: prod.split sum.split)
  with assms show ?thesis
    by (auto simp: txn_commit_row preserve_pending_after_handoff_def get_note_handoff_for_tx_def commit_applies_iff
        txn_state_of_def is_err_def split: if_splits option.splits sum.splits)
qed

text \<open>How a job may leave the in-flight map.\<close>

definition settled :: "externals \<Rightarrow> tx_hash \<Rightarrow> service \<Rightarrow> writer_handle \<Rightarrow> bool" where
  "settled E h sv w =
     (case get_inflight h w of
        None \<Rightarrow> get_note_handoff_for_tx (ext_fmt_hash E h) (sv_store sv) \<noteq> None
      | Some e \<Rightarrow> is_terminal (if_state e) \<and>
          (if_state e = JFailed \<longrightarrow>
             (\<forall>row. hm_get (transactions (sv_store sv)) h = Some row \<longrightarrow> tr_result row \<noteq> None)))"

lemma fail_job_settles:
  assumes "sv_writer sv = Some w" and "get_inflight h w = Some e"
  shows "\<exists>w'. sv_writer (fail_job E D h msg sv) = Some w' \<and> settled E h (fail_job E D h msg sv) w'"
proof (cases "preserve_pending_after_handoff E h (sv_store sv)")
  case True
  with assms show ?thesis
    by (simp add: fail_job_def settled_def get_inflight_def preserve_pending_after_handoff_def)
next
  case False
  let ?sv = "end_job h JFailed (de_ended D) sv"
  obtain w' where w': "sv_writer ?sv = Some w'" "get_inflight h w' = Some (e\<lparr>if_state := JFailed, if_terminal_at := Some (de_ended D)\<rparr>)"
    using assms by (auto simp: end_job_def update_job_def get_inflight_def)
  have "sv_writer (snd (write_failure_receipt E h msg ?sv)) = Some w'"
    using stable_writer_receipts(5) [of "Some w'" E h msg] w'(1) by (simp add: stableE_def)
  moreover have "settled E h (snd (write_failure_receipt E h msg ?sv)) w'"
    using failure_receipt_settles [of E h ?sv msg] False w'(2) by (auto simp: settled_def is_terminal_def)
  ultimately show ?thesis using False by (simp add: fail_job_def)
qed

lemma commit_job_settles:
  assumes "sv_writer sv = Some w" and "get_inflight h w = Some e"
  shows "\<exists>w'. sv_writer (commit_job D h sv) = Some w' \<and> settled E h (commit_job D h sv) w'"
  using assms
  by (auto simp: commit_job_def Let_def end_job_def update_job_def on_inflight_def get_inflight_def settled_def is_terminal_def)

lemma process_settles:
  assumes "sv_writer sv = Some w" and "get_inflight (wj_eth_tx_hash job) w = Some e"
    and "process E A cfg D job sv = Some sv'"
  shows "\<exists>w'. sv_writer sv' = Some w' \<and> settled E (wj_eth_tx_hash job) sv' w'"
proof (cases "cfg_tx_ttl cfg \<le> queue_wait D (wj_eth_tx_hash job) sv")
  case True
  with assms fail_job_settles [OF assms(1,2)] show ?thesis by (auto simp: process_def Let_def)
next
  case False
  let ?h = "wj_eth_tx_hash job"
  let ?sv = "update_job ?h (\<lambda>e. e\<lparr>if_state := JSubmitting\<rparr>) sv"
  obtain r sv1 where d: "dispatch_job E A cfg D job ?sv = Some (r, sv1)"
    using assms(3) False by (auto simp: process_def Let_def split: option.splits)
  have "\<exists>w1 e1. sv_writer sv1 = Some w1 \<and> get_inflight ?h w1 = Some e1"
    using assms(1,2) dispatch_keeps_writer [OF d] by (auto simp: update_job_def get_inflight_def)
  then obtain w1 e1 where w1: "sv_writer sv1 = Some w1" "get_inflight ?h w1 = Some e1" by blast
  have "snd (supervise_dispatch (de_panic D) (r, sv1)) = sv1"
    by (simp add: supervise_dispatch_def split: option.split)
  then have "sv' = commit_job D ?h sv1 \<or> (\<exists>msg. sv' = fail_job E D ?h msg sv1)"
    using assms(3) False d by (auto simp: process_def Let_def split: prod.splits sum.splits)
  then show ?thesis using commit_job_settles [OF w1] fail_job_settles [OF w1] by metis
qed

section \<open>Properties\<close>


text \<open>
  C9. A failure receipt is never untrue. Processing one job, whatever the client answers, whether
  or not the dispatched task panics, and whatever other tasks do short of clearing this
  transaction's preparation, hands over at most one note; when it did hand one over, the note is
  linked to the transaction and the transaction has no failure receipt; and a job that spent its
  time to live in the queue hands over nothing.
\<close>

theorem writer_failures_are_true:
  assumes "process E A cfg D job sv = Some sv'" and "env_keeps_link E (wj_eth_tx_hash job) D"
    and "\<not> failed_receipt (wj_eth_tx_hash job) (sv_store sv)"
  shows "sv_submitted sv' = sv_submitted sv \<or>
           queue_wait D (wj_eth_tx_hash job) sv < cfg_tx_ttl cfg \<and>
           \<not> failed_receipt (wj_eth_tx_hash job) (sv_store sv') \<and>
           (\<exists>n. sv_submitted sv' = sv_submitted sv @ [(wj_eth_tx_hash job, n)] \<and>
                linked_to E (wj_eth_tx_hash job) n (sv_store sv'))"
proof -
  let ?h = "wj_eth_tx_hash job" and ?T = "sv_submitted sv"
  have i: "idle ?T sv" by (simp add: idle_def)
  show ?thesis
  proof (cases "cfg_tx_ttl cfg \<le> queue_wait D ?h sv")
    case True
    with assms(1) fail_job_idle [OF i] show ?thesis by (auto simp: process_def Let_def idle_def)
  next
    case False
    let ?sv = "update_job ?h (\<lambda>e. e\<lparr>if_state := JSubmitting\<rparr>) sv"
    obtain r sv1 where d: "dispatch_job E A cfg D job ?sv = Some (r, sv1)"
      using assms(1) False by (auto simp: process_def Let_def split: option.splits)
    have "idle ?T ?sv" "\<not> failed_receipt ?h (sv_store ?sv)" using i assms(3) by (simp_all add: idle_def)
    from dispatch_submits [OF assms(2) this d]
    have o: "idle ?T sv1 \<or> handed_over E ?T ?h sv1 \<and> \<not> failed_receipt ?h (sv_store sv1)" .
    have "snd (supervise_dispatch (de_panic D) (r, sv1)) = sv1"
      by (simp add: supervise_dispatch_def split: option.split)
    then have "sv' = commit_job D ?h sv1 \<or> (\<exists>msg. sv' = fail_job E D ?h msg sv1)"
      using assms(1) False d by (auto simp: process_def Let_def split: prod.splits sum.splits)
    with o have "idle ?T sv' \<or> handed_over E ?T ?h sv' \<and> \<not> failed_receipt ?h (sv_store sv')"
      using fail_job_idle [of ?T sv1] fail_job_handed_over [of E ?T ?h sv1]
      by (auto simp: idle_def handed_over_def)
    with False show ?thesis by (auto simp: idle_def handed_over_def)
  qed
qed

definition demo_job :: write_job where
  "demo_job = into_job (ClaimCall demo_claim) (demo_envelope 9 0) 6 9 0"

definition demo_env :: dispatch_env where
  "demo_env = \<lparr>de_claim = demo_worker, de_ger = demo_injection, de_panic = Some ''panicked'', de_error_text = (\<lambda>_. ''error''),
     de_started = 10, de_ended = 20\<rparr>"

theorem writer_failures_are_true_witness:
  "\<exists>sv' n. process demo_ext demo_api demo_config demo_env demo_job demo_service = Some sv' \<and>
     sv_submitted sv' = [(9, n)] \<and> linked_to demo_ext 9 n (sv_store sv') \<and> \<not> failed_receipt 9 (sv_store sv')"
proof -
  obtain sv1 where r: "worker_handle_claim_asset demo_ext demo_api demo_config demo_worker demo_claim 9 (demo_envelope 9 0) 6
      demo_service = (Inr (), sv1)" and n: "sv_submitted sv1 \<noteq> sv_submitted demo_service"
    using demo_claim_run by blast
  let ?sv = "fail_job demo_ext demo_env 9 ''error'' sv1"
  have "process demo_ext demo_api demo_config demo_env demo_job demo_service = Some ?sv"
    using r by (simp add: process_def queue_wait_def demo_job_def into_job_def demo_config_def demo_service_def update_job_def
        on_inflight_def dispatch_job_def demo_env_def supervise_dispatch_def)
  moreover have "sv_submitted ?sv = sv_submitted sv1"
    using fail_job_idle [of "sv_submitted sv1" sv1] by (simp add: idle_def)
  moreover have "env_keeps_link demo_ext (wj_eth_tx_hash demo_job) demo_env" "\<not> failed_receipt (wj_eth_tx_hash demo_job) (sv_store demo_service)"
    by (simp_all add: env_keeps_link_def demo_env_def demo_worker_def demo_client_def keeps_link_def demo_injection_def
        demo_ger_client_def failed_receipt_def demo_service_def)
  ultimately show ?thesis
    using writer_failures_are_true [of demo_ext demo_api demo_config demo_env demo_job demo_service ?sv] n
    by (auto simp: demo_job_def into_job_def demo_service_def)
qed

text \<open>
  C14. No job hangs. When the worker takes the head of the queue, it returns, provided only that
  the clock advances between the polls of a GER wait, and the job is then settled: its entry is
  terminal, or it was removed because a note is linked to the transaction. A job that ended as
  failed leaves no pending receipt row behind, so a caller that polls for the receipt is answered.
\<close>

theorem writer_job_settles:
  assumes "sv_writer sv = Some w" and "writer_ok w" and "wh_queue w = job # rest"
    and "\<forall>i. gi_elapsed (de_ger D) i + GER_EVIDENCE_POLL_INTERVAL \<le> gi_elapsed (de_ger D) (Suc i)"
  shows "\<exists>sv' w'. run_once E A cfg D sv = Some sv' \<and> sv_writer sv' = Some w' \<and> wh_queue w' = rest \<and>
           (case get_inflight (wj_eth_tx_hash job) w' of
              None \<Rightarrow> get_note_handoff_for_tx (ext_fmt_hash E (wj_eth_tx_hash job)) (sv_store sv') \<noteq> None
            | Some e \<Rightarrow> is_terminal (if_state e) \<and>
                (if_state e = JFailed \<longrightarrow>
                   (\<forall>row. hm_get (transactions (sv_store sv')) (wj_eth_tx_hash job) = Some row \<longrightarrow> tr_result row \<noteq> None)))"
proof -
  let ?sv = "sv\<lparr>sv_writer := Some (w\<lparr>wh_queue := rest\<rparr>)\<rparr>"
  have w: "sv_writer ?sv = Some (w\<lparr>wh_queue := rest\<rparr>)" by simp
  obtain sv' where p: "process E A cfg D job ?sv = Some sv'" using process_returns [OF assms(4)] by blast
  obtain e where e: "get_inflight (wj_eth_tx_hash job) (w\<lparr>wh_queue := rest\<rparr>) = Some e"
    using assms(2,3) by (auto simp: writer_ok_def get_inflight_def)
  obtain w' where w': "sv_writer sv' = Some w'" "settled E (wj_eth_tx_hash job) sv' w'"
    using process_settles [OF w e p] by blast
  have "wh_queue w' = rest"
    using process_ends [OF w p] w'(1) job_ended_depth by fastforce
  moreover have "run_once E A cfg D sv = Some sv'" using p assms(1,3) by (simp add: run_once_def)
  ultimately show ?thesis using w' unfolding settled_def by blast
qed

definition demo_writer :: writer_handle where
  "demo_writer = snd (try_enqueue demo_job 10 (spawn 4))"

lemma demo_writer_ok: "writer_ok demo_writer" and demo_writer_queue: "wh_queue demo_writer = [demo_job]"
proof -
  have "try_enqueue demo_job 10 (spawn 4) = (fst (try_enqueue demo_job 10 (spawn 4)), demo_writer)"
    by (simp add: demo_writer_def)
  from writer_ok_enqueue [OF writer_ok_spawn _ this] show "writer_ok demo_writer"
    by (simp add: is_inflight_def spawn_def)
  show "wh_queue demo_writer = [demo_job]"
    by (simp add: demo_writer_def try_enqueue_def spawn_def available_capacity_def)
qed

theorem writer_job_settles_witness:
  "\<exists>sv' w'. run_once demo_ext demo_api demo_config demo_env (demo_service\<lparr>sv_writer := Some demo_writer\<rparr>) = Some sv' \<and>
     sv_writer sv' = Some w' \<and> wh_queue w' = []"
  using writer_job_settles [of "demo_service\<lparr>sv_writer := Some demo_writer\<rparr>" demo_writer demo_job "[]" demo_env
      demo_ext demo_api demo_config] demo_writer_ok demo_writer_queue
  by (fastforce simp: demo_env_def demo_injection_def GER_EVIDENCE_POLL_INTERVAL_def)


end
