(* ===== verification/Admission.thy ===== *)
theory Admission
  imports Writer_Worker Applied_State
begin

text \<open>
  Admitting a signed transaction (\<^verbatim>\<open>service_send_raw_txn\<close> and what it calls, of
  \<^verbatim>\<open>src/src/service_send_raw_txn.rs\<close>): decoding and authentication, the deduplication of rebroadcasts, the
  gates that reject before any effect, the wait for an earlier nonce, the fenced reservation of
  the nonce slot, the durable row, the nonce, and the queue.

  RLP, ABI decoding and the recovery of the signer are parameters. At every \<^verbatim>\<open>await\<close> that matters
  other requests and tasks may run; what they do is a list of operations on the store.
\<close>

section \<open>Handlers that may not return\<close>

type_synonym ('s, 'e, 'a) loop_handler = "'s \<Rightarrow> (('e + 'a) \<times> 's) option"

definition liftO :: "('s, 'e, 'a) handler \<Rightarrow> ('s, 'e, 'a) loop_handler" where
  "liftO m s = Some (m s)"

definition bindO :: "('s, 'e, 'a) loop_handler \<Rightarrow> ('a \<Rightarrow> ('s, 'e, 'b) loop_handler) \<Rightarrow> ('s, 'e, 'b) loop_handler" where
  "bindO m f s =
     (case m s of
        None \<Rightarrow> None
      | Some (Inl e, s') \<Rightarrow> Some (Inl e, s')
      | Some (Inr x, s') \<Rightarrow> f x s')"

text \<open>Another type of errors.\<close>

definition map_errE :: "('e \<Rightarrow> 'f) \<Rightarrow> ('s, 'e, 'a) handler \<Rightarrow> ('s, 'f, 'a) handler" where
  "map_errE f m s = (case m s of (Inl e, s') \<Rightarrow> (Inl (f e), s') | (Inr x, s') \<Rightarrow> (Inr x, s'))"

section \<open>Decoding and authentication\<close>

datatype admission_error =
    BadHex
  | BadEnvelope
  | MissingChainId
  | ChainIdMismatch u64
  | UnhandledType
  | BadSignature
  | Unauthorized address
  | UnhandledMethod
  | BadCalldata
  | WrongNetwork u32
  | BridgeState applied_error
  | GerNotApplied
  | QueueSaturated
  | WriterMissing
  | WriterShutDown
  | NonceMismatch u64 u64
  | LowerNonceUnfinished u64
  | LostCas u64
  | ReservedByOther tx_hash
  | AdStore store_error
  | AdWrite write_error

record request_api =
  ra_decode_2718 :: "byte list \<Rightarrow> tx_envelope option"
  ra_recover_signer :: "tx_envelope \<Rightarrow> address option"
  ra_abi_claim :: "byte list \<Rightarrow> claim_asset_call option"
  ra_abi_insert :: "byte list \<Rightarrow> b256 option"
  ra_abi_update :: "byte list \<Rightarrow> (b256 \<times> b256) option"

definition hex_decode_prefixed :: "externals \<Rightarrow> string \<Rightarrow> byte list option" where
  "hex_decode_prefixed E input = ext_hex_decode E (case strip_prefix ''0x'' input of None \<Rightarrow> input | Some r \<Rightarrow> r)"

text \<open>The first four bytes of the hash of a signature.\<close>

definition selector :: "externals \<Rightarrow> string \<Rightarrow> byte list" where
  "selector E signature = take 4 (be_bytes 32 (ext_keccak E (ascii_bytes signature)))"

definition claim_selector :: "externals \<Rightarrow> byte list" where
  "claim_selector E = selector E
     ''claimAsset(bytes32[32],bytes32[32],uint256,bytes32,bytes32,uint32,address,uint32,address,uint256,bytes)''"

definition insert_selector :: "externals \<Rightarrow> byte list" where
  "insert_selector E = selector E ''insertGlobalExitRoot(bytes32)''"

definition update_selector :: "externals \<Rightarrow> byte list" where
  "update_selector E = selector E ''updateExitRoot(bytes32,bytes32)''"

definition starts_with :: "byte list \<Rightarrow> byte list \<Rightarrow> bool" where
  "starts_with bs p = (take (length p) bs = p)"

definition decode_write_call :: "externals \<Rightarrow> request_api \<Rightarrow> byte list \<Rightarrow> admission_error + decoded_write_call" where
  "decode_write_call E R input =
     (if starts_with input (claim_selector E)
      then (case ra_abi_claim R input of None \<Rightarrow> Inl BadCalldata | Some params \<Rightarrow> Inr (ClaimCall params))
      else if starts_with input (insert_selector E)
      then (case ra_abi_insert R input of None \<Rightarrow> Inl BadCalldata | Some root \<Rightarrow> Inr (GerCall root))
      else if starts_with input (update_selector E)
      then (case ra_abi_update R input of
              None \<Rightarrow> Inl BadCalldata
            | Some (rollup, mainnet) \<Rightarrow> Inr (GerCall (combined_ger E mainnet rollup)))
      else Inl UnhandledMethod)"

definition unwrap_txn_envelope :: "tx_envelope \<Rightarrow> admission_error + tx_hash \<times> byte list" where
  "unwrap_txn_envelope env =
     (case env of
        Eip1559 s \<Rightarrow> Inr (stx_hash s, stx_input s)
      | Legacy s \<Rightarrow> Inr (stx_hash s, stx_input s)
      | _ \<Rightarrow> Inl UnhandledType)"

definition envelope_chain_id :: "tx_envelope \<Rightarrow> u64 option" where
  "envelope_chain_id env =
     (case env of
        Eip1559 s \<Rightarrow> stx_chain_id s | Eip2930 s \<Rightarrow> stx_chain_id s | Eip4844 s \<Rightarrow> stx_chain_id s
      | Eip7702 s \<Rightarrow> stx_chain_id s | Legacy s \<Rightarrow> stx_chain_id s)"

definition is_signer_allowed :: "address list option \<Rightarrow> address \<Rightarrow> bool" where
  "is_signer_allowed allowed signer =
     (case allowed of None \<Rightarrow> False | Some l \<Rightarrow> list_ex (\<lambda>a. a = signer) l)"

record signed_request =
  sr_envelope :: tx_envelope
  sr_hash :: tx_hash
  sr_input :: "byte list"
  sr_signer :: address

definition authenticate ::
    "externals \<Rightarrow> service_config \<Rightarrow> request_api \<Rightarrow> string \<Rightarrow> admission_error + signed_request" where
  "authenticate E cfg R input =
     (case hex_decode_prefixed E input of
        None \<Rightarrow> Inl BadHex
      | Some payload \<Rightarrow>
     (case ra_decode_2718 R payload of
        None \<Rightarrow> Inl BadEnvelope
      | Some env \<Rightarrow>
     (case envelope_chain_id env of
        None \<Rightarrow> Inl MissingChainId
      | Some chain_id \<Rightarrow>
          if chain_id \<noteq> cfg_chain_id cfg then Inl (ChainIdMismatch chain_id)
          else
     (case unwrap_txn_envelope env of
        Inl e \<Rightarrow> Inl e
      | Inr (h, data) \<Rightarrow>
     (case ra_recover_signer R env of
        None \<Rightarrow> Inl BadSignature
      | Some signer \<Rightarrow>
          if \<not> cfg_allow_any_signer cfg \<and> \<not> is_signer_allowed (cfg_allowed_signers cfg) signer
          then Inl (Unauthorized signer)
          else Inr \<lparr>sr_envelope = env, sr_hash = h, sr_input = data, sr_signer = signer\<rparr>)))))"

section \<open>The environment of a request\<close>

text \<open>What other requests and tasks do to the store.\<close>

datatype request_op =
    TaskOp task_op
  | BeginOp tx_hash txn_entry
  | NonceOp string u64
  | ReserveOp string u64 tx_hash time time
  | RenewOp string u64 tx_hash time time
  | ReleaseOp string u64 tx_hash u64 bool time

definition request_exec :: "externals \<Rightarrow> request_op \<Rightarrow> mem_store \<Rightarrow> mem_store" where
  "request_exec E op s =
     (case op of
        TaskOp t \<Rightarrow> task_exec E t s
      | BeginOp h entry \<Rightarrow> snd (txn_begin_if_absent E h entry s)
      | NonceOp addr n \<Rightarrow> snd (nonce_advance_cas addr n s)
      | ReserveOp addr n h lease now \<Rightarrow> snd (reserve_nonce addr n h lease now s)
      | RenewOp addr n h lease now \<Rightarrow> snd (renew_reservation addr n h lease now s)
      | ReleaseOp addr n h fence ok now \<Rightarrow> release_reservation addr n h fence ok now s)"

text \<open>
  The answers of the bridge to the two reads of a claim, the wait for L1 evidence, what runs
  before the \<open>i\<close>-th attempt to take the signer's lock and the milliseconds waited until then, what
  runs at the other awaits, the clock and the identifier of the job.
\<close>

record request_env =
  re_view :: "nat \<Rightarrow> miden_view"
  re_embedded :: "address \<Rightarrow> account_id option"
  re_preflight :: ger_injection
  re_polls :: "nat \<Rightarrow> request_op list"
  re_elapsed :: "nat \<Rightarrow> time"
  re_gap :: "nat \<Rightarrow> request_op list"
  re_now :: "nat \<Rightarrow> time"
  re_job_id :: nat

definition request_others :: "externals \<Rightarrow> request_op list \<Rightarrow> (service, admission_error, unit) handler" where
  "request_others E ops sv = (Inr (), sv\<lparr>sv_store := fold (request_exec E) ops (sv_store sv)\<rparr>)"

definition signer_text :: "externals \<Rightarrow> signed_request \<Rightarrow> string" where
  "signer_text E q = ext_fmt_address E (sr_signer q)"

definition request_nonce :: "signed_request \<Rightarrow> u64" where
  "request_nonce q = envelope_nonce (sr_envelope q)"

definition request_inflight :: "signed_request \<Rightarrow> service \<Rightarrow> bool" where
  "request_inflight q sv = (case sv_writer sv of None \<Rightarrow> False | Some w \<Rightarrow> is_inflight (sr_hash q) w)"

section \<open>Deduplication\<close>

definition repair_commit_gap_nonce :: "externals \<Rightarrow> signed_request \<Rightarrow> (service, admission_error, bool) handler" where
  "repair_commit_gap_nonce E q = on_store (nonce_advance_cas (signer_text E q) (request_nonce q))"

text \<open>
  A known transaction is answered with its hash; otherwise the flag says whether a durable row
  waits for its queue entry.
\<close>

datatype dedup = Known | Fresh bool

definition classify_known :: "externals \<Rightarrow> signed_request \<Rightarrow> bool \<Rightarrow> (service, admission_error, dedup) handler" where
  "classify_known E q known_inflight =
     bindE (read_store (txn_get (sr_hash q))) (\<lambda>entry.
     bindE (read_store (get_note_handoff_for_tx (ext_fmt_hash E (sr_hash q)))) (\<lambda>handoff.
     let known_store_linked = (case handoff of None \<Rightarrow> False | Some r \<Rightarrow> nh_state r = HSubmitted);
         known_durable_intent = (case entry of None \<Rightarrow> False | Some e \<Rightarrow> td_result e = None \<and> \<not> known_store_linked)
     in if known_inflight then okE Known
        else if entry \<noteq> None \<and> \<not> known_durable_intent
        then bindE (repair_commit_gap_nonce E q) (\<lambda>_. okE Known)
        else okE (Fresh known_durable_intent)))"

definition deduplicate :: "externals \<Rightarrow> signed_request \<Rightarrow> (service, admission_error, dedup) handler" where
  "deduplicate E q sv =
     (let known_inflight = request_inflight q sv;
          tx_key = ext_fmt_hash E (sr_hash q)
      in case get_note_handoff_for_tx tx_key (sv_store sv) of
           None \<Rightarrow> classify_known E q known_inflight sv
         | Some handoff \<Rightarrow>
             if nh_state handoff = HPrepared
             then
               bindE (on_store (clear_expired_prepared_note_handoff E tx_key (nh_note_commitment handoff))) (\<lambda>cleared.
               if cleared then classify_known E q known_inflight
               else bindE (repair_commit_gap_nonce E q) (\<lambda>_. okE Known)) sv
             else classify_known E q known_inflight sv)"

section \<open>Gates without effects\<close>

definition claim_state_gate ::
    "externals \<Rightarrow> miden_view \<Rightarrow> (address \<Rightarrow> account_id option) \<Rightarrow> claim_asset_call \<Rightarrow> mem_store \<Rightarrow> admission_error + bool" where
  "claim_state_gate E V embedded params s =
     (case claim_and_ger_applied E V (cc_global_index params)
             (combined_ger E (cc_mainnet_exit_root params) (cc_rollup_exit_root params)) s of
        Inl e \<Rightarrow> Inl (BridgeState e)
      | Inr (claimed_before, applied) \<Rightarrow>
          if claimed_before then Inr True
          else if cc_amount params \<noteq> 0 \<and> \<not> isl (resolve_address embedded (cc_destination_address params) s) \<and> \<not> applied
          then Inl GerNotApplied
          else Inr False)"

definition validate_before_nonce_reservation ::
    "externals \<Rightarrow> service_config \<Rightarrow> request_env \<Rightarrow> decoded_write_call \<Rightarrow> mem_store \<Rightarrow> admission_error + unit" where
  "validate_before_nonce_reservation E cfg Q decoded s =
     (case decoded of
        GerCall _ \<Rightarrow> Inr ()
      | ClaimCall params \<Rightarrow>
          if cc_destination_network params \<noteq> cfg_network_id cfg then Inl (WrongNetwork (cc_destination_network params))
          else (case claim_state_gate E (re_view Q 0) (re_embedded Q) params s of Inl e \<Rightarrow> Inl e | Inr _ \<Rightarrow> Inr ()))"

definition queue_gate :: "service \<Rightarrow> admission_error + unit" where
  "queue_gate sv =
     (case sv_writer sv of
        None \<Rightarrow> Inl WriterMissing
      | Some w \<Rightarrow> if available_capacity w = 0 then Inl QueueSaturated else Inr ())"

text \<open>Under strict injection a GER waits for its L1 evidence before the signer's lock is taken.\<close>

definition ger_preflight ::
    "externals \<Rightarrow> service_config \<Rightarrow> request_env \<Rightarrow> signed_request \<Rightarrow> decoded_write_call \<Rightarrow> bool \<Rightarrow>
     (service, admission_error, unit) loop_handler" where
  "ger_preflight E cfg Q q decoded known_durable_intent sv =
     (case decoded of
        ClaimCall _ \<Rightarrow> Some (Inr (), sv)
      | GerCall ger \<Rightarrow>
          if \<not> cfg_reject_unverified_ger cfg then Some (Inr (), sv)
          else
            let expected = nonce_get (signer_text E q) (sv_store sv)
            in if \<not> known_durable_intent \<and> request_nonce q < expected
               then Some (Inl (NonceMismatch (request_nonce q) expected), sv)
               else (case wait_for_ger_l1_observed E (re_preflight Q) ger True (cfg_l1_evidence_tag cfg) (sv_store sv) of
                       None \<Rightarrow> None
                     | Some (Inl e, s) \<Rightarrow> Some (Inl (AdWrite e), sv\<lparr>sv_store := s\<rparr>)
                     | Some (Inr _, s) \<Rightarrow> Some (Inr (), sv\<lparr>sv_store := s\<rparr>)))"

section \<open>The nonce\<close>

text \<open>One round under the signer's lock.\<close>

datatype nonce_round = Accept | Dedup | Reject admission_error | Retry bool

definition FUTURE_NONCE_WAIT_MAX :: time where "FUTURE_NONCE_WAIT_MAX = 30000"

definition FUTURE_NONCE_POLL :: time where "FUTURE_NONCE_POLL = 50"

definition check_nonce ::
    "externals \<Rightarrow> signed_request \<Rightarrow> bool \<Rightarrow> time \<Rightarrow> service \<Rightarrow> nonce_round" where
  "check_nonce E q known_durable_intent waited sv =
     (let nonce = request_nonce q;
          expected = nonce_get (signer_text E q) (sv_store sv);
          frontier = pending_nonce_frontier_of E (signer_text E q) (sv_store sv);
          live = (\<lambda>n. case sv_writer sv of None \<Rightarrow> False | Some w \<Rightarrow> has_non_terminal_nonce (sr_signer q) n w)
      in case (case pf_lowest_unlinked frontier of
                 None \<Rightarrow> None
               | Some lower \<Rightarrow> if lower < nonce \<and> \<not> live lower then Some lower else None) of
           Some lower \<Rightarrow> Reject (LowerNonceUnfinished lower)
         | None \<Rightarrow>
             if nonce = expected \<or> known_durable_intent \<and> expected = saturating_add nonce 1 then Accept
             else if sv_writer sv \<noteq> None \<and> expected < nonce \<and> waited < FUTURE_NONCE_WAIT_MAX
             then Retry known_durable_intent
             else Reject (NonceMismatch nonce expected))"

definition nonce_round_under_lock ::
    "externals \<Rightarrow> signed_request \<Rightarrow> bool \<Rightarrow> time \<Rightarrow> service \<Rightarrow> nonce_round \<times> service" where
  "nonce_round_under_lock E q known_durable_intent waited sv =
     (if request_inflight q sv then (Dedup, sv)
      else if known_durable_intent then (check_nonce E q True waited sv, sv)
      else (case txn_get (sr_hash q) (sv_store sv) of
              None \<Rightarrow> (check_nonce E q False waited sv, sv)
            | Some entry \<Rightarrow>
                if td_result entry \<noteq> None \<or> get_note_handoff_for_tx (ext_fmt_hash E (sr_hash q)) (sv_store sv) \<noteq> None
                then (Dedup, snd (repair_commit_gap_nonce E q sv))
                else (check_nonce E q True waited sv, sv)))"

partial_function (option) nonce_loop ::
    "externals \<Rightarrow> request_env \<Rightarrow> signed_request \<Rightarrow> bool \<Rightarrow> nat \<Rightarrow> service \<Rightarrow>
     ((admission_error + bool) \<times> service) option" where
  "nonce_loop E Q q known_durable_intent i sv =
     (let sv1 = snd (request_others E (re_polls Q i) sv)
      in case nonce_round_under_lock E q known_durable_intent (re_elapsed Q i) sv1 of
           (Accept, sv2) \<Rightarrow> Some (Inr True, sv2)
         | (Dedup, sv2) \<Rightarrow> Some (Inr False, sv2)
         | (Reject e, sv2) \<Rightarrow> Some (Inl e, sv2)
         | (Retry known, sv2) \<Rightarrow> nonce_loop E Q q known (Suc i) sv2)"

section \<open>Admission\<close>

definition durably_admit_and_advance_nonce ::
    "externals \<Rightarrow> request_env \<Rightarrow> signed_request \<Rightarrow> (service, admission_error, unit) handler" where
  "durably_admit_and_advance_nonce E Q q =
     bindE (try_store AdStore (txn_begin_if_absent E (sr_hash q)
              \<lparr>te_id = None, te_envelope = sr_envelope q, te_signer = sr_signer q, te_expires_at = None, te_logs = []\<rparr>)) (\<lambda>_.
     bindE (request_others E (re_gap Q 1)) (\<lambda>_.
     bindE (on_store (nonce_advance_cas (signer_text E q) (request_nonce q))) (\<lambda>advanced.
     if advanced then okE ()
     else
       bindE (read_store (nonce_get (signer_text E q))) (\<lambda>current.
       if current \<noteq> saturating_add (request_nonce q) 1 then errE (LostCas current) else okE ()))))"

definition enqueue_job ::
    "request_env \<Rightarrow> signed_request \<Rightarrow> decoded_write_call \<Rightarrow> (service, admission_error, tx_hash) handler" where
  "enqueue_job Q q decoded sv =
     (case sv_writer sv of
        None \<Rightarrow> (Inl WriterMissing, sv)
      | Some w \<Rightarrow>
          (case try_enqueue (into_job decoded (sr_envelope q) (sr_signer q) (sr_hash q) (re_job_id Q)) (re_now Q 2) w of
             (Inr _, w') \<Rightarrow> (Inr (sr_hash q), sv\<lparr>sv_writer := Some w'\<rparr>)
           | (Inl QueueFull, w') \<Rightarrow> (Inl QueueSaturated, sv\<lparr>sv_writer := Some w'\<rparr>)
           | (Inl ShutDown, w') \<Rightarrow> (Inl WriterShutDown, sv\<lparr>sv_writer := Some w'\<rparr>)))"

text \<open>The path to the queue, when the call is neither a landed claim nor an applied GER.\<close>

definition admit_to_queue ::
    "externals \<Rightarrow> request_env \<Rightarrow> signed_request \<Rightarrow> decoded_write_call \<Rightarrow> (service, admission_error, tx_hash) handler" where
  "admit_to_queue E Q q decoded =
     bindE (\<lambda>sv. (queue_gate sv, sv)) (\<lambda>_.
     bindE (durably_admit_and_advance_nonce E Q q) (\<lambda>_.
     enqueue_job Q q decoded))"

definition dispatch_after_reservation ::
    "externals \<Rightarrow> request_env \<Rightarrow> signed_request \<Rightarrow> decoded_write_call \<Rightarrow> (service, admission_error, tx_hash) handler" where
  "dispatch_after_reservation E Q q decoded =
     (case decoded of
        ClaimCall params \<Rightarrow>
          bindE (read_store (claim_state_gate E (re_view Q 1) (re_embedded Q) params)) (\<lambda>gate.
          bindE (liftE gate) (\<lambda>landed.
          if landed
          then bindE (map_errE AdWrite (accept_and_revert_landed_claim E params (sr_hash q) (sr_envelope q) (sr_signer q)
                        (signer_text E q) (request_nonce q))) (\<lambda>_. okE (sr_hash q))
          else admit_to_queue E Q q decoded))
      | GerCall ger \<Rightarrow>
          bindE (read_store (ger_applied (re_view Q 1) ger)) (\<lambda>applied.
          bindE (liftE (case applied of Inl e \<Rightarrow> Inl (BridgeState e) | Inr b \<Rightarrow> Inr b)) (\<lambda>duplicate.
          if duplicate
          then bindE (durably_admit_and_advance_nonce E Q q) (\<lambda>_.
               bindE (map_errE AdWrite (handle_ger_result E (Inr False) (sr_hash q) (sr_envelope q) (sr_signer q))) (\<lambda>_.
               okE (sr_hash q)))
          else admit_to_queue E Q q decoded)))"

text \<open>The fenced reservation around the dispatch; the heartbeat that renews it is among the other tasks.\<close>

definition admit ::
    "externals \<Rightarrow> service_config \<Rightarrow> request_env \<Rightarrow> signed_request \<Rightarrow> decoded_write_call \<Rightarrow>
     (service, admission_error, tx_hash) handler" where
  "admit E cfg Q q decoded =
     bindE (on_store (reserve_nonce (signer_text E q) (request_nonce q) (sr_hash q) (cfg_reservation_lease cfg) (re_now Q 0)))
       (\<lambda>reservation.
     case reservation of
       OwnedBySame \<Rightarrow> okE (sr_hash q)
     | HeldByOther other \<Rightarrow> errE (ReservedByOther other)
     | Won fence \<Rightarrow>
         bindE (request_others E (re_gap Q 0)) (\<lambda>_ sv.
           let (r, sv') = dispatch_after_reservation E Q q decoded sv
           in (r, sv'\<lparr>sv_store := release_reservation (signer_text E q) (request_nonce q) (sr_hash q) fence (\<not> isl r)
                       (re_now Q 1) (sv_store sv')\<rparr>)))"

definition service_send_raw_txn ::
    "externals \<Rightarrow> service_config \<Rightarrow> request_api \<Rightarrow> request_env \<Rightarrow> string \<Rightarrow>
     (service, admission_error, tx_hash) loop_handler" where
  "service_send_raw_txn E cfg R Q input =
     bindO (liftO (liftE (authenticate E cfg R input))) (\<lambda>q.
     bindO (liftO (deduplicate E q)) (\<lambda>d.
     case d of
       Known \<Rightarrow> liftO (okE (sr_hash q))
     | Fresh known_durable_intent \<Rightarrow>
         bindO (liftO (liftE (decode_write_call E R (sr_input q)))) (\<lambda>decoded.
         bindO (liftO (\<lambda>sv. (validate_before_nonce_reservation E cfg Q decoded (sv_store sv), sv))) (\<lambda>_.
         bindO (liftO (\<lambda>sv. (queue_gate sv, sv))) (\<lambda>_.
         bindO (ger_preflight E cfg Q q decoded known_durable_intent) (\<lambda>_.
         bindO (nonce_loop E Q q known_durable_intent 0) (\<lambda>accepted.
         if accepted then liftO (admit E cfg Q q decoded) else liftO (okE (sr_hash q)))))))))"

end
