(* ===== verification/Admission_Safety.thy ===== *)
theory Admission_Safety
  imports Admission
begin

text \<open>
  What admission guarantees: only authenticated requests have any effect, a request returns, it
  changes the queue of the writer only by adding its own job and only when the transaction is not
  in flight, a nonce is consumed only together with a durable row, and a known transaction is
  answered without a second execution.
\<close>

section \<open>Sequences of loop handlers\<close>

lemma bindO_simps [simp]:
  "bindO (liftO (okE x)) f s = f x s"
  "bindO (liftO (errE e)) f s = Some (Inl e, s)"
  by (simp_all add: bindO_def liftO_def)

lemma liftO_app [simp]: "liftO m s = Some (m s)"
  by (simp add: liftO_def)

lemma bindO_cases:
  assumes "bindO m f s = Some (r, s'')"
  obtains (err) e where "m s = Some (Inl e, s'')" and "r = Inl e"
  | (ok) x s' where "m s = Some (Inr x, s')" and "f x s' = Some (r, s'')"
  using assms by (auto simp: bindO_def split: option.splits prod.splits sum.splits)

section \<open>The writer is not touched before the queue\<close>

abbreviation writer_is :: "writer_handle option \<Rightarrow> service \<Rightarrow> bool" where
  "writer_is w sv \<equiv> sv_writer sv = w"

lemma writer_request_others: "stableE (writer_is w) (request_others E ops)"
  by (simp add: stableE_def request_others_def)

lemma writer_repair: "stableE (writer_is w) (repair_commit_gap_nonce E q)"
  unfolding repair_commit_gap_nonce_def by (rule stableE_on_store) simp

lemma writer_classify: "stableE (writer_is w) (classify_known E q b)"
  unfolding classify_known_def Let_def
  by (intro stableE_bindE stableE_read_store stableE_if stableE_okE writer_repair)

lemma writer_dedup: "stableE (writer_is w) (deduplicate E q)"
proof -
  have "stableE (writer_is w) (bindE (on_store (clear_expired_prepared_note_handoff E t c))
      (\<lambda>cleared. if cleared then classify_known E q b else bindE (repair_commit_gap_nonce E q) (\<lambda>_. okE Known)))" for t c b
    by (intro stableE_bindE stableE_on_store stableE_if stableE_okE writer_classify writer_repair) simp
  then show ?thesis
    using writer_classify [of w E q] by (auto simp: stableE_def deduplicate_def Let_def split: option.split)
qed

lemma writer_preflight:
  "ger_preflight E cfg Q q decoded known sv = Some (r, sv') \<Longrightarrow> sv_writer sv' = sv_writer sv"
  by (auto simp: ger_preflight_def Let_def split: decoded_write_call.splits if_splits option.splits prod.splits sum.splits)

lemma nonce_round_writer:
  "nonce_round_under_lock E q known waited sv = (x, sv') \<Longrightarrow>
     sv_writer sv' = sv_writer sv \<and> (x = Accept \<longrightarrow> sv' = sv \<and> \<not> request_inflight q sv)"
  using writer_repair [of "sv_writer sv" E q]
  by (auto simp: nonce_round_under_lock_def stableE_def split: if_splits option.splits)

lemma nonce_loop_writer:
  assumes "nonce_loop E Q q known i sv = Some (r, sv')"
  shows "sv_writer sv' = sv_writer sv \<and> (r = Inr True \<longrightarrow> \<not> request_inflight q sv')"
proof -
  have "sv_writer (snd (r, sv')) = sv_writer sv \<and> (fst (r, sv') = Inr True \<longrightarrow> \<not> request_inflight q (snd (r, sv')))"
    using assms
  proof (rule nonce_loop.raw_induct [where P = "\<lambda>E Q q known i sv y. sv_writer (snd y) = sv_writer sv \<and>
      (fst y = Inr True \<longrightarrow> \<not> request_inflight q (snd y))", rotated])
    fix nl E Q q known i sv y
    assume IH: "\<And>E Q q known i sv y. nl E Q q known i sv = Some y \<Longrightarrow>
        sv_writer (snd y) = sv_writer sv \<and> (fst y = Inr True \<longrightarrow> \<not> request_inflight q (snd y))"
      and body: "(let sv1 = snd (request_others E (re_polls Q i) sv)
        in case nonce_round_under_lock E q known (re_elapsed Q i) sv1 of
             (Accept, sv2) \<Rightarrow> Some (Inr True, sv2)
           | (Dedup, sv2) \<Rightarrow> Some (Inr False, sv2)
           | (Reject e, sv2) \<Rightarrow> Some (Inl e, sv2)
           | (Retry known, sv2) \<Rightarrow> nl E Q q known (Suc i) sv2) = Some y"
    let ?sv = "snd (request_others E (re_polls Q i) sv)"
    obtain x sv2 where x: "nonce_round_under_lock E q known (re_elapsed Q i) ?sv = (x, sv2)" by fastforce
    have w: "sv_writer ?sv = sv_writer sv" by (simp add: request_others_def)
    show "sv_writer (snd y) = sv_writer sv \<and> (fst y = Inr True \<longrightarrow> \<not> request_inflight q (snd y))"
    proof (cases x)
      case (Retry k)
      with body x have "nl E Q q k (Suc i) sv2 = Some y" by simp
      with IH nonce_round_writer [OF x] w show ?thesis by metis
    qed (use body x w nonce_round_writer [OF x] in auto)
  qed
  then show ?thesis by simp
qed

section \<open>What a request does to the queue\<close>

lemma writer_admit_row: "stableE (writer_is w) (durably_admit_and_advance_nonce E Q q)"
  unfolding durably_admit_and_advance_nonce_def
  by (intro stableE_bindE stableE_try_store stableE_on_store stableE_read_store stableE_if stableE_okE stableE_errE
      writer_request_others) simp_all

lemma stableE_map_errE: "stableE P m \<Longrightarrow> stableE P (map_errE f m)"
  by (auto simp: stableE_def map_errE_def split: prod.split sum.split)

text \<open>
  The request's own job is at the end of the queue, its nonce is consumed and, unless other tasks
  ran between the row and the nonce and evicted it, its row is there.
\<close>

definition own_job_queued :: "externals \<Rightarrow> request_env \<Rightarrow> signed_request \<Rightarrow> service \<Rightarrow> service \<Rightarrow> bool" where
  "own_job_queued E Q q sv sv' =
     (\<exists>w w' decoded now. sv_writer sv = Some w \<and> sv_writer sv' = Some w' \<and>
        try_enqueue (into_job decoded (sr_envelope q) (sr_signer q) (sr_hash q) (re_job_id Q)) now w = (Inr (), w') \<and>
        nonce_get (signer_text E q) (sv_store sv') \<in> {request_nonce q + 1, saturating_add (request_nonce q) 1} \<and>
        (re_gap Q 1 = [] \<longrightarrow> hm_get (transactions (sv_store sv')) (sr_hash q) \<noteq> None))"

definition queues_own :: "externals \<Rightarrow> request_env \<Rightarrow> signed_request \<Rightarrow> service \<Rightarrow> admission_error + tx_hash \<Rightarrow> service \<Rightarrow> bool" where
  "queues_own E Q q sv r sv' =
     (sv_writer sv' = sv_writer sv \<or> r = Inr (sr_hash q) \<and> own_job_queued E Q q sv sv')"

lemma queues_same: "sv_writer sv' = sv_writer sv \<Longrightarrow> queues_own E Q q sv r sv'"
  by (simp add: queues_own_def)

lemma hm_remove_insert_absent: "\<not> hm_contains m k \<Longrightarrow> hm_remove k (hm_insert k v m) = m"
  by (induction m) (auto simp: hm_contains_def hm_get_def hm_remove_def hm_insert_def split: if_splits)

lemma try_enqueue_refused:
  "\<not> is_inflight (wj_eth_tx_hash job) w \<Longrightarrow> try_enqueue job now w = (Inl e, w') \<Longrightarrow> w' = w"
  by (auto simp: try_enqueue_def Let_def is_inflight_def hm_remove_insert_absent split: if_splits)

lemma nonce_after_cas:
  "nonce_get a (snd (nonce_advance_cas a n s)) = (if fst (nonce_advance_cas a n s) then n + 1 else nonce_get a s)"
  by (auto simp: nonce_get_def nonce_advance_cas_def Let_def hm_or_insert_def split: option.split)

lemma cas_transactions [simp]: "transactions (snd (nonce_advance_cas a n s)) = transactions s"
  by (simp add: nonce_advance_cas_def Let_def)

lemma begin_has_row:
  "lru_ok E \<Longrightarrow> hm_get (transactions (snd (txn_begin_if_absent E h entry s))) h \<noteq> None"
  by (simp add: txn_begin_if_absent_def TRANSACTIONS_CAPACITY_def split: option.split)

lemma admit_row_durable:
  assumes "durably_admit_and_advance_nonce E Q q sv = (Inr u, sv')" and "lru_ok E"
  shows "nonce_get (signer_text E q) (sv_store sv') \<in> {request_nonce q + 1, saturating_add (request_nonce q) 1} \<and>
         (re_gap Q 1 = [] \<longrightarrow> hm_get (transactions (sv_store sv')) (sr_hash q) \<noteq> None)"
proof -
  let ?entry = "\<lparr>te_id = None, te_envelope = sr_envelope q, te_signer = sr_signer q, te_expires_at = None, te_logs = []\<rparr>"
  let ?s = "fold (request_exec E) (re_gap Q 1) (snd (txn_begin_if_absent E (sr_hash q) ?entry (sv_store sv)))"
  let ?c = "nonce_advance_cas (signer_text E q) (request_nonce q) ?s"
  obtain b where b: "fst (txn_begin_if_absent E (sr_hash q) ?entry (sv_store sv)) = Inr b"
    by (cases "hm_get (transactions (sv_store sv)) (sr_hash q)") (auto simp: txn_begin_if_absent_def)
  have "sv_store sv' = snd ?c" and "fst ?c \<or> nonce_get (signer_text E q) (snd ?c) = saturating_add (request_nonce q) 1"
    using assms(1) b by (auto simp: durably_admit_and_advance_nonce_def bindE_def try_store_def request_others_def on_store_def
        read_store_def okE_def errE_def case_prod_unfold Let_def split: if_splits sum.splits)
  then show ?thesis using begin_has_row [OF assms(2)] nonce_after_cas [of "signer_text E q" "request_nonce q" ?s] by auto
qed

lemma enqueue_queues:
  assumes "enqueue_job Q q decoded sv = (r, sv')" and "\<not> request_inflight q sv"
    and "nonce_get (signer_text E q) (sv_store sv) \<in> {request_nonce q + 1, saturating_add (request_nonce q) 1} \<and>
         (re_gap Q 1 = [] \<longrightarrow> hm_get (transactions (sv_store sv)) (sr_hash q) \<noteq> None)"
  shows "queues_own E Q q sv r sv'"
proof (cases "sv_writer sv")
  case None
  with assms show ?thesis by (simp add: enqueue_job_def queues_same)
next
  case (Some w)
  let ?job = "into_job decoded (sr_envelope q) (sr_signer q) (sr_hash q) (re_job_id Q)"
  obtain x w' where e: "try_enqueue ?job (re_now Q 2) w = (x, w')" by fastforce
  show ?thesis
  proof (cases x)
    case (Inl err)
    with e assms(2) Some have "w' = w"
      by (intro try_enqueue_refused [of ?job w]) (simp_all add: request_inflight_def into_job_def)
    with assms(1) e Some Inl show ?thesis
      by (intro queues_same) (cases err; auto simp: enqueue_job_def)
  next
    case (Inr u)
    with assms(1) e Some have "r = Inr (sr_hash q)" "sv' = sv\<lparr>sv_writer := Some w'\<rparr>" by (auto simp: enqueue_job_def)
    with e Some Inr assms(3) show ?thesis by (auto simp: queues_own_def own_job_queued_def)
  qed
qed

lemma admit_to_queue_queues:
  assumes "admit_to_queue E Q q decoded sv = (r, sv')" and "\<not> request_inflight q sv" and "lru_ok E"
  shows "queues_own E Q q sv r sv'"
proof (cases "queue_gate sv")
  case (Inl e)
  with assms show ?thesis by (simp add: admit_to_queue_def bindE_def queues_same)
next
  case (Inr u)
  obtain x sv1 where d: "durably_admit_and_advance_nonce E Q q sv = (x, sv1)" by fastforce
  have w: "sv_writer sv1 = sv_writer sv" by (rule stableE_D [OF writer_admit_row refl d])
  show ?thesis
  proof (cases x)
    case (Inl e)
    with assms Inr d w show ?thesis by (simp add: admit_to_queue_def bindE_def queues_same)
  next
    case (Inr v)
    with assms \<open>queue_gate sv = Inr u\<close> d have e: "enqueue_job Q q decoded sv1 = (r, sv')"
      by (simp add: admit_to_queue_def bindE_def)
    have "\<not> request_inflight q sv1" using assms(2) w by (simp add: request_inflight_def)
    from enqueue_queues [OF e this admit_row_durable [OF d [unfolded Inr] assms(3)]] w show ?thesis
      by (simp add: queues_own_def own_job_queued_def)
  qed
qed

lemma writer_handle_ger: "stableE (writer_is w) (handle_ger_result E r h env signer)"
  unfolding handle_ger_result_def
  by (intro stableE_case_sum stableE_if stableE_bindE stableE_read_store stableE_okE stableE_errE stable_writer_receipts)

lemma dispatch_queues:
  assumes "dispatch_after_reservation E Q q decoded sv = (r, sv')" and "\<not> request_inflight q sv" and "lru_ok E"
  shows "queues_own E Q q sv r sv'"
proof (cases decoded)
  case (ClaimCall params)
  let ?gate = "claim_state_gate E (re_view Q 1) (re_embedded Q) params (sv_store sv)"
  have "stableE (writer_is (sv_writer sv)) (bindE (map_errE AdWrite (accept_and_revert_landed_claim E params (sr_hash q)
      (sr_envelope q) (sr_signer q) (signer_text E q) (request_nonce q))) (\<lambda>_. okE (sr_hash q)))"
    by (intro stableE_bindE stableE_map_errE stable_writer_receipts stableE_okE)
  from stableE_D [OF this refl, of r sv'] show ?thesis
    using assms ClaimCall admit_to_queue_queues [of E Q q decoded sv r sv']
    by (cases ?gate) (auto simp: dispatch_after_reservation_def queues_same split: if_splits)
next
  case (GerCall ger)
  let ?applied = "ger_applied (re_view Q 1) ger (sv_store sv)"
  have "stableE (writer_is (sv_writer sv)) (bindE (durably_admit_and_advance_nonce E Q q) (\<lambda>_.
      bindE (map_errE AdWrite (handle_ger_result E (Inr False) (sr_hash q) (sr_envelope q) (sr_signer q))) (\<lambda>_. okE (sr_hash q))))"
    by (intro stableE_bindE stableE_map_errE writer_handle_ger writer_admit_row stableE_okE)
  from stableE_D [OF this refl, of r sv'] show ?thesis
    using assms GerCall admit_to_queue_queues [of E Q q decoded sv r sv']
    by (cases ?applied) (auto simp: dispatch_after_reservation_def queues_same split: if_splits)
qed

lemma release_frame [simp]:
  "nonces (release_reservation a n h fence b now s) = nonces s"
  "transactions (release_reservation a n h fence b now s) = transactions s"
  by (simp_all add: release_reservation_def Let_def split: option.split)

lemma admit_queues:
  assumes "admit E cfg Q q decoded sv = (r, sv')" and "\<not> request_inflight q sv" and "lru_ok E"
  shows "queues_own E Q q sv r sv'"
proof -
  let ?res = "reserve_nonce (signer_text E q) (request_nonce q) (sr_hash q) (cfg_reservation_lease cfg) (re_now Q 0) (sv_store sv)"
  let ?sv = "sv\<lparr>sv_store := fold (request_exec E) (re_gap Q 0) (snd ?res)\<rparr>"
  show ?thesis
  proof (cases "fst ?res")
    case (Won fence)
    obtain x sv1 where d: "dispatch_after_reservation E Q q decoded ?sv = (x, sv1)" by fastforce
    then have "r = x" "sv' = sv1\<lparr>sv_store := release_reservation (signer_text E q) (request_nonce q) (sr_hash q) fence (\<not> isl x)
                       (re_now Q 1) (sv_store sv1)\<rparr>"
      using assms(1) Won by (auto simp: admit_def bindE_def on_store_def request_others_def Let_def case_prod_unfold)
    moreover have "\<not> request_inflight q ?sv" using assms(2) by (simp add: request_inflight_def)
    ultimately show ?thesis using dispatch_queues [OF d _ assms(3)]
      by (auto simp: queues_own_def own_job_queued_def nonce_get_def)
  qed (use assms in \<open>auto simp: admit_def queues_same\<close>)
qed

text \<open>What happens between the deduplication and the reservation.\<close>

definition gates ::
    "externals \<Rightarrow> service_config \<Rightarrow> request_api \<Rightarrow> request_env \<Rightarrow> signed_request \<Rightarrow> bool \<Rightarrow>
     (service, admission_error, tx_hash) loop_handler" where
  "gates E cfg R Q q known_durable_intent =
     bindO (liftO (liftE (decode_write_call E R (sr_input q)))) (\<lambda>decoded.
     bindO (liftO (\<lambda>sv. (validate_before_nonce_reservation E cfg Q decoded (sv_store sv), sv))) (\<lambda>_.
     bindO (liftO (\<lambda>sv. (queue_gate sv, sv))) (\<lambda>_.
     bindO (ger_preflight E cfg Q q decoded known_durable_intent) (\<lambda>_.
     bindO (nonce_loop E Q q known_durable_intent 0) (\<lambda>accepted.
     if accepted then liftO (admit E cfg Q q decoded) else liftO (okE (sr_hash q)))))))"

lemma send_gates:
  "service_send_raw_txn E cfg R Q input =
     bindO (liftO (liftE (authenticate E cfg R input))) (\<lambda>q.
     bindO (liftO (deduplicate E q)) (\<lambda>d. case d of Known \<Rightarrow> liftO (okE (sr_hash q)) | Fresh known \<Rightarrow> gates E cfg R Q q known))"
  by (simp only: service_send_raw_txn_def gates_def [abs_def])

lemma gates_cases:
  assumes "gates E cfg R Q q known sv = Some (r, sv')"
  obtains (stopped) "sv_writer sv' = sv_writer sv"
  | (admitted) decoded sv1 where "sv_writer sv1 = sv_writer sv" and "\<not> request_inflight q sv1"
      and "admit E cfg Q q decoded sv1 = (r, sv')"
proof -
  have "sv_writer sv' = sv_writer sv \<or> (\<exists>decoded sv1. sv_writer sv1 = sv_writer sv \<and> \<not> request_inflight q sv1 \<and>
      admit E cfg Q q decoded sv1 = (r, sv'))"
    using assms unfolding gates_def
  proof (cases rule: bindO_cases)
    case (ok decoded sv1)
    then have [simp]: "sv1 = sv" by (simp add: liftE_def)
    from ok(2) show ?thesis
    proof (cases rule: bindO_cases)
      case (ok u sv2)
      then have [simp]: "sv2 = sv" by simp
      from ok(2) show ?thesis
      proof (cases rule: bindO_cases)
        case (ok u sv3)
        then have [simp]: "sv3 = sv" by simp
        from ok(2) show ?thesis
        proof (cases rule: bindO_cases)
          case (err e)
          then show ?thesis using writer_preflight [of E cfg Q q decoded known sv] by auto
        next
          case (ok u sv4)
          have w4: "sv_writer sv4 = sv_writer sv" using writer_preflight [OF ok(1)] by simp
          from ok(2) show ?thesis
          proof (cases rule: bindO_cases)
            case (err e)
            then show ?thesis using nonce_loop_writer [OF err(1)] w4 by simp
          next
            case (ok accepted sv5)
            note nonce_loop_writer [OF ok(1)]
            with w4 ok(2) show ?thesis by (cases accepted) (auto simp: okE_def)
          qed
        qed
      qed simp
    qed simp
  qed (simp add: liftE_def)
  with that show thesis by blast
qed

lemma send_queues:
  assumes "service_send_raw_txn E cfg R Q input sv = Some (r, sv')" and "lru_ok E"
  shows "sv_writer sv' = sv_writer sv \<or>
         (\<exists>q. authenticate E cfg R input = Inr q \<and> r = Inr (sr_hash q) \<and> own_job_queued E Q q sv sv' \<and> \<not> request_inflight q sv)"
  using assms(1) unfolding send_gates
proof (cases rule: bindO_cases)
  case (ok q sv0)
  then have q: "authenticate E cfg R input = Inr q" "sv0 = sv" by (simp_all add: liftE_def)
  from ok(2) show ?thesis
  proof (cases rule: bindO_cases)
    case (err e)
    then show ?thesis using stableE_D [OF writer_dedup refl] q by fastforce
  next
    case (ok d sv1)
    then have w1: "sv_writer sv1 = sv_writer sv" using stableE_D [OF writer_dedup refl] q by fastforce
    show ?thesis
    proof (cases d)
      case Known
      with ok w1 show ?thesis by (simp add: okE_def)
    next
      case (Fresh known)
      with ok(2) have "gates E cfg R Q q known sv1 = Some (r, sv')" by simp
      then show ?thesis
      proof (cases rule: gates_cases)
        case stopped
        with w1 show ?thesis by simp
      next
        case (admitted decoded sv2)
        from admit_queues [OF admitted(3,2) assms(2)] admitted(1,2) w1 q show ?thesis
          by (auto simp: queues_own_def own_job_queued_def request_inflight_def)
      qed
    qed
  qed
qed (simp add: liftE_def)

section \<open>Requests return\<close>

lemma nonce_loop_returns:
  assumes "\<forall>i. re_elapsed Q i + FUTURE_NONCE_POLL \<le> re_elapsed Q (Suc i)"
  shows "\<exists>res. nonce_loop E Q q known i sv = Some res"
proof (induction "FUTURE_NONCE_WAIT_MAX - re_elapsed Q i" arbitrary: i known sv rule: less_induct)
  case less
  let ?sv = "snd (request_others E (re_polls Q i) sv)"
  obtain x sv2 where x: "nonce_round_under_lock E q known (re_elapsed Q i) ?sv = (x, sv2)" by fastforce
  show ?case
  proof (cases x)
    case (Retry k)
    with x have "re_elapsed Q i < FUTURE_NONCE_WAIT_MAX"
      by (auto simp: nonce_round_under_lock_def check_nonce_def Let_def split: if_splits option.splits)
    moreover have "re_elapsed Q i + FUTURE_NONCE_POLL \<le> re_elapsed Q (Suc i)" using assms by blast
    ultimately have "FUTURE_NONCE_WAIT_MAX - re_elapsed Q (Suc i) < FUTURE_NONCE_WAIT_MAX - re_elapsed Q i"
      by (simp add: FUTURE_NONCE_POLL_def)
    from less [OF this] obtain res where "nonce_loop E Q q k (Suc i) sv2 = Some res" by blast
    with x Retry show ?thesis by (subst nonce_loop.simps) (simp add: Let_def)
  qed (use x in \<open>subst nonce_loop.simps, simp add: Let_def\<close>)+
qed

lemma wait_returns:
  assumes "\<forall>i. gi_elapsed I i + GER_EVIDENCE_POLL_INTERVAL \<le> gi_elapsed I (Suc i)"
  shows "\<exists>res. wait_for_ger_l1_observed E I ger b tag s = Some res"
  using wait_loop_ends [OF assms, of 0 E "gi_polls I" ger]
  by (fastforce simp: wait_for_ger_l1_observed_def wait_for_ger_l1_observed_with_timing_def split: sum.split)

lemma preflight_returns:
  assumes "\<forall>i. gi_elapsed (re_preflight Q) i + GER_EVIDENCE_POLL_INTERVAL \<le> gi_elapsed (re_preflight Q) (Suc i)"
  shows "\<exists>res. ger_preflight E cfg Q q decoded known sv = Some res"
proof (cases decoded)
  case (GerCall ger)
  obtain x s where "wait_for_ger_l1_observed E (re_preflight Q) ger True (cfg_l1_evidence_tag cfg) (sv_store sv) = Some (x, s)"
    using wait_returns [OF assms, of E ger] by (metis surj_pair)
  with GerCall show ?thesis by (cases x) (simp_all add: ger_preflight_def Let_def)
qed (simp add: ger_preflight_def)

lemma bindO_returns:
  "\<exists>res. m s = Some res \<Longrightarrow> (\<And>x s'. \<exists>res. f x s' = Some res) \<Longrightarrow> \<exists>res. bindO m f s = Some res"
  by (fastforce simp: bindO_def split: sum.split)

section \<open>Rebroadcasts\<close>

text \<open>
  The transaction is in flight, or has a receipt that no expired preparation can reopen, or its
  note was submitted.
\<close>

definition settled_request :: "externals \<Rightarrow> signed_request \<Rightarrow> service \<Rightarrow> bool" where
  "settled_request E q sv =
     (request_inflight q sv \<or>
      (case txn_get (sr_hash q) (sv_store sv) of
         None \<Rightarrow> False
       | Some entry \<Rightarrow>
           (case get_note_handoff_for_tx (ext_fmt_hash E (sr_hash q)) (sv_store sv) of
              None \<Rightarrow> td_result entry \<noteq> None
            | Some rec \<Rightarrow>
                nh_state rec = HSubmitted \<or>
                (case td_result entry of Some (Inr _) \<Rightarrow> True | _ \<Rightarrow> False))))"

lemma classify_known_known:
  assumes "known_inflight \<or> settled_request E q sv" and "request_inflight q sv = known_inflight"
  shows "\<exists>s. classify_known E q known_inflight sv = (Inr Known, sv\<lparr>sv_store := s\<rparr>) \<and> transactions s = transactions (sv_store sv)"
proof (cases known_inflight)
  case True
  then show ?thesis
    by (intro exI [of _ "sv_store sv"]) (simp add: classify_known_def bindE_def read_store_def okE_def Let_def)
next
  case False
  with assms show ?thesis
    by (intro exI [of _ "snd (nonce_advance_cas (signer_text E q) (request_nonce q) (sv_store sv))"])
      (auto simp: settled_request_def classify_known_def repair_commit_gap_nonce_def bindE_def read_store_def on_store_def okE_def
        Let_def case_prod_unfold split: option.splits sum.splits)
qed

definition keeps_successes :: "mem_store \<Rightarrow> mem_store \<Rightarrow> bool" where
  "keeps_successes s s' =
     (\<forall>h e x. txn_get h s = Some e \<and> td_result e = Some (Inr x) \<longrightarrow> txn_get h s' = Some e)"

lemma keeps_same: "transactions s' = transactions s \<Longrightarrow> keeps_successes s s'"
  by (simp add: keeps_successes_def txn_get_def)

lemma reopen_success: "tr_result r = Some (Inr x) \<Longrightarrow> reopen_failed r = r"
  by (simp add: reopen_failed_def)

lemma clear_keeps_successes: "keeps_successes s (snd (clear_expired_prepared_note_handoff E t c s))"
  by (cases rule: clear_expired_cases [of E t c s])
    (auto simp: keeps_successes_def txn_get_def reopen_success split: option.split)

lemma dedup_known:
  assumes "settled_request E q sv"
  shows "\<exists>s. deduplicate E q sv = (Inr Known, sv\<lparr>sv_store := s\<rparr>) \<and> keeps_successes (sv_store sv) s"
proof -
  let ?key = "ext_fmt_hash E (sr_hash q)"
  show ?thesis
  proof (cases "\<exists>rec. get_note_handoff_for_tx ?key (sv_store sv) = Some rec \<and> nh_state rec = HPrepared")
    case False
    then have "deduplicate E q sv = classify_known E q (request_inflight q sv) sv"
      by (auto simp: deduplicate_def Let_def split: option.split)
    with classify_known_known [OF disjI2, OF assms refl] keeps_same show ?thesis by fastforce
  next
    case True
    then obtain rec where rec: "get_note_handoff_for_tx ?key (sv_store sv) = Some rec" "nh_state rec = HPrepared" by blast
    let ?cl = "clear_expired_prepared_note_handoff E ?key (nh_note_commitment rec) (sv_store sv)"
    let ?sv = "sv\<lparr>sv_store := snd ?cl\<rparr>"
    have t: "keeps_successes (sv_store sv) (snd ?cl)" by (rule clear_keeps_successes)
    show ?thesis
    proof (cases "fst ?cl")
      case True
      have "request_inflight q ?sv = request_inflight q sv" by (simp add: request_inflight_def)
      moreover have "settled_request E q ?sv"
        using assms rec t calculation
        by (auto simp: settled_request_def keeps_successes_def split: option.splits sum.splits)
      ultimately obtain s where "classify_known E q (request_inflight q sv) ?sv = (Inr Known, ?sv\<lparr>sv_store := s\<rparr>)"
          "transactions s = transactions (snd ?cl)"
        using classify_known_known [of "request_inflight q sv" E q ?sv] by auto
      moreover from this t have "keeps_successes (sv_store sv) s" by (simp add: keeps_successes_def txn_get_def)
      ultimately show ?thesis using True rec
        by (auto simp: deduplicate_def bindE_def on_store_def Let_def case_prod_unfold)
    next
      case False
      let ?s = "snd (nonce_advance_cas (signer_text E q) (request_nonce q) (snd ?cl))"
      have "keeps_successes (sv_store sv) ?s" using t by (simp add: keeps_successes_def txn_get_def)
      with False rec show ?thesis
        by (intro exI [of _ ?s])
          (simp add: deduplicate_def bindE_def on_store_def okE_def repair_commit_gap_nonce_def Let_def case_prod_unfold)
    qed
  qed
qed

section \<open>The answer is the hash\<close>

definition answers :: "'a \<Rightarrow> ('s, 'e, 'a) handler \<Rightarrow> bool" where
  "answers x m = (\<forall>s y. fst (m s) = Inr y \<longrightarrow> y = x)"

lemma answers_rules:
  "answers x (okE x)"
  "answers x (errE e)"
  "(\<And>y. answers x (f y)) \<Longrightarrow> answers x (bindE before f)"
  "answers x m \<Longrightarrow> answers x m' \<Longrightarrow> answers x (if b then m else m')"
  by (auto simp: answers_def okE_def errE_def bindE_def split: prod.splits sum.splits)

lemma answers_case_call:
  "(\<And>p. answers x (f p)) \<Longrightarrow> (\<And>g. answers x (k g)) \<Longrightarrow> answers x (case d of ClaimCall p \<Rightarrow> f p | GerCall g \<Rightarrow> k g)"
  by (simp split: decoded_write_call.split)

lemma answers_enqueue: "answers (sr_hash q) (enqueue_job Q q decoded)"
  by (auto simp: answers_def enqueue_job_def split: option.splits prod.splits sum.splits try_enqueue_error.splits)

lemma answers_admit: "answers (sr_hash q) (admit E cfg Q q decoded)"
proof -
  have "answers (sr_hash q) (dispatch_after_reservation E Q q decoded)"
    unfolding dispatch_after_reservation_def admit_to_queue_def
    by (intro answers_case_call answers_rules answers_enqueue)
  then have "answers (sr_hash q) (\<lambda>sv. let (r, sv') = dispatch_after_reservation E Q q decoded sv in (r, f r sv'))" for f
    by (auto simp: answers_def Let_def case_prod_unfold)
  then show ?thesis
    unfolding admit_def by (auto intro!: answers_rules split: nonce_reservation.split)
qed

lemma admit_answer: "admit E cfg Q q decoded sv = (Inr h, sv') \<Longrightarrow> h = sr_hash q"
  using answers_admit [of q E cfg Q decoded] unfolding answers_def by (metis fst_conv)

lemma bindO_answer:
  assumes "bindO m f s = Some (Inr y, s'')" and "\<And>x s'. f x s' = Some (Inr y, s'') \<Longrightarrow> y = h"
  shows "y = h"
  using assms(1) by (rule bindO_cases) (auto dest: assms(2))

lemma send_answer:
  assumes "authenticate E cfg R input = Inr q" and "service_send_raw_txn E cfg R Q input sv = Some (Inr h, sv')"
  shows "h = sr_hash q"
proof -
  have "bindO (liftO (deduplicate E q)) (\<lambda>d. case d of Known \<Rightarrow> liftO (okE (sr_hash q)) | Fresh known \<Rightarrow> gates E cfg R Q q known)
      sv = Some (Inr h, sv')"
    using assms by (simp add: send_gates bindO_def liftO_def liftE_def)
  then show ?thesis
  proof (rule bindO_answer)
    fix d s
    assume run: "(case d of Known \<Rightarrow> liftO (okE (sr_hash q)) | Fresh known \<Rightarrow> gates E cfg R Q q known) s = Some (Inr h, sv')"
    then show "h = sr_hash q"
    proof (cases d)
      case (Fresh known)
      with run have "gates E cfg R Q q known s = Some (Inr h, sv')" by simp
      then show ?thesis
        unfolding gates_def
        by (elim bindO_answer) (auto simp: okE_def split: if_splits dest: admit_answer)
    qed (simp add: okE_def)
  qed
qed

section \<open>Properties\<close>

text \<open>
  C13. Only authorized requests act. A raw transaction that does not decode, has no or a foreign
  chain id, an unsupported type, a signature that does not recover, or a signer outside the
  allow-list is refused and the service is left exactly as it was, whatever the environment does.
\<close>

theorem only_authorized_requests_act:
  assumes "service_send_raw_txn E cfg R Q input sv = Some (r, sv')" and "sv' \<noteq> sv \<or> (\<exists>h. r = Inr h)"
  shows "\<exists>payload env signer h data.
           hex_decode_prefixed E input = Some payload \<and> ra_decode_2718 R payload = Some env \<and>
           envelope_chain_id env = Some (cfg_chain_id cfg) \<and> unwrap_txn_envelope env = Inr (h, data) \<and>
           ra_recover_signer R env = Some signer \<and>
           (cfg_allow_any_signer cfg \<or> (\<exists>l. cfg_allowed_signers cfg = Some l \<and> signer \<in> set l)) \<and>
           (\<forall>h'. r = Inr h' \<longrightarrow> h' = h)"
proof (cases "authenticate E cfg R input")
  case (Inl e)
  with assms show ?thesis by (auto simp: service_send_raw_txn_def bindO_def liftO_def liftE_def)
next
  case (Inr q)
  then have "r = Inr h' \<Longrightarrow> h' = sr_hash q" for h' using assms(1) send_answer by blast
  with Inr show ?thesis
    by (auto simp: authenticate_def is_signer_allowed_def list_ex_iff split: option.splits if_splits sum.splits)
qed

text \<open>
  C8. Admission is durable. When a request changed the queue of the writer, it appended exactly
  one job, its own, whose hash was not in flight before; it answered with the hash; the nonce is
  consumed; and the transaction's row is stored, so that a crash before the job ran is recovered
  by a rebroadcast (other tasks between the row and the nonce could only evict the row).
\<close>

theorem admission_is_durable:
  assumes "service_send_raw_txn E cfg R Q input sv = Some (r, sv')" and "lru_ok E"
    and "sv_writer sv' \<noteq> sv_writer sv"
  shows "\<exists>q w w' job. authenticate E cfg R input = Inr q \<and> r = Inr (sr_hash q) \<and>
           sv_writer sv = Some w \<and> sv_writer sv' = Some w' \<and> \<not> is_inflight (sr_hash q) w \<and>
           wh_queue w' = wh_queue w @ [job] \<and> wj_eth_tx_hash job = sr_hash q \<and> wj_signer job = sr_signer q \<and>
           nonce_get (signer_text E q) (sv_store sv') \<in> {request_nonce q + 1, saturating_add (request_nonce q) 1} \<and>
           (re_gap Q 1 = [] \<longrightarrow> txn_get (sr_hash q) (sv_store sv') \<noteq> None)"
proof -
  obtain q where q: "authenticate E cfg R input = Inr q" "r = Inr (sr_hash q)" "own_job_queued E Q q sv sv'"
      "\<not> request_inflight q sv"
    using send_queues [OF assms(1,2)] assms(3) by blast
  then obtain w w' decoded now where w: "sv_writer sv = Some w" "sv_writer sv' = Some w'"
      "try_enqueue (into_job decoded (sr_envelope q) (sr_signer q) (sr_hash q) (re_job_id Q)) now w = (Inr (), w')"
    by (auto simp: own_job_queued_def)
  then have "wh_queue w' = wh_queue w @ [into_job decoded (sr_envelope q) (sr_signer q) (sr_hash q) (re_job_id Q)]"
    by (auto simp: try_enqueue_def Let_def split: if_splits)
  with q w show ?thesis
    by (auto simp: own_job_queued_def request_inflight_def into_job_def txn_get_def)
qed

text \<open>
  C12. A rebroadcast is answered, not executed again. When the transaction is in flight, or has a
  receipt that no expired preparation can reopen, or its note was submitted, the request returns
  its hash, and neither the queue nor the notes handed to the node nor any successful receipt
  changes.
\<close>

theorem rebroadcast_is_answered:
  assumes "authenticate E cfg R input = Inr q" and "settled_request E q sv"
  shows "\<exists>sv'. service_send_raw_txn E cfg R Q input sv = Some (Inr (sr_hash q), sv') \<and>
           sv_writer sv' = sv_writer sv \<and> sv_submitted sv' = sv_submitted sv \<and>
           (\<forall>h e x. txn_get h (sv_store sv) = Some e \<and> td_result e = Some (Inr x) \<longrightarrow> txn_get h (sv_store sv') = Some e)"
proof -
  obtain s where "deduplicate E q sv = (Inr Known, sv\<lparr>sv_store := s\<rparr>)" "keeps_successes (sv_store sv) s"
    using dedup_known [OF assms(2)] by blast
  with assms(1) show ?thesis
    by (simp add: service_send_raw_txn_def bindO_def liftO_def liftE_def okE_def keeps_successes_def)
qed

text \<open>
  C25. A request always returns: with clocks that advance by the poll intervals, neither the wait
  for an earlier nonce nor the wait for L1 evidence hangs, whatever other tasks do meanwhile.
\<close>

theorem admission_returns:
  assumes "\<forall>i. re_elapsed Q i + FUTURE_NONCE_POLL \<le> re_elapsed Q (Suc i)"
    and "\<forall>i. gi_elapsed (re_preflight Q) i + GER_EVIDENCE_POLL_INTERVAL \<le> gi_elapsed (re_preflight Q) (Suc i)"
  shows "\<exists>r sv'. service_send_raw_txn E cfg R Q input sv = Some (r, sv')"
proof -
  have g: "\<exists>res. gates E cfg R Q q known sv = Some res" for q known sv
    unfolding gates_def
    by (intro bindO_returns preflight_returns [OF assms(2)] nonce_loop_returns [OF assms(1)]) (simp_all split: if_split)
  have "\<exists>res. service_send_raw_txn E cfg R Q input sv = Some res"
    unfolding send_gates by (intro bindO_returns) (auto split: dedup.split simp: g simp del: split_paired_Ex)
  then show ?thesis by (metis surj_pair)
qed

section \<open>A request\<close>

definition demo_signed :: signed_request where
  "demo_signed = \<lparr>sr_envelope = Legacy \<lparr>stx_hash = 9, stx_chain_id = Some 2, stx_nonce = 0, stx_to = None,
       stx_input = claim_selector demo_ext\<rparr>,
     sr_hash = 9, sr_input = claim_selector demo_ext, sr_signer = 6\<rparr>"

definition demo_request_api :: request_api where
  "demo_request_api = \<lparr>ra_decode_2718 = (\<lambda>_. Some (sr_envelope demo_signed)), ra_recover_signer = (\<lambda>_. Some 6),
     ra_abi_claim = (\<lambda>_. Some demo_claim), ra_abi_insert = (\<lambda>_. None), ra_abi_update = (\<lambda>_. None)\<rparr>"

definition demo_request :: request_env where
  "demo_request = \<lparr>re_view = (\<lambda>_. \<lparr>mv_sync = True, mv_account = True, mv_ger = (\<lambda>_. Some True), mv_nullifier = (\<lambda>_ _. Some False),
       mv_output_note = (\<lambda>_. None)\<rparr>),
     re_embedded = (\<lambda>_. None), re_preflight = demo_injection, re_polls = (\<lambda>_. []), re_elapsed = (\<lambda>i. 50 * i), re_gap = (\<lambda>_. []),
     re_now = (\<lambda>i. i), re_job_id = 0\<rparr>"

definition demo_gateway :: service where
  "demo_gateway = demo_service\<lparr>sv_writer := Some (spawn 4)\<rparr>"

lemma demo_authenticate: "authenticate demo_ext demo_config demo_request_api ''0x'' = Inr demo_signed"
  by (simp add: authenticate_def hex_decode_prefixed_def strip_prefix_def demo_request_api_def demo_signed_def envelope_chain_id_def
      demo_config_def unwrap_txn_envelope_def demo_ext_def)

lemma demo_decode: "decode_write_call demo_ext demo_request_api (sr_input demo_signed) = Inr (ClaimCall demo_claim)"
  by (simp add: decode_write_call_def demo_signed_def demo_request_api_def starts_with_def)

lemma demo_dedup: "deduplicate demo_ext demo_signed demo_gateway = (Inr (Fresh False), demo_gateway)"
  by (simp add: deduplicate_def demo_gateway_def demo_service_def classify_known_def bindE_def read_store_def okE_def Let_def
      request_inflight_def is_inflight_def spawn_def get_note_handoff_for_tx_def txn_get_def)

lemma demo_gate:
  "logs_by_block s = [] \<Longrightarrow> claim_watcher_processed s = [] \<Longrightarrow>
     claim_state_gate demo_ext (re_view demo_request i) (re_embedded demo_request) demo_claim s = Inr False"
proof -
  assume s: "logs_by_block s = []" "claim_watcher_processed s = []"
  have "claim_coordinates 77 = Inr (77, 1)" by (simp add: claim_coordinates_fields Let_def checked_add_def)
  then have "claim_is_set (re_view demo_request i) 77 = Inr False"
    by (simp add: claim_is_set_def demo_request_def)
  with s show ?thesis
    by (simp add: claim_state_gate_def claim_and_ger_applied_def demo_claim_def has_claim_event_for_global_index_def
        bridge_snapshot_with_client_def read_optional_def demo_request_def Let_def)
qed

lemma demo_nonce: "nonce_loop demo_ext demo_request demo_signed False 0 demo_gateway = Some (Inr True, demo_gateway)"
proof -
  have "check_nonce demo_ext demo_signed False 0 demo_gateway = Accept"
    by (simp add: check_nonce_def request_nonce_def envelope_nonce_def demo_signed_def demo_gateway_def demo_service_def
        nonce_get_def pending_nonce_frontier_of_def Let_def)
  moreover have "request_others demo_ext [] demo_gateway = (Inr (), demo_gateway)" by (simp add: request_others_def)
  ultimately show ?thesis
    by (subst nonce_loop.simps) (simp add: demo_request_def nonce_round_under_lock_def Let_def request_inflight_def
        is_inflight_def demo_gateway_def demo_service_def spawn_def txn_get_def)
qed

lemma demo_admit:
  "\<exists>sv'. admit demo_ext demo_config demo_request demo_signed (ClaimCall demo_claim) demo_gateway = (Inr 9, sv') \<and>
     sv_writer sv' \<noteq> sv_writer demo_gateway"
proof -
  let ?addr = "signer_text demo_ext demo_signed"
  obtain s where r: "reserve_nonce ?addr 0 9 90 0 (sv_store demo_gateway) = (Won 1, s)"
      and s: "logs_by_block s = []" "claim_watcher_processed s = []" "transactions s = []" "nonces s = []"
    by (simp add: reserve_nonce_def demo_gateway_def demo_service_def Let_def)
  let ?sv = "demo_gateway\<lparr>sv_store := s\<rparr>"
  have n: "request_nonce demo_signed = 0" "sr_hash demo_signed = 9"
    by (simp_all add: demo_signed_def request_nonce_def envelope_nonce_def)
  obtain s' where d: "durably_admit_and_advance_nonce demo_ext demo_request demo_signed ?sv = (Inr (), ?sv\<lparr>sv_store := s'\<rparr>)"
    by (simp add: durably_admit_and_advance_nonce_def bindE_def try_store_def request_others_def on_store_def okE_def
        demo_request_def txn_begin_if_absent_def s n nonce_advance_cas_def hm_or_insert_def Let_def case_prod_unfold)
  have w: "sv_writer demo_gateway = Some (spawn 4)" by (simp add: demo_gateway_def)
  let ?job = "into_job (ClaimCall demo_claim) (sr_envelope demo_signed) (sr_signer demo_signed) 9 (re_job_id demo_request)"
  have "\<exists>w. enqueue_job demo_request demo_signed (ClaimCall demo_claim) (?sv\<lparr>sv_store := s'\<rparr>) =
      (Inr 9, ?sv\<lparr>sv_store := s', sv_writer := Some w\<rparr>) \<and> w \<noteq> spawn 4"
    by (intro exI [of _ "snd (try_enqueue ?job (re_now demo_request 2) (spawn 4))"])
      (simp add: enqueue_job_def w n try_enqueue_def spawn_def available_capacity_def into_job_def Let_def)
  then obtain w' where e: "enqueue_job demo_request demo_signed (ClaimCall demo_claim) (?sv\<lparr>sv_store := s'\<rparr>) =
      (Inr 9, ?sv\<lparr>sv_store := s', sv_writer := Some w'\<rparr>)" "w' \<noteq> spawn 4" by blast
  have g: "queue_gate ?sv = Inr ()" by (simp add: queue_gate_def w spawn_def available_capacity_def)
  have "dispatch_after_reservation demo_ext demo_request demo_signed (ClaimCall demo_claim) ?sv =
      (Inr 9, ?sv\<lparr>sv_store := s', sv_writer := Some w'\<rparr>)"
    using e(1) d g by (simp add: dispatch_after_reservation_def admit_to_queue_def bindE_def read_store_def liftE_def
        demo_gate [OF s(1,2)])
  then show ?thesis
    using r w e(2) n by (simp add: admit_def bindE_def on_store_def request_others_def demo_config_def demo_request_def
        case_prod_unfold Let_def)
qed

lemma demo_send:
  "\<exists>sv'. service_send_raw_txn demo_ext demo_config demo_request_api demo_request ''0x'' demo_gateway = Some (Inr 9, sv') \<and>
     sv_writer sv' \<noteq> sv_writer demo_gateway"
proof -
  have v: "validate_before_nonce_reservation demo_ext demo_config demo_request (ClaimCall demo_claim) (sv_store demo_gateway) = Inr ()"
    using demo_gate [of "sv_store demo_gateway" 0]
    by (simp add: validate_before_nonce_reservation_def demo_gateway_def demo_service_def demo_claim_def demo_config_def)
  have g: "queue_gate demo_gateway = Inr ()"
    by (simp add: queue_gate_def demo_gateway_def spawn_def available_capacity_def)
  have "service_send_raw_txn demo_ext demo_config demo_request_api demo_request ''0x'' demo_gateway =
      Some (admit demo_ext demo_config demo_request demo_signed (ClaimCall demo_claim) demo_gateway)"
    by (simp add: service_send_raw_txn_def bindO_def liftO_def liftE_def demo_authenticate demo_dedup demo_decode v g ger_preflight_def
        demo_nonce)
  with demo_admit show ?thesis by simp
qed

theorem only_authorized_requests_act_witness:
  "\<exists>payload env. hex_decode_prefixed demo_ext ''0x'' = Some payload \<and> ra_decode_2718 demo_request_api payload = Some env \<and>
     envelope_chain_id env = Some 2 \<and> ra_recover_signer demo_request_api env \<noteq> None"
  using only_authorized_requests_act [of demo_ext demo_config demo_request_api demo_request "''0x''" demo_gateway] demo_send
  by (fastforce simp: demo_config_def)

theorem admission_is_durable_witness:
  "\<exists>sv'. service_send_raw_txn demo_ext demo_config demo_request_api demo_request ''0x'' demo_gateway = Some (Inr 9, sv') \<and>
     txn_get 9 (sv_store sv') \<noteq> None"
proof -
  obtain sv' where r: "service_send_raw_txn demo_ext demo_config demo_request_api demo_request ''0x'' demo_gateway = Some (Inr 9, sv')"
      "sv_writer sv' \<noteq> sv_writer demo_gateway"
    using demo_send by blast
  have "re_gap demo_request 1 = []" by (simp add: demo_request_def)
  with admission_is_durable [OF r(1) demo_lru r(2)] r(1) show ?thesis by fastforce
qed

theorem rebroadcast_is_answered_witness:
  "\<exists>sv'. service_send_raw_txn demo_ext demo_config demo_request_api demo_request ''0x''
            (demo_gateway\<lparr>sv_writer := Some demo_writer\<rparr>) = Some (Inr 9, sv') \<and> sv_writer sv' = Some demo_writer"
proof -
  have "settled_request demo_ext demo_signed (demo_gateway\<lparr>sv_writer := Some demo_writer\<rparr>)"
    by (simp add: settled_request_def request_inflight_def demo_writer_def try_enqueue_def spawn_def available_capacity_def
        is_inflight_def demo_job_def into_job_def demo_signed_def Let_def)
  from rebroadcast_is_answered [OF demo_authenticate this, of demo_request] show ?thesis
    by (auto simp: demo_signed_def)
qed

theorem admission_returns_witness:
  "\<exists>r sv'. service_send_raw_txn demo_ext demo_config demo_request_api demo_request ''0x'' demo_gateway = Some (r, sv')"
  by (rule admission_returns) (simp_all add: demo_request_def demo_injection_def FUTURE_NONCE_POLL_def GER_EVIDENCE_POLL_INTERVAL_def)

end
