(* ===== verification/Note_Decode.thy ===== *)
theory Note_Decode
  imports Claim_Publish
begin

text \<open>
  Decoding what the bridge consumed: the storage of CLAIM notes (\<^verbatim>\<open>src/src/claim_watcher.rs\<close>), the
  storage and the provenance of GER notes, and the provenance of CLAIM notes (\<^verbatim>\<open>src/src/restore.rs\<close>).
  A felt is its canonical \<^verbatim>\<open>u64\<close>.
\<close>

section \<open>Results in sequence\<close>

definition bindS :: "'e + 'a \<Rightarrow> ('a \<Rightarrow> 'e + 'b) \<Rightarrow> 'e + 'b" where
  "bindS m f = (case m of Inl e \<Rightarrow> Inl e | Inr x \<Rightarrow> f x)"

fun mapS :: "('a \<Rightarrow> 'e + 'b) \<Rightarrow> 'a list \<Rightarrow> 'e + 'b list" where
  "mapS f [] = Inr []"
| "mapS f (x # xs) = bindS (f x) (\<lambda>y. bindS (mapS f xs) (\<lambda>ys. Inr (y # ys)))"

lemma bindS_simps [simp]: "bindS (Inr x) f = f x" "bindS (Inl e) f = Inl e"
  by (simp_all add: bindS_def)

lemma bindS_Inr_iff: "bindS m f = Inr y \<longleftrightarrow> (\<exists>x. m = Inr x \<and> f x = Inr y)"
  by (cases m) simp_all

lemma mapS_Inr: "(\<And>x. x \<in> set xs \<Longrightarrow> f x = Inr (g x)) \<Longrightarrow> mapS f xs = Inr (map g xs)"
  by (induction xs) simp_all

section \<open>Storage of CLAIM notes\<close>

definition OFFSET_SMT_PROOF_LOCAL :: nat where "OFFSET_SMT_PROOF_LOCAL = 0"
definition OFFSET_SMT_PROOF_ROLLUP :: nat where "OFFSET_SMT_PROOF_ROLLUP = 256"
definition OFFSET_GLOBAL_INDEX :: nat where "OFFSET_GLOBAL_INDEX = 512"
definition OFFSET_MAINNET_EXIT_ROOT :: nat where "OFFSET_MAINNET_EXIT_ROOT = 520"
definition OFFSET_ROLLUP_EXIT_ROOT :: nat where "OFFSET_ROLLUP_EXIT_ROOT = 528"
definition OFFSET_ORIGIN_NETWORK :: nat where "OFFSET_ORIGIN_NETWORK = 537"
definition OFFSET_ORIGIN_ADDRESS :: nat where "OFFSET_ORIGIN_ADDRESS = 538"
definition OFFSET_DESTINATION_NETWORK :: nat where "OFFSET_DESTINATION_NETWORK = 543"
definition OFFSET_DESTINATION_ADDRESS :: nat where "OFFSET_DESTINATION_ADDRESS = 544"
definition OFFSET_AMOUNT :: nat where "OFFSET_AMOUNT = 549"
definition OFFSET_METADATA_HASH :: nat where "OFFSET_METADATA_HASH = 557"
definition MIN_FELT_COUNT :: nat where "MIN_FELT_COUNT = 569"

lemmas claim_offsets =
  OFFSET_SMT_PROOF_LOCAL_def OFFSET_SMT_PROOF_ROLLUP_def OFFSET_GLOBAL_INDEX_def OFFSET_MAINNET_EXIT_ROOT_def
  OFFSET_ROLLUP_EXIT_ROOT_def OFFSET_ORIGIN_NETWORK_def OFFSET_ORIGIN_ADDRESS_def OFFSET_DESTINATION_NETWORK_def
  OFFSET_DESTINATION_ADDRESS_def OFFSET_AMOUNT_def OFFSET_METADATA_HASH_def

datatype claim_decode_error =
    ClaimStorageTooShort nat
  | TooFewFelts nat nat
  | LimbExceedsU32 nat
  | NetworkFeltExceedsU32
  | ClaimAmountExceedsU64

definition decode_swapped_u32 :: "u64 \<Rightarrow> claim_decode_error + u32" where
  "decode_swapped_u32 felt =
     (case u32_try_from felt of
        None \<Rightarrow> Inl NetworkFeltExceedsU32
      | Some raw \<Rightarrow> Inr (from_be_bytes (le_bytes 4 raw)))"

fun unpack_limbs :: "nat \<Rightarrow> u64 list \<Rightarrow> claim_decode_error + byte list" where
  "unpack_limbs i [] = Inr []"
| "unpack_limbs i (f # fs) =
     (case u32_try_from f of
        None \<Rightarrow> Inl (LimbExceedsU32 i)
      | Some limb \<Rightarrow> bindS (unpack_limbs (Suc i) fs) (\<lambda>bs. Inr (le_bytes 4 limb @ bs)))"

text \<open>The last limb is cut at the end of the array; \<open>(n + 3) div 4\<close> is \<^verbatim>\<open>N.div_ceil(4)\<close>.\<close>

definition unpack_u32_felts :: "nat \<Rightarrow> u64 list \<Rightarrow> claim_decode_error + byte list" where
  "unpack_u32_felts n felts =
     (if length felts * 4 < n then Inl (TooFewFelts ((n + 3) div 4) (length felts))
      else bindS (unpack_limbs 0 (take ((n + 3) div 4) felts)) (\<lambda>bs. Inr (take n bs)))"

definition felt_range :: "nat \<Rightarrow> nat \<Rightarrow> u64 list \<Rightarrow> u64 list" where
  "felt_range a n items = take n (drop a items)"

record decoded_claim =
  dc_global_index :: b256
  dc_origin_network :: u32
  dc_origin_address :: address
  dc_destination_address :: address
  dc_amount :: u64

record decoded_full_claim =
  df_smt_proof_local :: "b256 list"
  df_smt_proof_rollup :: "b256 list"
  df_global_index :: b256
  df_mainnet_exit_root :: b256
  df_rollup_exit_root :: b256
  df_origin_network :: u32
  df_origin_address :: address
  df_destination_network :: u32
  df_destination_address :: address
  df_amount :: u256
  df_metadata_hash :: b256

definition unpack_hash :: "nat \<Rightarrow> u64 list \<Rightarrow> claim_decode_error + b256" where
  "unpack_hash at items = bindS (unpack_u32_felts 32 (felt_range at 8 items)) (\<lambda>bs. Inr (from_be_bytes bs))"

definition unpack_address :: "nat \<Rightarrow> u64 list \<Rightarrow> claim_decode_error + address" where
  "unpack_address at items = bindS (unpack_u32_felts 20 (felt_range at 5 items)) (\<lambda>bs. Inr (from_be_bytes bs))"

definition parse_claim_event_from_storage :: "u64 list \<Rightarrow> claim_decode_error + decoded_claim" where
  "parse_claim_event_from_storage items =
     (if length items < MIN_FELT_COUNT then Inl (ClaimStorageTooShort (length items))
      else
        bindS (unpack_hash OFFSET_GLOBAL_INDEX items) (\<lambda>global_index.
        bindS (decode_swapped_u32 (items ! OFFSET_ORIGIN_NETWORK)) (\<lambda>origin_network.
        bindS (unpack_address OFFSET_ORIGIN_ADDRESS items) (\<lambda>origin_address.
        bindS (unpack_address OFFSET_DESTINATION_ADDRESS items) (\<lambda>destination_address.
        bindS (unpack_u32_felts 32 (felt_range OFFSET_AMOUNT 8 items)) (\<lambda>amount_bytes.
        if list_ex (\<lambda>b. b \<noteq> 0) (take 24 amount_bytes) then Inl ClaimAmountExceedsU64
        else Inr \<lparr>dc_global_index = global_index, dc_origin_network = origin_network,
                  dc_origin_address = origin_address, dc_destination_address = destination_address,
                  dc_amount = from_be_bytes (drop 24 amount_bytes)\<rparr>))))))"

definition smt_node_pair :: "u64 list \<Rightarrow> nat \<Rightarrow> claim_decode_error + b256 \<times> b256" where
  "smt_node_pair items i =
     bindS (unpack_hash (OFFSET_SMT_PROOF_LOCAL + i * 8) items) (\<lambda>l.
     bindS (unpack_hash (OFFSET_SMT_PROOF_ROLLUP + i * 8) items) (\<lambda>r. Inr (l, r)))"

definition parse_full_claim_from_storage :: "u64 list \<Rightarrow> claim_decode_error + decoded_full_claim" where
  "parse_full_claim_from_storage items =
     (if length items < MIN_FELT_COUNT then Inl (ClaimStorageTooShort (length items))
      else
        bindS (mapS (smt_node_pair items) [0..<32]) (\<lambda>nodes.
        bindS (unpack_hash OFFSET_GLOBAL_INDEX items) (\<lambda>global_index.
        bindS (unpack_hash OFFSET_MAINNET_EXIT_ROOT items) (\<lambda>mainnet_exit_root.
        bindS (unpack_hash OFFSET_ROLLUP_EXIT_ROOT items) (\<lambda>rollup_exit_root.
        bindS (decode_swapped_u32 (items ! OFFSET_ORIGIN_NETWORK)) (\<lambda>origin_network.
        bindS (unpack_address OFFSET_ORIGIN_ADDRESS items) (\<lambda>origin_address.
        bindS (decode_swapped_u32 (items ! OFFSET_DESTINATION_NETWORK)) (\<lambda>destination_network.
        bindS (unpack_address OFFSET_DESTINATION_ADDRESS items) (\<lambda>destination_address.
        bindS (unpack_hash OFFSET_AMOUNT items) (\<lambda>amount.
        bindS (unpack_hash OFFSET_METADATA_HASH items) (\<lambda>metadata_hash.
        Inr \<lparr>df_smt_proof_local = map fst nodes, df_smt_proof_rollup = map snd nodes, df_global_index = global_index,
             df_mainnet_exit_root = mainnet_exit_root, df_rollup_exit_root = rollup_exit_root,
             df_origin_network = origin_network, df_origin_address = origin_address,
             df_destination_network = destination_network, df_destination_address = destination_address,
             df_amount = amount, df_metadata_hash = metadata_hash\<rparr>)))))))))))"

definition MANUAL_CLAIM_TX_HASH_TAG :: "byte list" where
  "MANUAL_CLAIM_TX_HASH_TAG = ascii_bytes ''miden-agglayer/manual-claim/v1'' @ [0]"

definition derive_manual_claim_tx_hash :: "externals \<Rightarrow> string \<Rightarrow> string" where
  "derive_manual_claim_tx_hash E note_id =
     ''0x'' @ ext_hex_encode E (be_bytes 32 (ext_keccak E (MANUAL_CLAIM_TX_HASH_TAG @ ascii_bytes note_id)))"

definition build_claim_asset_call :: "decoded_full_claim \<Rightarrow> byte list \<Rightarrow> claim_asset_call" where
  "build_claim_asset_call full metadata =
     \<lparr>cc_smt_proof_local = df_smt_proof_local full, cc_smt_proof_rollup = df_smt_proof_rollup full,
      cc_global_index = df_global_index full, cc_mainnet_exit_root = df_mainnet_exit_root full,
      cc_rollup_exit_root = df_rollup_exit_root full, cc_origin_network = df_origin_network full,
      cc_origin_token_address = df_origin_address full, cc_destination_network = df_destination_network full,
      cc_destination_address = df_destination_address full, cc_amount = df_amount full, cc_metadata = metadata\<rparr>"

section \<open>GER notes and provenance\<close>

fun ger_limbs :: "nat \<Rightarrow> u64 list \<Rightarrow> nat + byte list" where
  "ger_limbs i [] = Inr []"
| "ger_limbs i (f # fs) =
     (case u32_try_from f of
        None \<Rightarrow> Inl i
      | Some v \<Rightarrow> bindS (ger_limbs (Suc i) fs) (\<lambda>bs. Inr (le_bytes 4 v @ bs)))"

text \<open>Fewer than eight felts leave the rest of the array zero.\<close>

definition ger_bytes_from_storage :: "u64 list \<Rightarrow> nat + b256" where
  "ger_bytes_from_storage items =
     bindS (ger_limbs 0 (take 8 items)) (\<lambda>bs. Inr (from_be_bytes (bs @ replicate (32 - length bs) 0)))"

datatype ger_note_verdict = GerAccept | GerMissingMetadata | GerSenderMismatch | GerUndecodableTarget | GerTargetMismatch

text \<open>Of the metadata only the sender is read; \<open>target\<close> is what the attachment decodes to.\<close>

definition classify_ger_note :: "account_id option \<Rightarrow> account_id option \<Rightarrow> account_id \<Rightarrow> account_id \<Rightarrow> ger_note_verdict" where
  "classify_ger_note metadata target expected_sender expected_target =
     (case metadata of
        None \<Rightarrow> GerMissingMetadata
      | Some sender \<Rightarrow>
          if sender \<noteq> expected_sender then GerSenderMismatch
          else (case target of
                  None \<Rightarrow> GerUndecodableTarget
                | Some t \<Rightarrow> if t \<noteq> expected_target then GerTargetMismatch else GerAccept))"

datatype claim_note_verdict = Ours | Foreign

definition classify_claim_note ::
    "account_id option \<Rightarrow> account_id option \<Rightarrow> account_id option \<Rightarrow> account_id \<Rightarrow> account_id \<Rightarrow> claim_note_verdict" where
  "classify_claim_note consumer metadata target expected_sender bridge_id =
     (if consumer = Some bridge_id then Ours
      else if metadata = Some expected_sender \<and> target = Some bridge_id then Ours
      else Foreign)"

section \<open>The layout the notes are written in\<close>

text \<open>
  \<^verbatim>\<open>bytes_to_packed_u32_elements\<close> and the order of the fields, as the decoder documents them.
\<close>

definition packed :: "byte list \<Rightarrow> u64 list" where
  "packed bs = map (\<lambda>i. ucast (from_le_bytes (take 4 (drop (4 * i) bs)) :: u32)) [0..<length bs div 4]"

definition swapped :: "u32 \<Rightarrow> u64" where
  "swapped w = ucast (from_le_bytes (be_bytes 4 w) :: u32)"

definition claim_storage_layout :: "claim_note_storage \<Rightarrow> u64 list" where
  "claim_storage_layout cs =
     (let p = cs_proof_data cs; l = cs_leaf_data cs
      in concat (map (\<lambda>w. packed (be_bytes 32 w)) (pd_smt_proof_local p)) @
         concat (map (\<lambda>w. packed (be_bytes 32 w)) (pd_smt_proof_rollup p)) @
         packed (be_bytes 32 (pd_global_index p)) @
         packed (be_bytes 32 (pd_mainnet_exit_root p)) @
         packed (be_bytes 32 (pd_rollup_exit_root p)) @
         [0, swapped (lf_origin_network l)] @
         packed (be_bytes 20 (lf_origin_token_address l)) @
         [swapped (lf_destination_network l)] @
         packed (be_bytes 20 (lf_destination_address l)) @
         packed (be_bytes 32 (lf_amount l)) @
         packed (be_bytes 32 (lf_metadata_hash l)) @
         [0, 0, 0, cs_miden_claim_amount cs])"

lemma length_packed [simp]: "length (packed bs) = length bs div 4"
  by (simp add: packed_def)

lemma packed_step:
  assumes "length xs = 4"
  shows "packed (xs @ bs) = ucast (from_le_bytes xs :: u32) # packed bs"
proof -
  have "(4 + length bs) div 4 = Suc (length bs div 4)" by simp
  moreover have "[0..<Suc (length bs div 4)] = 0 # map Suc [0..<length bs div 4]"
    by (simp add: upt_conv_Cons map_Suc_upt del: upt_Suc)
  ultimately show ?thesis using assms by (simp add: packed_def comp_def del: upt_Suc)
qed

lemma bytes_of_multiple_of_4:
  assumes "length bs = 4 * Suc k"
  obtains xs rest where "bs = xs @ rest" and "length xs = 4" and "length rest = 4 * k"
  using assms by (intro that [of "take 4 bs" "drop 4 bs"]) simp_all

lemma unpack_packed: "length bs = 4 * k \<Longrightarrow> unpack_limbs i (packed bs) = Inr bs"
proof (induction k arbitrary: i bs)
  case 0
  then show ?case by (simp add: packed_def)
next
  case (Suc k)
  then obtain xs rest where "bs = xs @ rest" "length xs = 4" "length rest = 4 * k"
    by (blast elim: bytes_of_multiple_of_4)
  with Suc.IH [of rest] show ?case by (simp add: packed_step le_bytes_from_le_bytes)
qed

lemma ger_limbs_packed: "length bs = 4 * k \<Longrightarrow> ger_limbs i (packed bs) = Inr bs"
proof (induction k arbitrary: i bs)
  case 0
  then show ?case by (simp add: packed_def)
next
  case (Suc k)
  then obtain xs rest where "bs = xs @ rest" "length xs = 4" "length rest = 4 * k"
    by (blast elim: bytes_of_multiple_of_4)
  with Suc.IH [of rest] show ?case by (simp add: packed_step le_bytes_from_le_bytes)
qed

lemma unpack_u32_packed: "length bs = 4 * k \<Longrightarrow> unpack_u32_felts (4 * k) (packed bs) = Inr bs"
  by (simp add: unpack_u32_felts_def unpack_packed)

lemma felt_range_at: "length xs = a \<Longrightarrow> length ys = n \<Longrightarrow> felt_range a n (xs @ ys @ zs) = ys"
  by (simp add: felt_range_def)

lemma unpack_hash_at: "felt_range a 8 items = packed (be_bytes 32 w) \<Longrightarrow> unpack_hash a items = Inr w"
  using unpack_u32_packed [of "be_bytes 32 w" 8] by (simp add: unpack_hash_def from_be_bytes_be_bytes)

lemma unpack_address_at: "felt_range a 5 items = packed (be_bytes 20 w) \<Longrightarrow> unpack_address a items = Inr w"
  using unpack_u32_packed [of "be_bytes 20 w" 5] by (simp add: unpack_address_def from_be_bytes_be_bytes)

lemma decode_swapped: "decode_swapped_u32 (swapped w) = Inr w"
proof -
  have "from_be_bytes (le_bytes 4 (from_le_bytes (be_bytes 4 w) :: u32)) = w"
    by (simp add: le_bytes_from_le_bytes from_be_bytes_be_bytes)
  then show ?thesis by (simp add: decode_swapped_u32_def swapped_def)
qed

lemma felt_range_chunk:
  assumes "\<And>w. w \<in> set ws \<Longrightarrow> length (f w) = 8" and "i < length ws" and "length xs = a"
  shows "felt_range (a + i * 8) 8 (xs @ concat (map f ws) @ zs) = f (ws ! i)"
  using assms
proof (induction ws arbitrary: i xs a)
  case (Cons w ws)
  show ?case
  proof (cases i)
    case 0
    with Cons.prems show ?thesis by (simp add: felt_range_def)
  next
    case (Suc j)
    have l: "length (f w) = 8" by (rule Cons.prems(1)) simp
    have "felt_range ((a + 8) + j * 8) 8 ((xs @ f w) @ concat (map f ws) @ zs) = f (ws ! j)"
      by (rule Cons.IH) (use Cons.prems Suc l in simp_all)
    with Suc show ?thesis by (simp add: algebra_simps)
  qed
qed simp

definition proofs_ok :: "claim_note_storage \<Rightarrow> bool" where
  "proofs_ok cs =
     (length (pd_smt_proof_local (cs_proof_data cs)) = 32 \<and> length (pd_smt_proof_rollup (cs_proof_data cs)) = 32)"

lemma length_chunks: "(\<And>w. length (f w) = 8) \<Longrightarrow> length (concat (map f ws)) = 8 * length ws"
  by (induction ws) simp_all

lemma layout_fields:
  fixes cs :: claim_note_storage
  assumes "proofs_ok cs"
  defines "items \<equiv> claim_storage_layout cs"
  shows "length items = MIN_FELT_COUNT"
    and "felt_range OFFSET_GLOBAL_INDEX 8 items = packed (be_bytes 32 (pd_global_index (cs_proof_data cs)))"
    and "felt_range OFFSET_MAINNET_EXIT_ROOT 8 items = packed (be_bytes 32 (pd_mainnet_exit_root (cs_proof_data cs)))"
    and "felt_range OFFSET_ROLLUP_EXIT_ROOT 8 items = packed (be_bytes 32 (pd_rollup_exit_root (cs_proof_data cs)))"
    and "items ! OFFSET_ORIGIN_NETWORK = swapped (lf_origin_network (cs_leaf_data cs))"
    and "felt_range OFFSET_ORIGIN_ADDRESS 5 items = packed (be_bytes 20 (lf_origin_token_address (cs_leaf_data cs)))"
    and "items ! OFFSET_DESTINATION_NETWORK = swapped (lf_destination_network (cs_leaf_data cs))"
    and "felt_range OFFSET_DESTINATION_ADDRESS 5 items = packed (be_bytes 20 (lf_destination_address (cs_leaf_data cs)))"
    and "felt_range OFFSET_AMOUNT 8 items = packed (be_bytes 32 (lf_amount (cs_leaf_data cs)))"
    and "felt_range OFFSET_METADATA_HASH 8 items = packed (be_bytes 32 (lf_metadata_hash (cs_leaf_data cs)))"
    and "i < 32 \<Longrightarrow> felt_range (OFFSET_SMT_PROOF_LOCAL + i * 8) 8 items =
           packed (be_bytes 32 (pd_smt_proof_local (cs_proof_data cs) ! i))"
    and "i < 32 \<Longrightarrow> felt_range (OFFSET_SMT_PROOF_ROLLUP + i * 8) 8 items =
           packed (be_bytes 32 (pd_smt_proof_rollup (cs_proof_data cs) ! i))"
proof -
  let ?f = "\<lambda>w. packed (be_bytes 32 (w :: b256))"
  define A where "A = concat (map ?f (pd_smt_proof_local (cs_proof_data cs)))"
  define B where "B = concat (map ?f (pd_smt_proof_rollup (cs_proof_data cs)))"
  have l: "length A = 256" "length B = 256"
    using assms(1) length_chunks [of ?f] by (simp_all add: A_def B_def proofs_ok_def)
  note items = items_def claim_storage_layout_def Let_def A_def [symmetric] B_def [symmetric]
  note field = items felt_range_def claim_offsets l nth_append
  show "length items = MIN_FELT_COUNT" by (simp add: field MIN_FELT_COUNT_def)
  show "felt_range OFFSET_GLOBAL_INDEX 8 items = packed (be_bytes 32 (pd_global_index (cs_proof_data cs)))"
    by (simp add: field)
  show "felt_range OFFSET_MAINNET_EXIT_ROOT 8 items = packed (be_bytes 32 (pd_mainnet_exit_root (cs_proof_data cs)))"
    by (simp add: field)
  show "felt_range OFFSET_ROLLUP_EXIT_ROOT 8 items = packed (be_bytes 32 (pd_rollup_exit_root (cs_proof_data cs)))"
    by (simp add: field)
  show "items ! OFFSET_ORIGIN_NETWORK = swapped (lf_origin_network (cs_leaf_data cs))"
    by (simp add: field)
  show "felt_range OFFSET_ORIGIN_ADDRESS 5 items = packed (be_bytes 20 (lf_origin_token_address (cs_leaf_data cs)))"
    by (simp add: field)
  show "items ! OFFSET_DESTINATION_NETWORK = swapped (lf_destination_network (cs_leaf_data cs))"
    by (simp add: field)
  show "felt_range OFFSET_DESTINATION_ADDRESS 5 items = packed (be_bytes 20 (lf_destination_address (cs_leaf_data cs)))"
    by (simp add: field)
  show "felt_range OFFSET_AMOUNT 8 items = packed (be_bytes 32 (lf_amount (cs_leaf_data cs)))"
    by (simp add: field)
  show "felt_range OFFSET_METADATA_HASH 8 items = packed (be_bytes 32 (lf_metadata_hash (cs_leaf_data cs)))"
    by (simp add: field)
  show "felt_range (OFFSET_SMT_PROOF_LOCAL + i * 8) 8 items = packed (be_bytes 32 (pd_smt_proof_local (cs_proof_data cs) ! i))"
    if "i < 32"
    using felt_range_chunk [of "pd_smt_proof_local (cs_proof_data cs)" ?f i "[]" 0] that assms(1)
    by (simp add: items_def claim_storage_layout_def Let_def proofs_ok_def OFFSET_SMT_PROOF_LOCAL_def)
  show "felt_range (OFFSET_SMT_PROOF_ROLLUP + i * 8) 8 items = packed (be_bytes 32 (pd_smt_proof_rollup (cs_proof_data cs) ! i))"
    if "i < 32"
    using felt_range_chunk [of "pd_smt_proof_rollup (cs_proof_data cs)" ?f i A 256] that assms(1) l
    by (simp add: items_def claim_storage_layout_def Let_def proofs_ok_def OFFSET_SMT_PROOF_ROLLUP_def A_def)
qed

lemma high_bytes_zero:
  fixes w :: u256
  shows "list_ex (\<lambda>b. b \<noteq> 0) (take 24 (be_bytes 32 w)) \<longleftrightarrow> 2 ^ 64 \<le> unat w"
proof -
  have "take 24 (be_bytes 32 w) = be_bytes 24 (drop_bit 64 w)"
    using be_bytes_slice [of 0 24 32 w] by simp
  moreover have "list_ex (\<lambda>b. b \<noteq> 0) (be_bytes 24 (drop_bit 64 w)) \<longleftrightarrow> drop_bit 64 w \<noteq> 0"
    by (rule be_bytes_zero_iff) (simp_all add: drop_bit_word_zero)
  moreover have "drop_bit 64 w \<noteq> 0 \<longleftrightarrow> unat (drop_bit 64 w) \<noteq> 0" by (simp add: unat_eq_zero)
  moreover have "unat (drop_bit 64 w) = unat w div 2 ^ 64" by (simp add: unat_drop_bit_eq drop_bit_nat_def)
  moreover have "unat w div 2 ^ 64 \<noteq> 0 \<longleftrightarrow> 2 ^ 64 \<le> unat w" by (simp add: div_eq_0_iff not_less)
  ultimately show ?thesis by metis
qed

lemma low_bytes: "from_be_bytes (drop 24 (be_bytes 32 (w :: u256))) = (ucast w :: u64)"
proof -
  have "drop 24 (be_bytes 32 w) = be_bytes 8 w"
    using be_bytes_slice [of 24 8 32 w] by simp
  also have "\<dots> = be_bytes 8 (ucast w :: u64)" by (rule be_bytes_ucast [symmetric]) simp
  finally show ?thesis by (simp add: from_be_bytes_be_bytes)
qed

lemma claim_layout_decodes:
  assumes "proofs_ok cs"
  shows "parse_full_claim_from_storage (claim_storage_layout cs) =
           Inr \<lparr>df_smt_proof_local = pd_smt_proof_local (cs_proof_data cs),
                df_smt_proof_rollup = pd_smt_proof_rollup (cs_proof_data cs),
                df_global_index = pd_global_index (cs_proof_data cs),
                df_mainnet_exit_root = pd_mainnet_exit_root (cs_proof_data cs),
                df_rollup_exit_root = pd_rollup_exit_root (cs_proof_data cs),
                df_origin_network = lf_origin_network (cs_leaf_data cs),
                df_origin_address = lf_origin_token_address (cs_leaf_data cs),
                df_destination_network = lf_destination_network (cs_leaf_data cs),
                df_destination_address = lf_destination_address (cs_leaf_data cs),
                df_amount = lf_amount (cs_leaf_data cs), df_metadata_hash = lf_metadata_hash (cs_leaf_data cs)\<rparr>"
    and "parse_claim_event_from_storage (claim_storage_layout cs) =
           (if 2 ^ 64 \<le> unat (lf_amount (cs_leaf_data cs)) then Inl ClaimAmountExceedsU64
            else Inr \<lparr>dc_global_index = pd_global_index (cs_proof_data cs),
                      dc_origin_network = lf_origin_network (cs_leaf_data cs),
                      dc_origin_address = lf_origin_token_address (cs_leaf_data cs),
                      dc_destination_address = lf_destination_address (cs_leaf_data cs),
                      dc_amount = ucast (lf_amount (cs_leaf_data cs))\<rparr>)"
proof -
  let ?items = "claim_storage_layout cs" and ?l = "pd_smt_proof_local (cs_proof_data cs)"
    and ?r = "pd_smt_proof_rollup (cs_proof_data cs)"
  note fields = layout_fields [OF assms]
  note decoded = fields(2-4) [THEN unpack_hash_at] fields(6,8) [THEN unpack_address_at] fields(9,10) [THEN unpack_hash_at]
  have "smt_node_pair ?items i = Inr (?l ! i, ?r ! i)" if "i < 32" for i
    using fields(11,12) [OF that, THEN unpack_hash_at] by (simp add: smt_node_pair_def)
  then have "mapS (smt_node_pair ?items) [0..<32] = Inr (map (\<lambda>i. (?l ! i, ?r ! i)) [0..<32])"
    by (intro mapS_Inr) simp
  moreover have "map (\<lambda>i. ?l ! i) [0..<32] = ?l" "map (\<lambda>i. ?r ! i) [0..<32] = ?r"
    using assms map_nth [of ?l] map_nth [of ?r] by (simp_all add: proofs_ok_def)
  ultimately show "parse_full_claim_from_storage ?items = Inr \<lparr>df_smt_proof_local = ?l, df_smt_proof_rollup = ?r,
      df_global_index = pd_global_index (cs_proof_data cs), df_mainnet_exit_root = pd_mainnet_exit_root (cs_proof_data cs),
      df_rollup_exit_root = pd_rollup_exit_root (cs_proof_data cs), df_origin_network = lf_origin_network (cs_leaf_data cs),
      df_origin_address = lf_origin_token_address (cs_leaf_data cs),
      df_destination_network = lf_destination_network (cs_leaf_data cs),
      df_destination_address = lf_destination_address (cs_leaf_data cs),
      df_amount = lf_amount (cs_leaf_data cs), df_metadata_hash = lf_metadata_hash (cs_leaf_data cs)\<rparr>"
    by (simp add: parse_full_claim_from_storage_def fields(1,5,7) decoded decode_swapped comp_def del: upt_Suc)
  show "parse_claim_event_from_storage ?items =
      (if 2 ^ 64 \<le> unat (lf_amount (cs_leaf_data cs)) then Inl ClaimAmountExceedsU64
       else Inr \<lparr>dc_global_index = pd_global_index (cs_proof_data cs), dc_origin_network = lf_origin_network (cs_leaf_data cs),
          dc_origin_address = lf_origin_token_address (cs_leaf_data cs),
          dc_destination_address = lf_destination_address (cs_leaf_data cs), dc_amount = ucast (lf_amount (cs_leaf_data cs))\<rparr>)"
    using unpack_u32_packed [of "be_bytes 32 (lf_amount (cs_leaf_data cs))" 8]
    by (simp add: parse_claim_event_from_storage_def fields(1,5,9) decoded decode_swapped high_bytes_zero low_bytes)
qed

section \<open>Properties\<close>

text \<open>
  C21. A published claim is recovered from its note. The CLAIM note of any \<^verbatim>\<open>claimAsset\<close> call, written
  in its documented layout, decodes to a full claim; with the call's own metadata that claim is the
  call again, up to the canonical form of mainnet proofs that was proven on chain, and exactly the
  call for every index without the mainnet flag. The decoder of the event gives the same index,
  origin and destination, and refuses exactly the amounts that do not fit 64 bits.
\<close>

theorem published_claim_is_recovered:
  assumes "length (cc_smt_proof_local params) = 32" and "length (cc_smt_proof_rollup params) = 32"
  shows "let items = claim_storage_layout \<lparr>cs_proof_data = build_canonical_proof_data params,
                       cs_leaf_data = leaf_of_call A params, cs_miden_claim_amount = m\<rparr>;
             canonical = build_canonical_proof_data params
         in (\<exists>full. parse_full_claim_from_storage items = Inr full \<and>
               df_metadata_hash full = aa_metadata_hash A (cc_metadata params) \<and>
               build_claim_asset_call full (cc_metadata params) =
                 params\<lparr>cc_smt_proof_rollup := pd_smt_proof_rollup canonical, cc_global_index := pd_global_index canonical\<rparr> \<and>
               (\<not> is_mainnet_global_index (be_bytes 32 (cc_global_index params)) \<longrightarrow>
                  build_claim_asset_call full (cc_metadata params) = params)) \<and>
            parse_claim_event_from_storage items =
              (if 2 ^ 64 \<le> unat (cc_amount params) then Inl ClaimAmountExceedsU64
               else Inr \<lparr>dc_global_index = pd_global_index canonical, dc_origin_network = cc_origin_network params,
                         dc_origin_address = cc_origin_token_address params,
                         dc_destination_address = cc_destination_address params, dc_amount = ucast (cc_amount params)\<rparr>)"
proof -
  let ?p = "build_canonical_proof_data params"
  let ?cs = "\<lparr>cs_proof_data = ?p, cs_leaf_data = leaf_of_call A params, cs_miden_claim_amount = m\<rparr>"
  have "proofs_ok ?cs" using assms by (simp add: proofs_ok_def build_canonical_proof_data_def Let_def)
  note decoded = claim_layout_decodes [OF this]
  have p: "pd_smt_proof_local ?p = cc_smt_proof_local params" "pd_mainnet_exit_root ?p = cc_mainnet_exit_root params"
      "pd_rollup_exit_root ?p = cc_rollup_exit_root params"
      "\<not> is_mainnet_global_index (be_bytes 32 (cc_global_index params)) \<Longrightarrow>
         pd_smt_proof_rollup ?p = cc_smt_proof_rollup params \<and> pd_global_index ?p = cc_global_index params"
    by (simp_all add: build_canonical_proof_data_def Let_def from_be_bytes_be_bytes)
  then show ?thesis
    unfolding Let_def decoded by (auto simp: build_claim_asset_call_def leaf_of_call_def)
qed

theorem published_claim_is_recovered_witness:
  "\<exists>full. parse_full_claim_from_storage (claim_storage_layout
       \<lparr>cs_proof_data = build_canonical_proof_data
          \<lparr>cc_smt_proof_local = replicate 32 1, cc_smt_proof_rollup = replicate 32 2, cc_global_index = 77,
           cc_mainnet_exit_root = 1, cc_rollup_exit_root = 2, cc_origin_network = 0, cc_origin_token_address = 5,
           cc_destination_network = 1, cc_destination_address = 3, cc_amount = 10, cc_metadata = []\<rparr>,
        cs_leaf_data = leaf_of_call demo_api
          \<lparr>cc_smt_proof_local = replicate 32 1, cc_smt_proof_rollup = replicate 32 2, cc_global_index = 77,
           cc_mainnet_exit_root = 1, cc_rollup_exit_root = 2, cc_origin_network = 0, cc_origin_token_address = 5,
           cc_destination_network = 1, cc_destination_address = 3, cc_amount = 10, cc_metadata = []\<rparr>,
        cs_miden_claim_amount = 4\<rparr>) = Inr full"
  using published_claim_is_recovered [of "\<lparr>cc_smt_proof_local = replicate 32 1, cc_smt_proof_rollup = replicate 32 2,
      cc_global_index = 77, cc_mainnet_exit_root = 1, cc_rollup_exit_root = 2, cc_origin_network = 0, cc_origin_token_address = 5,
      cc_destination_network = 1, cc_destination_address = 3, cc_amount = 10, cc_metadata = []\<rparr>" demo_api 4]
  unfolding Let_def by auto

end
