(* ===== verification/Store_Deposits.thy ===== *)
theory Store_Deposits
  imports Store_Ger
begin

text \<open>
  Bridge-out deposits (\<^verbatim>\<open>src/src/store/memory.rs\<close>): every bridge-consumed B2AGG note reserves the next
  index of the local exit tree, whether or not its event can be emitted; the atomic commit reuses
  the reservation and emits the event once. The lemmas give the invariant of the index space.
\<close>

section \<open>Operations\<close>

definition is_note_processed :: "string \<Rightarrow> mem_store \<Rightarrow> bool" where
  "is_note_processed note_id s =
     (case hm_get (processed_notes s) note_id of None \<Rightarrow> False | Some (_, emitted) \<Rightarrow> emitted)"

text \<open>\<^verbatim>\<open>Iterator::min_by_key\<close>: the first of the minimal elements.\<close>

fun min_by_key :: "('a \<Rightarrow> 'b::linorder) \<Rightarrow> 'a list \<Rightarrow> 'a option" where
  "min_by_key f [] = None"
| "min_by_key f (x # xs) = Some (fold (\<lambda>y best. if f y < f best then y else best) xs x)"

definition first_unemitted_reservation :: "mem_store \<Rightarrow> (u32 \<times> string) option" where
  "first_unemitted_reservation s =
     map_option (\<lambda>(note, idx, _). (idx, note))
       (min_by_key (\<lambda>(_, idx, _). idx) (filter (\<lambda>(_, _, emitted). \<not> emitted) (processed_notes s)))"

definition get_accounted_deposit_count :: "mem_store \<Rightarrow> u64 fallible" where
  "get_accounted_deposit_count s =
     (case checked_add (let_gate_baseline s) (ucast (deposit_counter s)) of
        None \<Rightarrow> Inl LetAccountingOverflow
      | Some n \<Rightarrow> Inr n)"

definition reserve_deposit_index :: "string \<Rightarrow> mem_store \<Rightarrow> u32 fallible \<times> mem_store" where
  "reserve_deposit_index note_key s =
     (case hm_get (processed_notes s) note_key of
        Some (existing, _) \<Rightarrow> (Inr existing, s)
      | None \<Rightarrow>
          (case u32_try_from (let_gate_baseline s) of
             None \<Rightarrow> (Inl BaselineTooLarge, s)
           | Some baseline \<Rightarrow>
               (let raw = deposit_counter s
                in case checked_add raw 1 of
                     None \<Rightarrow> (Inl DepositCounterOverflow, s)
                   | Some nxt \<Rightarrow>
                       (case checked_add baseline raw of
                          None \<Rightarrow> (Inl DepositIndexOverflow, s)
                        | Some absolute \<Rightarrow>
                            (Inr absolute,
                             s\<lparr>deposit_counter := nxt,
                               processed_notes := hm_insert note_key (absolute, False) (processed_notes s)\<rparr>)))))"

definition migrate_legacy_deposit_key ::
    "externals \<Rightarrow> string \<Rightarrow> string \<Rightarrow> u64 \<Rightarrow> string \<Rightarrow> mem_store \<Rightarrow> mem_store" where
  "migrate_legacy_deposit_key E legacy_key note_key block_number txh s =
     (case hm_get (processed_notes s) legacy_key of
        None \<Rightarrow> s
      | Some rsv \<Rightarrow>
          if hm_contains (processed_notes s) note_key then s
          else
            let matching_log =
                  (case hm_get (logs_by_block s) block_number of
                     None \<Rightarrow> False
                   | Some logs \<Rightarrow>
                       list_ex (\<lambda>l. eq_ignore_ascii_case (log_transaction_hash l) txh \<and>
                                    first_topic l = Some BRIDGE_EVENT_TOPIC \<and>
                                    bridge_event_deposit_count E (log_data l) = Some (fst rsv)) logs)
            in if matching_log
               then s\<lparr>processed_notes :=
                      hm_insert note_key rsv (hm_remove legacy_key (processed_notes s))\<rparr>
               else s)"

definition get_deposit_indices :: "string list \<Rightarrow> mem_store \<Rightarrow> (string \<times> u32) list" where
  "get_deposit_indices note_keys s =
     List.map_filter (\<lambda>key. map_option (\<lambda>(index, _). (key, index)) (hm_get (processed_notes s) key)) note_keys"

definition put_b2agg_note_ids :: "(b256 \<times> b256) list \<Rightarrow> mem_store \<Rightarrow> mem_store" where
  "put_b2agg_note_ids entries s =
     s\<lparr>b2agg_note_ids := fold (\<lambda>(nullifier, note_id) m. hm_or_insert nullifier note_id m) entries
        (b2agg_note_ids s)\<rparr>"

definition get_b2agg_note_ids :: "b256 list \<Rightarrow> mem_store \<Rightarrow> (b256 \<times> b256) list" where
  "get_b2agg_note_ids nullifiers s =
     List.map_filter (\<lambda>n. map_option (\<lambda>i. (n, i)) (hm_get (b2agg_note_ids s) n)) nullifiers"

definition commit_b2agg_event_atomic ::
    "externals \<Rightarrow> string \<Rightarrow> string \<Rightarrow> u64 \<Rightarrow> b256 \<Rightarrow> string \<Rightarrow> u8 \<Rightarrow> u32 \<Rightarrow> b160 \<Rightarrow> u32 \<Rightarrow> b160 \<Rightarrow> u128 \<Rightarrow>
       byte list \<Rightarrow> mem_store \<Rightarrow> u32 fallible \<times> mem_store" where
  "commit_b2agg_event_atomic E note_id bridge_addr block_number block_hash txh leaf_type
       origin_network origin_address destination_network destination_address amount metadata s =
     (case hm_get (processed_notes s) note_id of
        None \<Rightarrow> (Inl (MissingReservation note_id), s)
      | Some (deposit_count, emitted) \<Rightarrow>
          (Inr deposit_count,
           if emitted then s
           else
             let s1 = add_bridge_event E bridge_addr block_number block_hash txh leaf_type
                        origin_network origin_address destination_network destination_address
                        amount metadata deposit_count s
             in s1\<lparr>processed_notes := hm_insert note_id (deposit_count, True) (processed_notes s1)\<rparr>))"

section \<open>The index space\<close>

text \<open>
  The reserved indices are exactly the \<open>deposit_counter\<close> values from the baseline on, each held by
  one note.
\<close>

definition deposits_ok :: "(string, u32 \<times> bool) hashmap \<Rightarrow> u64 \<Rightarrow> u32 \<Rightarrow> bool" where
  "deposits_ok m baseline counter =
     (hm_wf m \<and> distinct (map (\<lambda>(_, idx, _). idx) m) \<and>
      (\<lambda>(_, idx, _). unat idx) ` set m = {unat baseline..<unat baseline + unat counter})"

definition deposits_inv :: "mem_store \<Rightarrow> bool" where
  "deposits_inv s = deposits_ok (processed_notes s) (let_gate_baseline s) (deposit_counter s)"

lemma hm_insert_absent: "hm_get m k = None \<Longrightarrow> hm_insert k v m = m @ [(k, v)]"
  by (induction m) (auto simp: hm_get_def hm_insert_def split: if_splits)

lemma reserve_cases:
  obtains (existing) i e where "hm_get (processed_notes s) k = Some (i, e)"
      and "reserve_deposit_index k s = (Inr i, s)"
  | (failed) e where "hm_get (processed_notes s) k = None" and "reserve_deposit_index k s = (Inl e, s)"
  | (fresh) i where "hm_get (processed_notes s) k = None"
      and "unat i = unat (let_gate_baseline s) + unat (deposit_counter s)"
      and "deposit_counter s \<noteq> - 1"
      and "reserve_deposit_index k s =
             (Inr i, s\<lparr>deposit_counter := deposit_counter s + 1,
                       processed_notes := hm_insert k (i, False) (processed_notes s)\<rparr>)"
proof (cases "hm_get (processed_notes s) k")
  case (Some p)
  then show thesis by (cases p) (auto intro!: existing simp: reserve_deposit_index_def)
next
  case None
  show thesis
  proof (cases "\<exists>e. reserve_deposit_index k s = (Inl e, s)")
    case True
    with None show thesis by (auto intro: failed)
  next
    case False
    then obtain b n i where "u32_try_from (let_gate_baseline s) = Some b"
        "checked_add (deposit_counter s) 1 = Some n" and i: "checked_add b (deposit_counter s) = Some i"
      using None by (auto simp: reserve_deposit_index_def Let_def split: option.splits)
    then have b: "unat (let_gate_baseline s) < 2 ^ 32" "b = ucast (let_gate_baseline s)"
      and n: "unat (deposit_counter s) + 1 < 2 ^ 32" "n = deposit_counter s + 1"
      by (auto simp: u32_try_from_Some_iff checked_add_Some)
    have ub: "unat b = unat (let_gate_baseline s)"
      using b by (simp add: unsigned_ucast_eq take_bit_nat_eq_self)
    have "unat i = unat (let_gate_baseline s) + unat (deposit_counter s)"
      using i ub by (auto simp: checked_add_Some unat_add_no_overflow)
    moreover have "deposit_counter s \<noteq> - 1"
      using n(1) by (auto simp: unsigned_minus_1_eq_mask mask_eq_exp_minus_1)
    ultimately show thesis
      using None \<open>u32_try_from (let_gate_baseline s) = Some b\<close> i n
      by (intro fresh [of i]) (simp_all add: reserve_deposit_index_def Let_def checked_add_def)
  qed
qed

lemma deposits_inv_reserve: "deposits_inv s \<Longrightarrow> deposits_inv (snd (reserve_deposit_index k s))"
proof (cases rule: reserve_cases [of s k])
  case (fresh i)
  let ?b = "unat (let_gate_baseline s)" and ?c = "unat (deposit_counter s)"
  assume inv: "deposits_inv s"
  have img: "(\<lambda>(_, idx, _). unat idx) ` set (processed_notes s) = {?b..<?b + ?c}"
    using inv by (simp add: deposits_inv_def deposits_ok_def)
  have "i \<notin> (\<lambda>(_, idx, _). idx) ` set (processed_notes s)"
  proof
    assume "i \<in> (\<lambda>(_, idx, _). idx) ` set (processed_notes s)"
    then have "unat i \<in> (\<lambda>(_, idx, _). unat idx) ` set (processed_notes s)" by force
    with img fresh(2) show False by simp
  qed
  moreover have "unat (deposit_counter s + 1) = Suc ?c" using fresh(3) by (rule unat_plus_one)
  ultimately show ?thesis
    using inv img fresh(1,2) unfolding fresh(4) deposits_inv_def deposits_ok_def
    by (auto simp: hm_insert_absent hm_wf_insert [unfolded hm_insert_absent])
      (simp_all add: hm_insert_absent [symmetric])
qed simp_all

definition indices :: "(string, u32 \<times> bool) hashmap \<Rightarrow> u32 list" where
  "indices m = map (\<lambda>(_, idx, _). idx) m"

lemma deposits_ok_cong:
  assumes "deposits_ok m b c" and "hm_wf m'" and "mset (indices m') = mset (indices m)"
  shows "deposits_ok m' b c"
proof -
  have img: "(\<lambda>(_, idx, _). unat idx) ` set m = unat ` set (indices m)" for m :: "(string, u32 \<times> bool) hashmap"
    by (force simp: indices_def)
  have "distinct (indices m')"
    using assms(1,3) mset_eq_imp_distinct_iff by (fastforce simp: deposits_ok_def indices_def)
  with assms mset_eq_setD [OF assms(3)] show ?thesis
    by (simp add: deposits_ok_def img indices_def)
qed

lemma indices_update: "hm_get m k = Some (i, e) \<Longrightarrow> indices (hm_insert k (i, e') m) = indices m"
  by (induction m) (auto simp: hm_get_def hm_insert_def indices_def split: if_splits)

lemma indices_remove:
  "hm_wf m \<Longrightarrow> hm_get m k = Some (i, e) \<Longrightarrow> mset (indices m) = add_mset i (mset (indices (hm_remove k m)))"
proof (induction m)
  case Nil
  then show ?case by simp
next
  case (Cons x m)
  obtain k' i' e' where x: "x = (k', i', e')" by (cases x)
  have wf: "hm_wf m" "hm_get m k' = None" using Cons.prems(1) x by (simp_all add: hm_wf_Cons)
  show ?case
  proof (cases "k' = k")
    case True
    have "hm_remove k m = m"
      using wf(2) True by (simp add: hm_get_def hm_remove_def delete_id map_of_eq_None_iff)
    with True x Cons.prems(2) show ?thesis by (simp add: hm_get_Cons indices_def hm_remove_def)
  next
    case False
    then have "hm_get m k = Some (i, e)" using x Cons.prems(2) by (simp add: hm_get_Cons)
    with Cons.IH [OF wf(1)] False x show ?thesis by (simp add: indices_def hm_remove_def)
  qed
qed

lemma indices_append: "hm_get m k = None \<Longrightarrow> indices (hm_insert k (i, e) m) = indices m @ [i]"
  by (simp add: indices_def hm_insert_absent)

lemma deposits_inv_migrate: "deposits_inv s \<Longrightarrow> deposits_inv (migrate_legacy_deposit_key E lk nk b txh s)"
proof (cases "migrate_legacy_deposit_key E lk nk b txh s = s")
  case False
  assume inv: "deposits_inv s"
  obtain i e where r: "hm_get (processed_notes s) lk = Some (i, e)" and nk: "hm_get (processed_notes s) nk = None"
    and eq: "migrate_legacy_deposit_key E lk nk b txh s =
      s\<lparr>processed_notes := hm_insert nk (i, e) (hm_remove lk (processed_notes s))\<rparr>"
    using False by (fastforce simp: migrate_legacy_deposit_key_def Let_def split: option.splits if_splits)
  have wf: "hm_wf (processed_notes s)" using inv by (simp add: deposits_inv_def deposits_ok_def)
  have "mset (indices (hm_insert nk (i, e) (hm_remove lk (processed_notes s)))) =
      mset (indices (processed_notes s))"
    using nk by (simp add: indices_append indices_remove [OF wf r])
  with inv wf show ?thesis
    unfolding eq deposits_inv_def by (auto intro: deposits_ok_cong)
qed simp

lemma commit_b2agg_cases:
  obtains (missing) "hm_get (processed_notes s) n = None"
      and "commit_b2agg_event_atomic E n ba bn bh txh lt on oa dn da am md s = (Inl (MissingReservation n), s)"
  | (again) i where "hm_get (processed_notes s) n = Some (i, True)"
      and "commit_b2agg_event_atomic E n ba bn bh txh lt on oa dn da am md s = (Inr i, s)"
  | (emit) i s1 where "hm_get (processed_notes s) n = Some (i, False)"
      and "s1 = add_bridge_event E ba bn bh txh lt on oa dn da am md i s"
      and "commit_b2agg_event_atomic E n ba bn bh txh lt on oa dn da am md s =
             (Inr i, s1\<lparr>processed_notes := hm_insert n (i, True) (processed_notes s)\<rparr>)"
proof (cases "hm_get (processed_notes s) n")
  case None
  then show thesis by (intro missing) (simp_all add: commit_b2agg_event_atomic_def)
next
  case (Some p)
  obtain i e where p: "p = (i, e)" by (cases p)
  show thesis
  proof (cases e)
    case True
    with Some p show thesis by (intro again [of i]) (simp_all add: commit_b2agg_event_atomic_def)
  next
    case False
    with Some p show thesis
      by (intro emit [of i]) (simp_all add: commit_b2agg_event_atomic_def Let_def add_bridge_event_def)
  qed
qed

lemma deposits_inv_commit:
  assumes "deposits_inv s"
  shows "deposits_inv (snd (commit_b2agg_event_atomic E n ba bn bh txh lt on oa dn da am md s))"
proof (cases rule: commit_b2agg_cases [of s n E ba bn bh txh lt on oa dn da am md])
  case (emit i s1)
  have "deposits_ok (hm_insert n (i, True) (processed_notes s)) (let_gate_baseline s) (deposit_counter s)"
    using assms unfolding deposits_inv_def
    by (rule deposits_ok_cong) (use assms in \<open>simp_all add: indices_update [OF emit(1)] deposits_inv_def deposits_ok_def\<close>)
  then show ?thesis unfolding emit(3) emit(2) deposits_inv_def by (simp add: add_bridge_event_def)
qed (use assms in simp_all)

lemma fold_min_best:
  fixes f :: "'a \<Rightarrow> 'b::linorder"
  shows "fold (\<lambda>y best. if f y < f best then y else best) xs x \<in> set (x # xs) \<and>
         (\<forall>y \<in> set (x # xs). f (fold (\<lambda>y best. if f y < f best then y else best) xs x) \<le> f y)"
proof (induction xs arbitrary: x)
  case Nil
  then show ?case by simp
next
  case (Cons y xs)
  show ?case using Cons.IH [of "if f y < f x then y else x"] by (auto split: if_splits)
qed

lemma min_by_key_Some:
  "min_by_key f xs = Some x \<Longrightarrow> x \<in> set xs \<and> (\<forall>y \<in> set xs. f x \<le> f y)"
proof (cases xs)
  case (Cons a as)
  assume "min_by_key f xs = Some x"
  with Cons fold_min_best [of f as a] show ?thesis by simp
qed simp

lemma min_by_key_None: "min_by_key f xs = None \<longleftrightarrow> xs = []"
  by (cases xs) simp_all

interpretation note_ids: first_write_wins fst snd "\<lambda>e s. put_b2agg_note_ids [e] s"
    "\<lambda>n s. hm_get (b2agg_note_ids s) n"
  by unfold_locales (auto simp: put_b2agg_note_ids_def split: prod.splits option.splits)

section \<open>Runs\<close>

datatype deposit_op =
    DReserve string
  | DCommit string string u64 b256 string u8 u32 b160 u32 b160 u128 "byte list"
  | DMigrate string string u64 string

definition deposit_exec :: "externals \<Rightarrow> deposit_op \<Rightarrow> mem_store \<Rightarrow> mem_store" where
  "deposit_exec E op s =
     (case op of
        DReserve k \<Rightarrow> snd (reserve_deposit_index k s)
      | DCommit n ba bn bh txh lt on oa dn da am md \<Rightarrow>
          snd (commit_b2agg_event_atomic E n ba bn bh txh lt on oa dn da am md s)
      | DMigrate lk nk b txh \<Rightarrow> migrate_legacy_deposit_key E lk nk b txh s)"

interpretation deposits: invariant_run "deposit_exec E" deposits_inv for E
  by unfold_locales
    (simp add: deposit_exec_def deposits_inv_reserve deposits_inv_commit deposits_inv_migrate
      split: deposit_op.split)

lemma deposits_inv_unique:
  assumes "deposits_inv s"
  shows "(\<exists>!n. \<exists>idx e. hm_get (processed_notes s) n = Some (idx, e) \<and> unat idx = i) \<longleftrightarrow>
         unat (let_gate_baseline s) \<le> i \<and> i < unat (let_gate_baseline s) + unat (deposit_counter s)"
proof -
  have wf: "hm_wf (processed_notes s)" and d: "distinct (map (\<lambda>(_, idx, _). idx) (processed_notes s))"
    and img: "(\<lambda>(_, idx, _). unat idx) ` set (processed_notes s) =
      {unat (let_gate_baseline s)..<unat (let_gate_baseline s) + unat (deposit_counter s)}"
    using assms by (auto simp: deposits_inv_def deposits_ok_def)
  have ex: "(\<exists>n idx e. hm_get (processed_notes s) n = Some (idx, e) \<and> unat idx = i) \<longleftrightarrow>
      i \<in> (\<lambda>(_, idx, _). unat idx) ` set (processed_notes s)"
    using hm_set_iff [OF wf] by force
  have uniq: "n = n'" if "hm_get (processed_notes s) n = Some (idx, e)" "unat idx = i"
    "hm_get (processed_notes s) n' = Some (idx', e')" "unat idx' = i" for n n' idx idx' e e'
  proof -
    have "idx = idx'" using that(2,4) by (metis unsigned_word_eqI)
    moreover have "inj_on (\<lambda>(_, idx, _). idx) (set (processed_notes s))" using d by (simp add: distinct_map)
    note inj_onD [OF this _ hm_get_in [OF that(1)] hm_get_in [OF that(3)]]
    ultimately show ?thesis by simp
  qed
  show ?thesis using ex uniq unfolding img atLeastLessThan_iff by blast
qed

lemma deposit_exec_baseline: "let_gate_baseline (deposit_exec E op s) = let_gate_baseline s"
proof (cases op)
  case (DReserve k)
  then show ?thesis by (cases rule: reserve_cases [of s k]) (simp_all add: deposit_exec_def)
next
  case (DCommit n ba bn bh txh lt on oa dn da am md)
  then show ?thesis
    by (cases rule: commit_b2agg_cases [of s n E ba bn bh txh lt on oa dn da am md])
      (simp_all add: deposit_exec_def add_bridge_event_def)
next
  case (DMigrate lk nk b txh)
  then show ?thesis
    by (simp add: deposit_exec_def migrate_legacy_deposit_key_def Let_def split: option.split)
qed

section \<open>Properties\<close>

text \<open>
  C16. The local exit tree indices are handed out without gaps and without reuse. After any run
  of reservations, event commits and key migrations from a consistent store, each index from the
  audited baseline up to the accounted count belongs to exactly one note, and no note holds an
  index outside that range.
\<close>

theorem deposit_indices_gap_free:
  assumes "deposits_inv s" and "s' = fold (deposit_exec E) ops s"
  shows "(\<exists>!n. \<exists>idx e. hm_get (processed_notes s') n = Some (idx, e) \<and> unat idx = i) \<longleftrightarrow>
         unat (let_gate_baseline s) \<le> i \<and> i < unat (let_gate_baseline s) + unat (deposit_counter s')"
proof -
  have "let_gate_baseline s' = let_gate_baseline s"
    unfolding assms(2) by (simp add: fold_frame deposit_exec_baseline)
  moreover have "deposits_inv s'"
    unfolding assms(2) using assms(1) by (rule deposits.run_inv)
  ultimately show ?thesis using deposits_inv_unique [of s' i] by simp
qed

theorem deposit_indices_gap_free_witness:
  "\<exists>!n. \<exists>idx e. hm_get (processed_notes (fold (deposit_exec demo_ext) [DReserve ''a'', DReserve ''b'', DReserve ''a'']
       new_store)) n = Some (idx, e) \<and> unat idx = 1"
proof -
  let ?s = "fold (deposit_exec demo_ext) [DReserve ''a'', DReserve ''b'', DReserve ''a''] new_store"
  have inv: "deposits_inv new_store" by (simp add: deposits_inv_def deposits_ok_def)
  have "unat (deposit_counter ?s) = 2"
    by (simp add: deposit_exec_def reserve_deposit_index_def u32_try_from_def checked_add_def Let_def)
  then show ?thesis
    using deposit_indices_gap_free [OF inv refl, where E = demo_ext and i = 1 and
        ops = "[DReserve ''a'', DReserve ''b'', DReserve ''a'']"] by simp
qed

text \<open>
  C28. A bridge-out event is emitted once, with the note's own index. Committing a note without a
  reservation is an error and changes nothing; committing a reserved note emits one event whose
  deposit count, read back from the event data, is the reserved index and marks the note processed;
  committing it again, with whatever parameters, returns the same index and changes nothing.
\<close>

theorem bridge_event_emitted_once:
  assumes "hex_ok E"
    and "commit_b2agg_event_atomic E n ba bn bh txh lt on oa dn da am md s = (res, s')"
  shows "case hm_get (processed_notes s) n of
           None \<Rightarrow> res = Inl (MissingReservation n) \<and> s' = s
         | Some (i, True) \<Rightarrow> res = Inr i \<and> s' = s
         | Some (i, False) \<Rightarrow>
             res = Inr i \<and> is_note_processed n s' \<and>
             (\<exists>l. mset (all_logs s') = add_mset l (mset (all_logs s)) \<and> log_block_number l = bn \<and>
                bridge_event_deposit_count E (log_data l) = Some i) \<and>
             (\<forall>ba' bn' bh' txh' lt' on' oa' dn' da' am' md'.
                commit_b2agg_event_atomic E n ba' bn' bh' txh' lt' on' oa' dn' da' am' md' s' = (Inr i, s'))"
proof (cases rule: commit_b2agg_cases [of s n E ba bn bh txh lt on oa dn da am md])
  case missing
  with assms(2) show ?thesis by simp
next
  case (again i)
  with assms(2) show ?thesis by simp
next
  case (emit i s1)
  let ?l = "\<lparr>log_address = ba, log_topics = [BRIDGE_EVENT_TOPIC],
      log_data = encode_bridge_event_data E lt on oa dn da am md i, log_block_number = bn,
      log_block_hash = bh, log_transaction_hash = txh, log_transaction_index = 0, log_log_index = 0,
      log_removed = False\<rparr>"
  have s': "res = Inr i" "s' = s1\<lparr>processed_notes := hm_insert n (i, True) (processed_notes s)\<rparr>"
    using assms(2) emit(3) by simp_all
  have "mset (all_logs s') = add_mset (?l\<lparr>log_log_index := log_counter s\<rparr>) (mset (all_logs s))"
    using mset_all_logs_insert [of ?l s]
    by (simp add: s'(2) emit(2) add_bridge_event_def all_logs_def [of "_\<lparr>processed_notes := _\<rparr>"])
      (simp add: all_logs_def)
  moreover have "bridge_event_deposit_count E (log_data (?l\<lparr>log_log_index := log_counter s\<rparr>)) = Some i"
    using deposit_count_of_encoded [OF assms(1)] by simp
  ultimately have "\<exists>l. mset (all_logs s') = add_mset l (mset (all_logs s)) \<and> log_block_number l = bn \<and>
      bridge_event_deposit_count E (log_data l) = Some i"
    by (intro exI [of _ "?l\<lparr>log_log_index := log_counter s\<rparr>"]) simp
  then show ?thesis
    using emit(1) s' by (simp add: is_note_processed_def commit_b2agg_event_atomic_def)
qed

theorem bridge_event_emitted_once_witness:
  "fst (commit_b2agg_event_atomic demo_ext ''a'' ''0x'' 1 0 ''t'' 0 0 0 1 2 3 []
     (snd (reserve_deposit_index ''a'' new_store))) = Inr 0"
proof -
  have r: "hm_get (processed_notes (snd (reserve_deposit_index ''a'' new_store))) ''a'' = Some (0, False)"
    by (simp add: reserve_deposit_index_def u32_try_from_def checked_add_def Let_def)
  show ?thesis
    using bridge_event_emitted_once [OF demo_hex surjective_pairing, where n = "''a''" and
        s = "snd (reserve_deposit_index ''a'' new_store)"] by (simp add: r)
qed

text \<open>
  The deposit gate looks at the right note: the first unemitted reservation is an unemitted one
  with the smallest index, and none is reported exactly when every reserved note was emitted.
\<close>

theorem first_unemitted_is_least:
  assumes "hm_wf (processed_notes s)"
  shows "case first_unemitted_reservation s of
           None \<Rightarrow> \<forall>n i e. hm_get (processed_notes s) n = Some (i, e) \<longrightarrow> e
         | Some (i, n) \<Rightarrow>
             hm_get (processed_notes s) n = Some (i, False) \<and>
             (\<forall>n' i'. hm_get (processed_notes s) n' = Some (i', False) \<longrightarrow> i \<le> i')"
proof (cases "min_by_key (\<lambda>(_, idx, _). idx) (filter (\<lambda>(_, _, emitted). \<not> emitted) (processed_notes s))")
  case None
  then show ?thesis
    by (force simp: first_unemitted_reservation_def min_by_key_None filter_empty_conv dest: hm_get_in)
next
  case (Some x)
  obtain n i e where x: "x = (n, i, e)" by (cases x)
  show ?thesis
    using min_by_key_Some [OF Some] hm_set_iff [OF assms]
    by (force simp: first_unemitted_reservation_def Some x)
qed

theorem first_unemitted_is_least_witness:
  "first_unemitted_reservation (snd (reserve_deposit_index ''a'' new_store)) \<noteq> None"
proof -
  let ?s = "snd (reserve_deposit_index ''a'' new_store)"
  have r: "hm_get (processed_notes ?s) ''a'' = Some (0, False)" and wf: "hm_wf (processed_notes ?s)"
    by (simp_all add: reserve_deposit_index_def u32_try_from_def checked_add_def Let_def)
  show ?thesis using first_unemitted_is_least [OF wf] r by (force split: option.splits)
qed

end
