(* ===== verification/Projection.thy ===== *)
theory Projection
  imports Note_Decode Claim_Worker Store_Deposits Store_Ger Store_Claims
begin

text \<open>
  Projecting one consumed note into the synthetic chain: \<^verbatim>\<open>project_b2agg_note\<close>,
  \<^verbatim>\<open>project_claim_note\<close> and \<^verbatim>\<open>project_ger_note\<close> of \<^verbatim>\<open>src/src/restore.rs\<close>, with the quarantine of
  \<^verbatim>\<open>src/src/bridge_out.rs\<close> and the calldata of synthesised claims. The live projector and the restore
  use the same three functions.
\<close>

section \<open>Notes\<close>

text \<open>
  What the projection reads of a consumed note record. Of the metadata that is the sender; the
  target is what the attachment decodes to.
\<close>

record input_note =
  in_script_root :: b256
  in_storage :: "u64 list"
  in_assets :: "(account_id \<times> u64) list"
  in_commitment :: b256
  in_metadata :: "account_id option"
  in_target :: "account_id option"
  in_consumer :: "account_id option"
  in_consumed_block :: "u64 option"
  in_tx_order :: "u32 option"
  in_id :: "b256 option"
  in_nullifier :: "b256 option"

text \<open>
  The note library: script roots, the size of a GER note's storage, texts of identifiers and
  errors, the ABI encoding of \<^verbatim>\<open>claimAsset\<close>, and the configured bridge address as an address.
\<close>

record note_api =
  na_b2agg_root :: b256
  na_claim_root :: b256
  na_ger_root :: b256
  na_ger_items :: nat
  na_id_text :: "b256 \<Rightarrow> string"
  na_account_text :: "account_id \<Rightarrow> string"
  na_b2agg_text :: "b2agg_error \<Rightarrow> string"
  na_faucet_text :: "account_id \<Rightarrow> string"
  na_scale_text :: "scale_error \<Rightarrow> string"
  na_abi_claim :: "claim_asset_call \<Rightarrow> byte list"
  na_bridge_address :: "address option"

text \<open>What the client and the origin network answer when metadata must be recovered.\<close>

record recovery =
  rc_bridge_account :: "bridge_storage option"
  rc_faucet_account :: "account_id \<Rightarrow> faucet_account option"
  rc_origin_rpc :: "u32 \<Rightarrow> b160 \<Rightarrow> (string + metadata_candidate) option"

definition is_b2agg_note :: "note_api \<Rightarrow> input_note \<Rightarrow> bool" where
  "is_b2agg_note N note = (in_script_root note = na_b2agg_root N)"

definition commitment_hex :: "externals \<Rightarrow> input_note \<Rightarrow> string" where
  "commitment_hex E note = ext_hex_encode E (be_bytes 32 (in_commitment note))"

definition note_consumed_block :: "input_note \<Rightarrow> u64 \<Rightarrow> u64" where
  "note_consumed_block note fallback = (case in_consumed_block note of None \<Rightarrow> fallback | Some h \<Rightarrow> h)"

datatype projection_error =
    PjStore store_error
  | UnrecoverableMetadata string
  | UnrecoverableCalldata string
  | BadClaimStorage claim_decode_error
  | BadTxHash string
  | BadBridgeAddress

definition askS :: "(mem_store \<Rightarrow> 'a) \<Rightarrow> (mem_store, 'e, 'a) handler" where
  "askS f s = (Inr (f s), s)"

definition runS :: "(mem_store \<Rightarrow> 'a \<times> mem_store) \<Rightarrow> (mem_store, 'e, 'a) handler" where
  "runS f s = (let (x, s') = f s in (Inr x, s'))"

definition tryS :: "(mem_store \<Rightarrow> 'a fallible \<times> mem_store) \<Rightarrow> (mem_store, projection_error, 'a) handler" where
  "tryS f s = (case f s of (Inl e, s') \<Rightarrow> (Inl (PjStore e), s') | (Inr x, s') \<Rightarrow> (Inr x, s'))"

definition doS :: "(mem_store \<Rightarrow> mem_store) \<Rightarrow> (mem_store, 'e, unit) handler" where
  "doS f s = (Inr (), f s)"

section \<open>Quarantine\<close>

definition QUARANTINE_MAX_DETAIL :: nat where "QUARANTINE_MAX_DETAIL = 4096"

definition comma_separated :: "string list \<Rightarrow> string" where
  "comma_separated ss = (case ss of [] \<Rightarrow> [] | x # xs \<Rightarrow> foldl (\<lambda>acc t. acc @ '','' @ t) x xs)"

definition dump_note_for_quarantine :: "externals \<Rightarrow> note_api \<Rightarrow> input_note \<Rightarrow> string" where
  "dump_note_for_quarantine E N note =
     ''{\"script_root\":\"0x'' @ ext_hex_encode E (be_bytes 32 (in_script_root note)) @ ''\",'' @
     ''\"storage_items\":['' @ comma_separated (map (\<lambda>f. decimal_text (unat f)) (in_storage note)) @ ''],'' @
     ''\"fungible_assets\":['' @
       comma_separated (map (\<lambda>(faucet, amount). ''{faucet='' @ na_account_text N faucet @ '', amount='' @
         decimal_text (unat amount) @ ''}'') (in_assets note)) @ '']}''"

definition quarantine_unbridgeable_b2agg ::
    "externals \<Rightarrow> note_api \<Rightarrow> account_id \<Rightarrow> string \<Rightarrow> input_note \<Rightarrow> u64 \<Rightarrow> unbridgeable_reason \<Rightarrow> string \<Rightarrow>
     mem_store \<Rightarrow> mem_store" where
  "quarantine_unbridgeable_b2agg E N bridge_account note_key note observed_block reason detail s =
     snd (record_unbridgeable_bridge_out
       \<lparr>ub_note_id = note_key, ub_bridge_account = bridge_account, ub_reason = reason,
        ub_detail = (if QUARANTINE_MAX_DETAIL < length detail
                     then take QUARANTINE_MAX_DETAIL detail @ [CHR 0xE2, CHR 0x80, CHR 0xA6] @ ''[truncated '' @
                          decimal_text (length detail - QUARANTINE_MAX_DETAIL) @ '' bytes]''
                     else detail),
        ub_note_dump = dump_note_for_quarantine E N note, ub_observed_block = observed_block\<rparr> s)"

section \<open>Bridge-outs\<close>

datatype b2agg_outcome = B2Emitted | B2Skipped | B2LegacyProcessedGated

definition resolve_faucet_origin :: "account_id \<Rightarrow> mem_store \<Rightarrow> faucet_entry option" where
  "resolve_faucet_origin faucet_id s = get_faucet_by_id faucet_id s"

definition backfill_metadata :: "account_id \<Rightarrow> byte list \<Rightarrow> mem_store \<Rightarrow> mem_store" where
  "backfill_metadata faucet_id bytes s =
     (case get_faucet_by_id faucet_id s of
        None \<Rightarrow> s
      | Some entry \<Rightarrow> snd (register_faucet (entry\<lparr>fe_metadata := bytes\<rparr>) s))"

text \<open>The metadata of the event, after recovery where the registry has none.\<close>

definition emit_metadata_of ::
    "account_api \<Rightarrow> recovery \<Rightarrow> account_id \<Rightarrow> faucet_entry \<Rightarrow> emit_metadata" where
  "emit_metadata_of A RC faucet_id origin =
     (let needs_recovery = (fe_metadata origin = [] \<and> fe_origin_address origin \<noteq> 0)
      in recover_bridge_out_metadata A (fe_origin_address origin) (fe_metadata origin) (fe_origin_decimals origin)
           faucet_id
           (if needs_recovery then rc_bridge_account RC else None)
           (if needs_recovery then rc_faucet_account RC faucet_id else None)
           (rc_origin_rpc RC (fe_origin_network origin) (fe_origin_address origin)))"

text \<open>The last step: the cap on the metadata, then the atomic event.\<close>

definition emit_b2agg ::
    "externals \<Rightarrow> note_api \<Rightarrow> input_note \<Rightarrow> string \<Rightarrow> account_id \<Rightarrow> u64 \<Rightarrow> b256 \<Rightarrow> string \<Rightarrow> faucet_entry \<Rightarrow> u32 \<Rightarrow> b160 \<Rightarrow>
     u128 \<Rightarrow> byte list \<Rightarrow> (mem_store, projection_error, b2agg_outcome) handler" where
  "emit_b2agg E N note dedup_key bridge_id block block_hash bridge_address origin destination_network
       destination_address origin_amount bytes =
     (if MAX_BRIDGE_EVENT_METADATA_BYTES < length bytes
      then bindE (doS (quarantine_unbridgeable_b2agg E N bridge_id dedup_key note block MetadataTooLarge
             (''emit_metadata.len()='' @ decimal_text (length bytes) @
              '' exceeds MAX_BRIDGE_EVENT_METADATA_BYTES='' @ decimal_text MAX_BRIDGE_EVENT_METADATA_BYTES)))
             (\<lambda>_. okE B2Skipped)
      else bindE (tryS (commit_b2agg_event_atomic E dedup_key bridge_address block block_hash
                    (derive_bridge_out_tx_hash E (commitment_hex E note)) 0 (fe_origin_network origin)
                    (fe_origin_address origin) destination_network destination_address origin_amount bytes))
             (\<lambda>_. okE B2Emitted))"

text \<open>What follows the reservation of the index.\<close>

definition project_reserved_b2agg ::
    "externals \<Rightarrow> account_api \<Rightarrow> note_api \<Rightarrow> recovery \<Rightarrow> input_note \<Rightarrow> string \<Rightarrow> account_id \<Rightarrow> u32 \<Rightarrow> u64 \<Rightarrow> b256 \<Rightarrow>
     string \<Rightarrow> (mem_store, projection_error, b2agg_outcome) handler" where
  "project_reserved_b2agg E A N RC note dedup_key bridge_id local_network_id block block_hash bridge_address =
     (let quarantine = (\<lambda>reason detail. bindE
            (doS (quarantine_unbridgeable_b2agg E N bridge_id dedup_key note block reason detail)) (\<lambda>_. okE B2Skipped))
      in case parse_b2agg_storage (in_storage note) of
           Inl e \<Rightarrow> quarantine StorageParseFailed (na_b2agg_text N e)
         | Inr (destination_network, destination_address) \<Rightarrow>
             if destination_network = local_network_id then okE B2Skipped
             else
               (case in_assets note of
                  [] \<Rightarrow> quarantine NoFungibleAsset ''consumed B2AGG note carries no fungible asset''
                | (faucet_id, miden_amount) # _ \<Rightarrow>
                    bindE (askS (resolve_faucet_origin faucet_id)) (\<lambda>origin.
                    case origin of
                      None \<Rightarrow> quarantine UnknownFaucet (na_faucet_text N faucet_id)
                    | Some entry \<Rightarrow>
                        (case reverse_scale_amount miden_amount (fe_scale entry) of
                           Inl e \<Rightarrow> quarantine AmountOverflowed (na_scale_text N e)
                         | Inr origin_amount \<Rightarrow>
                             (let emit = emit_b2agg E N note dedup_key bridge_id block block_hash bridge_address entry
                                           destination_network destination_address origin_amount
                              in case emit_metadata_of A RC faucet_id entry of
                                   Unrecoverable \<Rightarrow> errE (UnrecoverableMetadata dedup_key)
                                 | Ready bytes \<Rightarrow> emit bytes
                                 | Recovered bytes \<Rightarrow>
                                     bindE (doS (backfill_metadata faucet_id bytes)) (\<lambda>_. emit bytes))))))"

definition project_b2agg_note ::
    "externals \<Rightarrow> account_api \<Rightarrow> note_api \<Rightarrow> recovery \<Rightarrow> input_note \<Rightarrow> b256 \<Rightarrow> account_id \<Rightarrow> u32 \<Rightarrow> u64 \<Rightarrow> b256 \<Rightarrow>
     string \<Rightarrow> (mem_store, projection_error, b2agg_outcome) handler" where
  "project_b2agg_note E A N RC note note_id bridge_id local_network_id block block_hash bridge_address =
     (if \<not> is_b2agg_note N note then okE B2Skipped
      else
        let dedup_key = na_id_text N note_id;
            class = classify_b2agg_consumer (in_consumer note) bridge_id
        in bindE (askS (is_note_processed dedup_key)) (\<lambda>processed.
           if processed then okE (if class = Emit then B2Skipped else B2LegacyProcessedGated)
           else
             (case class of
                Reclaimed \<Rightarrow> okE B2Skipped
              | UntrackedConsumer \<Rightarrow> okE B2Skipped
              | Emit \<Rightarrow>
                  bindE (tryS (reserve_deposit_index dedup_key)) (\<lambda>_.
                  project_reserved_b2agg E A N RC note dedup_key bridge_id local_network_id block block_hash
                    bridge_address))))"

section \<open>Claims\<close>

definition resolve_claim_metadata :: "externals \<Rightarrow> u32 \<Rightarrow> b160 \<Rightarrow> b256 \<Rightarrow> mem_store \<Rightarrow> byte list option" where
  "resolve_claim_metadata E origin_network origin_address metadata_hash s =
     (if metadata_hash = ext_keccak E [] then Some []
      else case get_faucet_by_origin origin_address origin_network s of
             None \<Rightarrow> None
           | Some faucet \<Rightarrow> if ext_keccak E (fe_metadata faucet) = metadata_hash then Some (fe_metadata faucet) else None)"

definition build_synthetic_claim_envelope ::
    "externals \<Rightarrow> note_api \<Rightarrow> u64 list \<Rightarrow> tx_hash \<Rightarrow> (mem_store, projection_error, (tx_envelope \<times> address) option) handler" where
  "build_synthetic_claim_envelope E N storage h =
     (case parse_full_claim_from_storage storage of
        Inl e \<Rightarrow> errE (BadClaimStorage e)
      | Inr full \<Rightarrow>
          bindE (askS (resolve_claim_metadata E (df_origin_network full) (df_origin_address full) (df_metadata_hash full)))
            (\<lambda>metadata.
          case metadata of
            None \<Rightarrow> okE None
          | Some bytes \<Rightarrow>
              (case na_bridge_address N of
                 None \<Rightarrow> errE BadBridgeAddress
               | Some bridge_addr \<Rightarrow>
                   okE (Some (Legacy \<lparr>stx_hash = h, stx_chain_id = None, stx_nonce = 0, stx_to = Some bridge_addr,
                                      stx_input = na_abi_claim N (build_claim_asset_call full bytes)\<rparr>, bridge_addr)))))"

definition synthetic_entry :: "tx_envelope \<Rightarrow> address \<Rightarrow> txn_entry" where
  "synthetic_entry envelope bridge_addr =
     \<lparr>te_id = None, te_envelope = envelope, te_signer = bridge_addr, te_expires_at = None, te_logs = []\<rparr>"

definition insert_pending_claim_calldata ::
    "externals \<Rightarrow> note_api \<Rightarrow> u64 list \<Rightarrow> string \<Rightarrow> (mem_store, projection_error, bool) handler" where
  "insert_pending_claim_calldata E N storage txh =
     (case ext_parse_hash E txh of
        None \<Rightarrow> errE (BadTxHash txh)
      | Some h \<Rightarrow>
          bindE (askS (txn_get h)) (\<lambda>existing.
          if existing \<noteq> None then okE True
          else
            bindE (build_synthetic_claim_envelope E N storage h) (\<lambda>built.
            case built of
              None \<Rightarrow> okE False
            | Some (envelope, bridge_addr) \<Rightarrow>
                bindE (tryS (txn_begin_if_absent E h (synthetic_entry envelope bridge_addr))) (\<lambda>_. okE True))))"

definition persist_synthetic_claim_tx ::
    "externals \<Rightarrow> note_api \<Rightarrow> u64 list \<Rightarrow> string \<Rightarrow> u64 \<Rightarrow> b256 \<Rightarrow> (mem_store, projection_error, bool) handler" where
  "persist_synthetic_claim_tx E N storage txh block_number block_hash =
     (case ext_parse_hash E txh of
        None \<Rightarrow> errE (BadTxHash txh)
      | Some h \<Rightarrow>
          bindE (askS (txn_get h)) (\<lambda>existing.
          case existing of
            Some data \<Rightarrow>
              (case td_result data of
                 Some (Inr _) \<Rightarrow> okE True
               | _ \<Rightarrow> bindE (tryS (txn_commit E h (Inr ()) block_number block_hash)) (\<lambda>_. okE True))
          | None \<Rightarrow>
              bindE (build_synthetic_claim_envelope E N storage h) (\<lambda>built.
              case built of
                None \<Rightarrow> okE False
              | Some (envelope, bridge_addr) \<Rightarrow>
                  bindE (tryS (txn_begin E h (synthetic_entry envelope bridge_addr))) (\<lambda>_.
                  bindE (tryS (txn_commit E h (Inr ()) block_number block_hash)) (\<lambda>_. okE True)))))"

text \<open>The hash an event rides: the recorded transaction, or the given one.\<close>

definition event_tx_hash :: "string option \<Rightarrow> string \<Rightarrow> string \<Rightarrow> mem_store \<Rightarrow> string" where
  "event_tx_hash observed note_commitment derived s =
     (case observed of
        Some real_tx \<Rightarrow> real_tx
      | None \<Rightarrow> (case get_tx_for_note note_commitment s of Some real_tx \<Rightarrow> real_tx | None \<Rightarrow> derived))"

datatype claim_outcome = ClaimEmitted | ClaimSkipped

definition publish_claim_event ::
    "externals \<Rightarrow> note_api \<Rightarrow> string \<Rightarrow> u64 list \<Rightarrow> decoded_claim \<Rightarrow> string \<Rightarrow> u64 \<Rightarrow> b256 \<Rightarrow> string \<Rightarrow> time \<Rightarrow>
     (mem_store, projection_error, claim_outcome) handler" where
  "publish_claim_event E N note_key storage decoded txh block block_hash bridge_address now =
     bindE (insert_pending_claim_calldata E N storage txh) (\<lambda>ensured.
     if ensured
     then bindE (doS (commit_manual_claim_event_atomic E note_key bridge_address block block_hash txh
                   (dc_global_index decoded) (dc_origin_network decoded) (dc_origin_address decoded)
                   (dc_destination_address decoded) (dc_amount decoded) now)) (\<lambda>_. okE ClaimEmitted)
     else errE (UnrecoverableCalldata note_key))"

definition project_claim_parts ::
    "externals \<Rightarrow> note_api \<Rightarrow> string \<Rightarrow> b256 \<Rightarrow> u64 list \<Rightarrow> account_id option \<Rightarrow> account_id option \<Rightarrow> account_id option \<Rightarrow>
     account_id \<Rightarrow> account_id \<Rightarrow> u64 \<Rightarrow> b256 \<Rightarrow> string \<Rightarrow> time \<Rightarrow> (mem_store, projection_error, claim_outcome) handler" where
  "project_claim_parts E N note_key script_root storage metadata consumer target expected_sender bridge_id block
       block_hash bridge_address now =
     (if script_root \<noteq> na_claim_root N then okE ClaimSkipped
      else if classify_claim_note consumer metadata target expected_sender bridge_id = Foreign then okE ClaimSkipped
      else
        bindE (runS (confirm_note_handoff_by_commitment E note_key)) (\<lambda>observed.
        bindE (askS (is_claim_note_processed note_key)) (\<lambda>processed.
        if processed then okE ClaimSkipped
        else
          (case parse_claim_event_from_storage storage of
             Inl _ \<Rightarrow> okE ClaimSkipped
           | Inr decoded \<Rightarrow>
               bindE (askS (has_claim_event_for_global_index E (dc_global_index decoded))) (\<lambda>recorded.
               if recorded
               then bindE (doS (mark_claim_note_processed note_key (dc_global_index decoded))) (\<lambda>_. okE ClaimSkipped)
               else
                 bindE (askS (event_tx_hash observed note_key (derive_manual_claim_tx_hash E note_key))) (\<lambda>txh.
                 publish_claim_event E N note_key storage decoded txh block block_hash bridge_address now))))))"

text \<open>The metadata of the record, or that of our own output note.\<close>

definition effective_metadata :: "(b256, account_id) hashmap \<Rightarrow> input_note \<Rightarrow> account_id option" where
  "effective_metadata output_metadata note =
     (case in_metadata note of Some m \<Rightarrow> Some m | None \<Rightarrow> hm_get output_metadata (in_commitment note))"

definition project_claim_note ::
    "externals \<Rightarrow> note_api \<Rightarrow> input_note \<Rightarrow> (b256, account_id) hashmap \<Rightarrow> account_id \<Rightarrow> account_id \<Rightarrow> u64 \<Rightarrow> b256 \<Rightarrow> string \<Rightarrow>
     time \<Rightarrow> (mem_store, projection_error, claim_outcome) handler" where
  "project_claim_note E N note output_metadata expected_sender bridge_id block block_hash bridge_address now =
     project_claim_parts E N (commitment_hex E note) (in_script_root note) (in_storage note)
       (effective_metadata output_metadata note) (in_consumer note) (in_target note) expected_sender bridge_id block
       block_hash bridge_address now"

section \<open>Global exit roots\<close>

datatype ger_outcome = GerEmitted | GerSkipped

definition derive_ger_tx_hash :: "externals \<Rightarrow> string \<Rightarrow> string" where
  "derive_ger_tx_hash E note_commitment =
     ''0x'' @ ext_hex_encode E (be_bytes 32 (ext_keccak E (ascii_bytes ''restore-ger-miden-'' @ ascii_bytes note_commitment)))"

definition project_ger_note ::
    "externals \<Rightarrow> note_api \<Rightarrow> input_note \<Rightarrow> (b256, account_id) hashmap \<Rightarrow> account_id \<Rightarrow> account_id \<Rightarrow> u64 \<Rightarrow> b256 \<Rightarrow> u64 \<Rightarrow>
     (mem_store, projection_error, ger_outcome) handler" where
  "project_ger_note E N note output_metadata expected_sender expected_target block block_hash timestamp =
     (if in_script_root note \<noteq> na_ger_root N then okE GerSkipped
      else if classify_ger_note (effective_metadata output_metadata note) (in_target note) expected_sender expected_target
                \<noteq> GerAccept
      then okE GerSkipped
      else
        let note_commitment = commitment_hex E note
        in bindE (runS (confirm_note_handoff_by_commitment E note_commitment)) (\<lambda>observed.
           if length (in_storage note) < na_ger_items N then okE GerSkipped
           else
             (case ger_bytes_from_storage (in_storage note) of
                Inl _ \<Rightarrow> okE GerSkipped
              | Inr ger \<Rightarrow>
                  bindE (askS (is_ger_injected ger)) (\<lambda>injected.
                  if injected then okE GerSkipped
                  else
                    bindE (askS (event_tx_hash observed note_commitment (derive_ger_tx_hash E note_commitment))) (\<lambda>txh.
                    bindE (doS (commit_ger_event_atomic E block block_hash txh ger None None timestamp)) (\<lambda>_.
                    okE GerEmitted))))))"

end
