(* ===== verification/Bridge_Ledger.thy ===== *)
theory Bridge_Ledger
  imports Projection
begin

text \<open>
  What the projection of a note does to the bridge events of the synthetic chain. The ledger
  invariant ties the reserved leaves of the local exit tree to the logs: the deposit counts of the
  bridge events are exactly the indices of the emitted reservations. Every projection keeps it, and
  an event appears only for a note that passed every gate.
\<close>

section \<open>The ledger\<close>

definition is_bridge_event :: "synthetic_log \<Rightarrow> bool" where
  "is_bridge_event l = (first_topic l = Some BRIDGE_EVENT_TOPIC)"

text \<open>The deposit counts of the bridge events, with multiplicity.\<close>

definition bridge_counts :: "externals \<Rightarrow> mem_store \<Rightarrow> u32 option multiset" where
  "bridge_counts E s =
     image_mset (\<lambda>l. bridge_event_deposit_count E (log_data l)) (filter_mset is_bridge_event (mset (all_logs s)))"

definition emitted_indices :: "(string, u32 \<times> bool) hashmap \<Rightarrow> u32 option multiset" where
  "emitted_indices m = image_mset (\<lambda>(_, i, _). Some i) (filter_mset (\<lambda>(_, _, e). e) (mset m))"

text \<open>Every caller begins its transaction rows without logs.\<close>

definition silent_rows :: "txn_receipt lru \<Rightarrow> bool" where
  "silent_rows m = (\<forall>(_, r) \<in> set m. tr_logs r = [])"

definition ledger :: "externals \<Rightarrow> mem_store \<Rightarrow> bool" where
  "ledger E s \<longleftrightarrow>
     deposits_inv s \<and> bridge_counts E s = emitted_indices (processed_notes s) \<and> silent_rows (transactions s)"

text \<open>The fields the ledger is about, without the rows.\<close>

definition same_books :: "mem_store \<Rightarrow> mem_store \<Rightarrow> bool" where
  "same_books s s' \<longleftrightarrow>
     processed_notes s' = processed_notes s \<and> let_gate_baseline s' = let_gate_baseline s \<and>
     deposit_counter s' = deposit_counter s \<and> b2agg_note_ids s' = b2agg_note_ids s \<and>
     filter_mset is_bridge_event (mset (all_logs s')) = filter_mset is_bridge_event (mset (all_logs s))"

lemma same_books_refl [simp]: "same_books s s"
  by (simp add: same_books_def)

lemma same_books_trans: "same_books s t \<Longrightarrow> same_books t u \<Longrightarrow> same_books s u"
  by (simp add: same_books_def)

lemma ledger_same_books:
  "ledger E s \<Longrightarrow> same_books s s' \<Longrightarrow> silent_rows (transactions s') \<Longrightarrow> ledger E s'"
  by (simp add: ledger_def same_books_def deposits_inv_def bridge_counts_def)

lemma ledger_rows: "ledger E s \<Longrightarrow> silent_rows (transactions s)"
  by (simp add: ledger_def)

section \<open>Rows\<close>

lemma silent_remove: "silent_rows m \<Longrightarrow> silent_rows (hm_remove k m)"
  by (auto simp: silent_rows_def hm_remove_def AList.delete_eq)

lemma silent_get: "silent_rows m \<Longrightarrow> hm_get m k = Some r \<Longrightarrow> tr_logs r = []"
  by (auto simp: silent_rows_def dest: hm_get_in)

lemma silent_put: "silent_rows m \<Longrightarrow> tr_logs r = [] \<Longrightarrow> silent_rows (lru_put E cap k r m)"
  using silent_remove [of m k] by (auto simp: silent_rows_def lru_put_def Let_def)

lemma silent_modify:
  assumes "silent_rows m" and "\<And>r. tr_logs r = [] \<Longrightarrow> tr_logs (f r) = []"
  shows "silent_rows (lru_modify k f m)"
proof (cases "hm_get m k")
  case None
  with assms(1) show ?thesis by (simp add: lru_modify_def)
next
  case (Some r)
  with silent_remove [OF assms(1), of k] silent_get [OF assms(1) Some] assms(2) [of r] show ?thesis
    by (auto simp: lru_modify_def silent_rows_def)
qed

lemma silent_touch: "silent_rows m \<Longrightarrow> silent_rows (lru_touch k m)"
  using silent_modify [of m "\<lambda>r. r" k] by (simp add: lru_touch_def lru_modify_def)

lemma silent_settle: "silent_rows m \<Longrightarrow> silent_rows (settle_receipt E txh n m)"
  by (auto simp: settle_receipt_def settle_success_def intro: silent_modify split: option.split)

section \<open>Operations that leave the books alone\<close>

lemma books_insert_log: "\<not> is_bridge_event l \<Longrightarrow> same_books s (insert_log l s)"
  using mset_all_logs_insert [of l s] by (simp add: same_books_def is_bridge_event_def first_topic_def)

lemma books_update [simp]:
  "same_books s (s\<lparr>tx_note_links := a, claimed := b\<rparr>)"
  "same_books s (s\<lparr>tx_note_links := a\<rparr>)"
  "same_books s (s\<lparr>transactions := c\<rparr>)"
  "same_books s (s\<lparr>claim_watcher_processed := d\<rparr>)"
  "same_books s (s\<lparr>unbridgeable_bridge_outs := e\<rparr>)"
  "same_books s (s\<lparr>faucets := f\<rparr>)"
  "same_books s (s\<lparr>latest_block_number := n\<rparr>)"
  "same_books s (s\<lparr>projector_cursor := n\<rparr>)"
  "same_books s (s\<lparr>reconcile_cursor := n\<rparr>)"
  "same_books s (s\<lparr>seen_gers := h, latest_ger := i\<rparr>)"
  "same_books s (s\<lparr>hash_chain_value := j\<rparr>)"
  "same_books s (s\<lparr>injected_gers := k, transactions := c\<rparr>)"
  "same_books s (s\<lparr>transactions := c, claim_calldata_pending := l\<rparr>)"
  "same_books s (s\<lparr>tx_note_links := a, claimed := b, claim_watcher_processed := d, transactions := c\<rparr>)"
  by (simp_all add: same_books_def all_logs_def)

lemma books_confirm_one: "same_books s (confirm_one E t s)" "transactions (confirm_one E t s) = transactions s"
  by (simp_all add: confirm_one_def split: option.split)

lemma books_confirm_fold:
  "same_books s (fold (confirm_one E) ts s) \<and> transactions (fold (confirm_one E) ts s) = transactions s"
proof (induction ts arbitrary: s)
  case (Cons t ts)
  then show ?case using Cons.IH [of "confirm_one E t s"] books_confirm_one [where s = s and E = E and t = t] same_books_trans by simp
qed simp

lemma books_confirm:
  "same_books s (snd (confirm_note_handoff_by_commitment E c s))"
  "transactions (snd (confirm_note_handoff_by_commitment E c s)) = transactions s"
  by (simp_all add: confirm_note_handoff_by_commitment_def Let_def books_confirm_fold [where ts = "x # xs" for x xs, simplified]
      split: list.split)

lemma books_confirm_prepared:
  "same_books s (snd (confirm_prepared_note_handoffs E is s)) \<and>
   transactions (snd (confirm_prepared_note_handoffs E is s)) = transactions s"
proof -
  let ?f = "\<lambda>(t, c) (n, st). let (ok, st') = confirm_note_handoff E t c st in (n + (if ok then 1 else (0 :: u64)), st')"
  have one: "same_books st (snd (confirm_note_handoff E t c st)) \<and>
      transactions (snd (confirm_note_handoff E t c st)) = transactions st" for t c st
    by (simp add: confirm_note_handoff_def split: option.split)
  have "same_books st (snd (fold ?f ms (n, st))) \<and> transactions (snd (fold ?f ms (n, st))) = transactions st"
    for ms n st
  proof (induction ms arbitrary: n st)
    case (Cons m ms)
    obtain t c where m: "m = (t, c)" by (cases m)
    obtain ok st' where st': "confirm_note_handoff E t c st = (ok, st')" by fastforce
    have b: "same_books st st'" and t: "transactions st' = transactions st"
      using one [where st = st and t = t and c = c] st' by simp_all
    show ?case
      using Cons.IH [where n = "n + (if ok then 1 else 0)" and st = st'] same_books_trans [OF b] t by (simp add: m st')
  qed simp
  then show ?thesis by (simp add: confirm_prepared_note_handoffs_def Let_def)
qed

lemma not_bridge_topic [simp]:
  "CLAIM_EVENT_TOPIC \<noteq> BRIDGE_EVENT_TOPIC" "UPDATE_HASH_CHAIN_VALUE_TOPIC \<noteq> BRIDGE_EVENT_TOPIC"
  by (simp_all add: CLAIM_EVENT_TOPIC_def BRIDGE_EVENT_TOPIC_def UPDATE_HASH_CHAIN_VALUE_TOPIC_def)

lemma books_claim_event: "same_books s (commit_manual_claim_event_atomic E n ba bn bh txh gi on oa da am now s)"
  unfolding commit_manual_claim_event_atomic_def Let_def
  by (auto intro!: same_books_trans [OF _ books_insert_log] simp: is_bridge_event_def first_topic_def)

lemma books_ger_event: "same_books s (commit_ger_event_atomic E n bh txh g a b t s)"
proof -
  have "same_books s (see_ger g a b n t s)" for s by (simp add: see_ger_def)
  moreover have "same_books s (emit_ger_event E n bh txh g s)" for s
    unfolding emit_ger_event_def Let_def
    by (auto intro!: same_books_trans [OF _ books_insert_log] simp: is_bridge_event_def first_topic_def)
  ultimately show ?thesis
    unfolding commit_ger_event_atomic_def Let_def
    by (intro same_books_trans [OF _ books_update(12)])
      (blast intro: same_books_trans books_update(2))
qed

section \<open>Claims and exit roots\<close>

lemma stableE_askS [stableE_rules]: "stableE P (askS f)"
  by (simp add: stableE_def askS_def)

lemma stableE_runS [stableE_rules]: "(\<And>s. P s \<Longrightarrow> P (snd (f s))) \<Longrightarrow> stableE P (runS f)"
  by (simp add: stableE_def runS_def case_prod_unfold Let_def)

lemma stableE_tryS [stableE_rules]: "(\<And>s. P s \<Longrightarrow> P (snd (f s))) \<Longrightarrow> stableE P (tryS f)"
  by (simp add: stableE_def tryS_def case_prod_unfold split: sum.split)

lemma stableE_doS [stableE_rules]: "(\<And>s. P s \<Longrightarrow> P (f s)) \<Longrightarrow> stableE P (doS f)"
  by (simp add: stableE_def doS_def)

text \<open>The books are those of a given store and the rows stay silent.\<close>

definition books :: "mem_store \<Rightarrow> mem_store \<Rightarrow> bool" where
  "books s0 s \<longleftrightarrow> same_books s0 s \<and> silent_rows (transactions s)"

lemma books_step: "books s0 s \<Longrightarrow> same_books s s' \<Longrightarrow> silent_rows (transactions s') \<Longrightarrow> books s0 s'"
  by (auto simp: books_def intro: same_books_trans)

lemma books_rows: "books s0 s \<Longrightarrow> silent_rows (transactions s)"
  by (simp add: books_def)

lemma ledger_books: "ledger E s \<Longrightarrow> books s s' \<Longrightarrow> ledger E s'"
  by (auto simp: books_def intro: ledger_same_books)

lemma books_begin:
  "silent_rows (transactions s) \<Longrightarrow> te_logs entry = [] \<Longrightarrow>
     same_books s (snd (txn_begin E h entry s)) \<and> silent_rows (transactions (snd (txn_begin E h entry s)))"
  "silent_rows (transactions s) \<Longrightarrow> te_logs entry = [] \<Longrightarrow>
     same_books s (snd (txn_begin_if_absent E h entry s)) \<and>
     silent_rows (transactions (snd (txn_begin_if_absent E h entry s)))"
  by (auto simp: txn_begin_def txn_begin_if_absent_def receipt_of_entry_def refresh_pending_def
      intro!: silent_put silent_modify split: option.split)

lemma books_txn_commit:
  "silent_rows (transactions s) \<Longrightarrow>
     same_books s (snd (txn_commit E h r n bh s)) \<and> silent_rows (transactions (snd (txn_commit E h r n bh s)))"
  using silent_get [of "transactions s" h]
  by (auto simp: txn_commit_def Let_def intro!: silent_modify silent_touch split: option.split)

lemma books_confirmed_duplicate:
  "silent_rows (transactions s) \<Longrightarrow>
     same_books s (snd (txn_commit_confirmed_duplicate h r n s)) \<and>
     silent_rows (transactions (snd (txn_commit_confirmed_duplicate h r n s)))"
  by (auto simp: txn_commit_confirmed_duplicate_def intro!: silent_modify split: option.split)

lemma stable_books_envelope [stableE_rules]: "stableE P (build_synthetic_claim_envelope E N storage h)"
  unfolding build_synthetic_claim_envelope_def by (intro stableE_rules)

lemma stable_books_calldata [stableE_rules]: "stableE (books s0) (insert_pending_claim_calldata E N storage txh)"
  unfolding insert_pending_claim_calldata_def
  by (intro stableE_rules) (use books_begin(2) books_step in \<open>fastforce simp: books_def synthetic_entry_def\<close>)

lemma stable_books_persist [stableE_rules]:
  "stableE (books s0) (persist_synthetic_claim_tx E N storage txh n bh)"
proof -
  have c: "stableE (books s0) (tryS (txn_commit E h (Inr ()) n bh))" for h
    by (intro stableE_rules) (use books_txn_commit books_step in \<open>fastforce simp: books_def\<close>)
  have b: "stableE (books s0) (tryS (txn_begin E h (synthetic_entry env a)))" for h env a
    by (intro stableE_rules) (use books_begin(1) books_step in \<open>fastforce simp: books_def synthetic_entry_def\<close>)
  show ?thesis
    unfolding persist_synthetic_claim_tx_def by (intro stableE_rules c b)
qed

lemma stable_books_handoff [stableE_rules]: "stableE (books s0) (runS (confirm_note_handoff_by_commitment E c))"
  by (intro stableE_rules) (auto intro!: books_step [OF _ books_confirm(1)] simp: books_confirm(2) books_rows)

lemma stable_books_publish [stableE_rules]:
  "stableE (books s0) (publish_claim_event E N k storage d txh b bh ba now)"
  unfolding publish_claim_event_def
  by (intro stableE_rules) (auto intro!: books_step [OF _ books_claim_event] silent_settle simp: books_rows)

lemma stable_books_claim [stableE_rules]:
  "stableE (books s0) (project_claim_parts E N k root storage md cons tgt es bid b bh ba now)"
  unfolding project_claim_parts_def
  by (intro stableE_rules) (auto simp: mark_claim_note_processed_def books_def intro: same_books_trans)

lemma stable_books_ger [stableE_rules]:
  "stableE (books s0) (project_ger_note E N note om es et b bh ts)"
proof -
  have "stableE (books s0) (doS (commit_ger_event_atomic E b bh txh g None None ts))" for txh g
    by (intro stableE_rules) (auto intro!: books_step [OF _ books_ger_event] silent_settle simp: books_rows)
  then show ?thesis
    unfolding project_ger_note_def Let_def by (intro stableE_if stableE_bindE stableE_case_sum stableE_askS stableE_okE
        stable_books_handoff)
qed

section \<open>Bridge-outs\<close>

lemma all_logs_processed [simp]: "all_logs (s\<lparr>processed_notes := p\<rparr>) = all_logs s"
  by (simp add: all_logs_def)

lemma emitted_append: "hm_get m k = None \<Longrightarrow> emitted_indices (hm_insert k (i, False) m) = emitted_indices m"
  by (simp add: emitted_indices_def hm_insert_absent)

lemma emitted_update:
  "hm_get m k = Some (i, False) \<Longrightarrow> emitted_indices (hm_insert k (i, True) m) = add_mset (Some i) (emitted_indices m)"
  by (induction m) (auto simp: emitted_indices_def hm_get_def hm_insert_def split: if_splits)

lemma emitted_remove:
  "hm_wf m \<Longrightarrow> hm_get m k = Some (i, e) \<Longrightarrow>
     emitted_indices m = (if e then {#Some i#} else {#}) + emitted_indices (hm_remove k m)"
proof (induction m)
  case Nil
  then show ?case by simp
next
  case (Cons x m)
  obtain k' i' e' where x: "x = (k', i', e')" by (cases x)
  have wf: "hm_wf m" "hm_get m k' = None" using Cons.prems(1) x by (simp_all add: hm_wf_Cons)
  show ?case
  proof (cases "k' = k")
    case True
    have "hm_remove k m = m"
      using wf(2) True by (simp add: hm_get_def hm_remove_def delete_id map_of_eq_None_iff)
    with True x Cons.prems(2) show ?thesis by (simp add: hm_get_Cons emitted_indices_def hm_remove_def)
  next
    case False
    then have "hm_get m k = Some (i, e)" using x Cons.prems(2) by (simp add: hm_get_Cons)
    with Cons.IH [OF wf(1)] False x show ?thesis by (auto simp: emitted_indices_def hm_remove_def)
  qed
qed

lemma ledger_reserve: "ledger E s \<Longrightarrow> ledger E (snd (reserve_deposit_index k s))"
proof (cases rule: reserve_cases [of s k])
  case (fresh i)
  assume l: "ledger E s"
  have "deposits_inv (snd (reserve_deposit_index k s))"
    using l deposits_inv_reserve by (simp add: ledger_def)
  with l fresh(1) show ?thesis
    by (simp add: ledger_def fresh(4) emitted_append bridge_counts_def all_logs_def)
qed simp_all

lemma ledger_commit:
  assumes "hex_ok E" and "ledger E s"
  shows "ledger E (snd (commit_b2agg_event_atomic E n ba bn bh txh lt on oa dn da am md s))"
proof (cases rule: commit_b2agg_cases [of s n E ba bn bh txh lt on oa dn da am md])
  case (emit i s1)
  let ?l = "\<lparr>log_address = ba, log_topics = [BRIDGE_EVENT_TOPIC],
      log_data = encode_bridge_event_data E lt on oa dn da am md i, log_block_number = bn,
      log_block_hash = bh, log_transaction_hash = txh, log_transaction_index = 0, log_log_index = 0,
      log_removed = False\<rparr>"
  let ?s' = "s1\<lparr>processed_notes := hm_insert n (i, True) (processed_notes s)\<rparr>"
  have "bridge_counts E ?s' = add_mset (Some i) (bridge_counts E s)"
    using mset_all_logs_insert [of ?l s] deposit_count_of_encoded [OF assms(1)]
    by (simp add: bridge_counts_def emit(2) add_bridge_event_def is_bridge_event_def first_topic_def)
  moreover have "deposits_inv ?s'"
    using deposits_inv_commit [of s E n ba bn bh txh lt on oa dn da am md] assms(2) by (simp add: ledger_def emit(3))
  moreover have "transactions ?s' = transactions s" by (simp add: emit(2) add_bridge_event_def)
  ultimately show ?thesis
    using assms(2) emitted_update [OF emit(1)] unfolding ledger_def emit(3) by simp
qed (use assms in simp_all)

lemma ledger_migrate:
  assumes "ledger E s"
  shows "ledger E (migrate_legacy_deposit_key E' lk nk b txh s)"
proof (cases "migrate_legacy_deposit_key E' lk nk b txh s = s")
  case False
  obtain i e where r: "hm_get (processed_notes s) lk = Some (i, e)" and nk: "hm_get (processed_notes s) nk = None"
    and eq: "migrate_legacy_deposit_key E' lk nk b txh s =
      s\<lparr>processed_notes := hm_insert nk (i, e) (hm_remove lk (processed_notes s))\<rparr>"
    using False by (fastforce simp: migrate_legacy_deposit_key_def Let_def split: option.splits if_splits)
  have wf: "hm_wf (processed_notes s)" using assms by (simp add: ledger_def deposits_inv_def deposits_ok_def)
  have "hm_get (hm_remove lk (processed_notes s)) nk = None" using nk by simp
  then have "emitted_indices (hm_insert nk (i, e) (hm_remove lk (processed_notes s))) = emitted_indices (processed_notes s)"
    unfolding emitted_remove [OF wf r] by (simp add: hm_insert_absent emitted_indices_def)
  moreover have "deposits_inv (migrate_legacy_deposit_key E' lk nk b txh s)"
    using assms deposits_inv_migrate by (simp add: ledger_def)
  ultimately show ?thesis using assms unfolding eq by (simp add: ledger_def bridge_counts_def all_logs_def)
qed (use assms in simp)

lemma ledger_update [simp]:
  "ledger E (s\<lparr>unbridgeable_bridge_outs := u\<rparr>) = ledger E s"
  "ledger E (s\<lparr>faucets := f\<rparr>) = ledger E s"
  "ledger E (s\<lparr>latest_block_number := n\<rparr>) = ledger E s"
  "ledger E (s\<lparr>projector_cursor := n\<rparr>) = ledger E s"
  "ledger E (s\<lparr>reconcile_cursor := n\<rparr>) = ledger E s"
  "ledger E (s\<lparr>b2agg_note_ids := m\<rparr>) = ledger E s"
  by (simp_all add: ledger_def deposits_inv_def bridge_counts_def all_logs_def)

lemma quarantine_frame [simp]:
  "ledger E' (quarantine_unbridgeable_b2agg E N ba k note b r d s) = ledger E' s"
  "processed_notes (quarantine_unbridgeable_b2agg E N ba k note b r d s) = processed_notes s"
  "all_logs (quarantine_unbridgeable_b2agg E N ba k note b r d s) = all_logs s"
  "let_gate_baseline (quarantine_unbridgeable_b2agg E N ba k note b r d s) = let_gate_baseline s"
  "b2agg_note_ids (quarantine_unbridgeable_b2agg E N ba k note b r d s) = b2agg_note_ids s"
  by (simp_all add: quarantine_unbridgeable_b2agg_def record_unbridgeable_bridge_out_def all_logs_def split: option.split)

lemma backfill_frame [simp]:
  "ledger E (backfill_metadata i md s) = ledger E s"
  "processed_notes (backfill_metadata i md s) = processed_notes s"
  "all_logs (backfill_metadata i md s) = all_logs s"
  "let_gate_baseline (backfill_metadata i md s) = let_gate_baseline s"
  "b2agg_note_ids (backfill_metadata i md s) = b2agg_note_ids s"
  by (simp_all add: backfill_metadata_def register_faucet_def Let_def all_logs_def split: option.split)

lemma stable_ledger_emit:
  "hex_ok E \<Longrightarrow> stableE (ledger E) (emit_b2agg E N note k bid b bh ba origin dn da am bytes)"
  unfolding emit_b2agg_def by (intro stableE_rules) (simp_all add: ledger_commit)

lemma stable_ledger_reserved:
  assumes "hex_ok E"
  shows "stableE (ledger E) (project_reserved_b2agg E A N RC note k bid net b bh ba)"
proof -
  have q: "stableE (ledger E) (bindE (doS (quarantine_unbridgeable_b2agg E N bid k note b r d)) (\<lambda>_. okE B2Skipped))"
    for r d by (intro stableE_rules) simp
  have f: "stableE (ledger E) (doS (backfill_metadata i md))" for i md by (intro stableE_rules) simp
  show ?thesis
    unfolding project_reserved_b2agg_def Let_def
    by (auto intro!: stableE_rules stable_ledger_emit assms q f
        split: sum.split list.split option.split emit_metadata.split)
qed

lemma stable_ledger_b2agg [stableE_rules]:
  assumes "hex_ok E"
  shows "stableE (ledger E) (project_b2agg_note E A N RC note i bid net b bh ba)"
proof -
  have r: "stableE (ledger E) (tryS (reserve_deposit_index k))" for k
    by (intro stableE_rules) (rule ledger_reserve)
  show ?thesis
    unfolding project_b2agg_note_def Let_def
    by (intro stableE_if stableE_bindE stableE_askS stableE_okE r)
      (auto intro!: stableE_rules r stable_ledger_reserved assms split: b2agg_consumer_class.split)
qed

section \<open>The reserved leaves\<close>

definition reserved :: "mem_store \<Rightarrow> string set" where
  "reserved s = {k. hm_get (processed_notes s) k \<noteq> None}"

text \<open>The reserved notes, the baseline, and the notes whose identity is known.\<close>

definition leaves :: "string set \<Rightarrow> u64 \<Rightarrow> (b256, b256) hashmap \<Rightarrow> mem_store \<Rightarrow> bool" where
  "leaves R b ids s \<longleftrightarrow> reserved s = R \<and> let_gate_baseline s = b \<and> b2agg_note_ids s = ids"

lemma leaves_same_books: "leaves R b ids s \<Longrightarrow> same_books s s' \<Longrightarrow> leaves R b ids s'"
  by (simp add: leaves_def reserved_def same_books_def)

lemma leaves_books: "leaves R b ids s \<Longrightarrow> books s s' \<Longrightarrow> leaves R b ids s'"
  by (simp add: books_def leaves_same_books)

lemma leaves_commit:
  "leaves R b ids s \<Longrightarrow> leaves R b ids (snd (commit_b2agg_event_atomic E n ba bn bh txh lt on oa dn da am md s))"
  by (cases rule: commit_b2agg_cases [of s n E ba bn bh txh lt on oa dn da am md])
    (auto simp: leaves_def reserved_def add_bridge_event_def)

lemma leaves_reserve:
  "leaves R b ids s \<Longrightarrow> reserve_deposit_index k s = (Inr i, s') \<Longrightarrow> leaves (insert k R) b ids s'"
  by (cases rule: reserve_cases [of s k]) (auto simp: leaves_def reserved_def)

lemma stable_leaves_reserved:
  "stableE (leaves R b ids) (project_reserved_b2agg E A N RC note k bid net bn bh ba)"
proof -
  have q: "stableE (leaves R b ids) (bindE (doS (quarantine_unbridgeable_b2agg E N bid k note bn r d)) (\<lambda>_. okE B2Skipped))"
    for r d by (intro stableE_rules) (simp add: leaves_def reserved_def)
  have f: "stableE (leaves R b ids) (doS (backfill_metadata i md))" for i md
    by (intro stableE_rules) (simp add: leaves_def reserved_def)
  have e: "stableE (leaves R b ids) (emit_b2agg E N note k bid bn bh ba origin dn da am bytes)" for origin dn da am bytes
    unfolding emit_b2agg_def by (intro stableE_if q stableE_bindE stableE_tryS stableE_okE leaves_commit)
  show ?thesis
    unfolding project_reserved_b2agg_def Let_def
    by (auto intro!: stableE_rules e q f split: sum.split list.split option.split emit_metadata.split)
qed

text \<open>A projected bridge-out of the bridge holds a leaf, whatever became of its event.\<close>

lemma b2agg_reserves:
  assumes "project_b2agg_note E A N RC note i bid net bn bh ba s = (Inr r, s')" and "leaves R b ids s"
    and "is_b2agg_note N note" and "in_consumer note = Some bid"
  shows "leaves (insert (na_id_text N i) R) b ids s'"
proof -
  let ?k = "na_id_text N i"
  have emit: "classify_b2agg_consumer (in_consumer note) bid = Emit"
    using assms(4) by (simp add: classify_b2agg_consumer_def)
  show ?thesis
  proof (cases "is_note_processed ?k s")
    case True
    then have "?k \<in> R" using assms(2) by (auto simp: is_note_processed_def leaves_def reserved_def split: option.splits)
    moreover have "s' = s" using assms(1,3) True by (simp add: project_b2agg_note_def Let_def askS_def bindE_def)
    ultimately show ?thesis using assms(2) by (simp add: insert_absorb)
  next
    case False
    then obtain j s1 where r: "reserve_deposit_index ?k s = (Inr j, s1)"
      and p: "project_reserved_b2agg E A N RC note ?k bid net bn bh ba s1 = (Inr r, s')"
      using assms(1,3) emit
      by (auto simp: project_b2agg_note_def Let_def askS_def bindE_def tryS_def split: prod.splits sum.splits)
    show ?thesis by (rule stableE_D [OF stable_leaves_reserved leaves_reserve [OF assms(2) r] p])
  qed
qed

section \<open>When an event is emitted\<close>

lemma emit_b2agg_outcome:
  assumes "emit_b2agg E N note k bid bn bh ba origin dn da am bytes s = (r, s')"
    and "hm_get (processed_notes s) k = Some (i, False)"
  shows "if MAX_BRIDGE_EVENT_METADATA_BYTES < length bytes then r = Inr B2Skipped \<and> all_logs s' = all_logs s
         else r = Inr B2Emitted \<and> hm_get (processed_notes s') k = Some (i, True) \<and>
              mset (all_logs s') =
                add_mset \<lparr>log_address = ba, log_topics = [BRIDGE_EVENT_TOPIC],
                  log_data = encode_bridge_event_data E 0 (fe_origin_network origin) (fe_origin_address origin) dn da am
                    bytes i, log_block_number = bn, log_block_hash = bh,
                  log_transaction_hash = derive_bridge_out_tx_hash E (commitment_hex E note),
                  log_transaction_index = 0, log_log_index = log_counter s, log_removed = False\<rparr> (mset (all_logs s))"
  using assms
  by (auto simp: emit_b2agg_def doS_def bindE_def tryS_def commit_b2agg_event_atomic_def Let_def add_bridge_event_def
      mset_all_logs_insert)

text \<open>The log that a bridge-out is owed, given the registry of the store it is projected on.\<close>

definition owed_event ::
    "externals \<Rightarrow> account_api \<Rightarrow> recovery \<Rightarrow> u32 \<Rightarrow> input_note \<Rightarrow> u64 \<Rightarrow> u32 \<Rightarrow> mem_store \<Rightarrow> synthetic_log \<Rightarrow> bool" where
  "owed_event E A RC local_network note block i s l \<longleftrightarrow>
     (\<exists>dn da faucet_id amount rest origin origin_amount bytes.
        parse_b2agg_storage (in_storage note) = Inr (dn, da) \<and> dn \<noteq> local_network \<and>
        in_assets note = (faucet_id, amount) # rest \<and> get_faucet_by_id faucet_id s = Some origin \<and>
        reverse_scale_amount amount (fe_scale origin) = Inr origin_amount \<and>
        emit_metadata_of A RC faucet_id origin \<in> {Ready bytes, Recovered bytes} \<and>
        length bytes \<le> MAX_BRIDGE_EVENT_METADATA_BYTES \<and>
        log_topics l = [BRIDGE_EVENT_TOPIC] \<and> log_block_number l = block \<and>
        log_data l = encode_bridge_event_data E 0 (fe_origin_network origin) (fe_origin_address origin) dn da
          origin_amount bytes i)"

lemma reserved_outcome:
  assumes "project_reserved_b2agg E A N RC note k bid net bn bh ba s = (r, s')"
    and "hm_get (processed_notes s) k = Some (i, False)"
  shows "if r = Inr B2Emitted
         then hm_get (processed_notes s') k = Some (i, True) \<and>
              (\<exists>l. owed_event E A RC net note bn i s l \<and> mset (all_logs s') = add_mset l (mset (all_logs s)))
         else all_logs s' = all_logs s"
proof (cases "\<exists>dn da f am rest og oa bytes. parse_b2agg_storage (in_storage note) = Inr (dn, da) \<and> dn \<noteq> net \<and>
    in_assets note = (f, am) # rest \<and> get_faucet_by_id f s = Some og \<and>
    reverse_scale_amount am (fe_scale og) = Inr oa \<and> emit_metadata_of A RC f og \<in> {Ready bytes, Recovered bytes}")
  case True
  then obtain dn da f am rest og oa bytes where gates: "parse_b2agg_storage (in_storage note) = Inr (dn, da)" "dn \<noteq> net"
      "in_assets note = (f, am) # rest" "get_faucet_by_id f s = Some og"
      "reverse_scale_amount am (fe_scale og) = Inr oa"
      and md: "emit_metadata_of A RC f og \<in> {Ready bytes, Recovered bytes}" by blast
  obtain s1 where e: "emit_b2agg E N note k bid bn bh ba og dn da oa bytes s1 = (r, s')"
    and s1: "processed_notes s1 = processed_notes s" "all_logs s1 = all_logs s"
  proof (cases "emit_metadata_of A RC f og = Ready bytes")
    case True
    with assms(1) gates show thesis
      by (intro that [of s]) (simp_all add: project_reserved_b2agg_def Let_def bindE_def askS_def resolve_faucet_origin_def)
  next
    case False
    with md have "emit_metadata_of A RC f og = Recovered bytes" by simp
    with assms(1) gates show thesis
      by (intro that [of "backfill_metadata f bytes s"])
        (simp_all add: project_reserved_b2agg_def Let_def bindE_def askS_def doS_def resolve_faucet_origin_def)
  qed
  show ?thesis
    using emit_b2agg_outcome [OF e] assms(2) gates md unfolding s1 owed_event_def by (fastforce split: if_splits)
next
  case False
  have "r \<noteq> Inr B2Emitted \<and> all_logs s' = all_logs s"
    using False assms(1)
    by (auto simp: project_reserved_b2agg_def Let_def bindE_def askS_def doS_def resolve_faucet_origin_def
        split: sum.splits list.splits option.splits emit_metadata.splits if_splits prod.splits)
  then show ?thesis by simp
qed

lemma reserve_unprocessed:
  assumes "reserve_deposit_index k s = (Inr i, s1)" and "\<not> is_note_processed k s"
  shows "hm_get (processed_notes s1) k = Some (i, False)" "all_logs s1 = all_logs s" "faucets s1 = faucets s"
proof -
  have "hm_get (processed_notes s1) k = Some (i, False) \<and> all_logs s1 = all_logs s \<and> faucets s1 = faucets s"
  proof (cases rule: reserve_cases [of s k])
    case (existing j e)
    with assms show ?thesis by (simp add: is_note_processed_def)
  next
    case (failed e)
    with assms(1) show ?thesis by simp
  next
    case (fresh j)
    with assms(1) have "i = j" and "s1 = s\<lparr>deposit_counter := deposit_counter s + 1,
        processed_notes := hm_insert k (j, False) (processed_notes s)\<rparr>" by auto
    then show ?thesis by (simp add: all_logs_def)
  qed
  then show "hm_get (processed_notes s1) k = Some (i, False)" "all_logs s1 = all_logs s" "faucets s1 = faucets s"
    by simp_all
qed

section \<open>When a claim event is emitted\<close>

lemma confirm_commitment_frame:
  assumes "confirm_note_handoff_by_commitment E c s = (o', s1)"
  shows "all_logs s1 = all_logs s" "claim_watcher_processed s1 = claim_watcher_processed s"
    "transactions s1 = transactions s" "faucets s1 = faucets s" "injected_gers s1 = injected_gers s"
    "hash_chain_value s1 = hash_chain_value s"
proof -
  have one: "all_logs (confirm_one E t s) = all_logs s" "claim_watcher_processed (confirm_one E t s) = claim_watcher_processed s"
    "transactions (confirm_one E t s) = transactions s" "faucets (confirm_one E t s) = faucets s"
    "injected_gers (confirm_one E t s) = injected_gers s" "hash_chain_value (confirm_one E t s) = hash_chain_value s" for t s
    by (simp_all add: confirm_one_def all_logs_def split: option.split)
  show "all_logs s1 = all_logs s" "claim_watcher_processed s1 = claim_watcher_processed s"
    "transactions s1 = transactions s" "faucets s1 = faucets s" "injected_gers s1 = injected_gers s"
    "hash_chain_value s1 = hash_chain_value s"
    using assms
    by (auto simp: confirm_note_handoff_by_commitment_def Let_def one
        fold_frame [of all_logs, OF one(1)] fold_frame [of claim_watcher_processed, OF one(2)]
        fold_frame [of transactions, OF one(3)] fold_frame [of faucets, OF one(4)]
        fold_frame [of injected_gers, OF one(5)] fold_frame [of hash_chain_value, OF one(6)] split: list.splits)
qed

text \<open>Calldata that is never fabricated: its metadata hashes to what the note commits to.\<close>

definition recovered_calldata :: "externals \<Rightarrow> note_api \<Rightarrow> u64 list \<Rightarrow> byte list \<Rightarrow> bool" where
  "recovered_calldata E N storage input \<longleftrightarrow>
     (\<exists>full md. parse_full_claim_from_storage storage = Inr full \<and> ext_keccak E md = df_metadata_hash full \<and>
        input = na_abi_claim N (build_claim_asset_call full md))"

lemma resolved_metadata_hash: "resolve_claim_metadata E n a h s = Some md \<Longrightarrow> ext_keccak E md = h"
  by (auto simp: resolve_claim_metadata_def split: if_splits option.splits)

lemma synthetic_envelope_outcome:
  assumes "build_synthetic_claim_envelope E N storage h s = (Inr (Some (env, a)), s')"
  shows "s' = s \<and> (\<exists>tx. env = Legacy tx \<and> stx_hash tx = h \<and> recovered_calldata E N storage (stx_input tx))"
  using assms resolved_metadata_hash
  by (fastforce simp: build_synthetic_claim_envelope_def recovered_calldata_def bindE_def askS_def
      split: sum.splits option.splits)

lemma envelope_keeps: "snd (build_synthetic_claim_envelope E N storage h s) = s"
  by (simp add: build_synthetic_claim_envelope_def bindE_def askS_def split: sum.split option.split)

lemma calldata_outcome:
  assumes "lru_ok E" and "insert_pending_claim_calldata E N storage txh s = (r, s')"
  shows "(\<exists>c. s' = s\<lparr>transactions := c\<rparr>) \<and>
         (r = Inr True \<longrightarrow>
            (\<exists>h row. ext_parse_hash E txh = Some h \<and> hm_get (transactions s') h = Some row \<and>
               (hm_get (transactions s) h = None \<longrightarrow>
                  (\<exists>tx. tr_envelope row = Legacy tx \<and> recovered_calldata E N storage (stx_input tx)))))"
proof (cases "ext_parse_hash E txh")
  case None
  with assms(2) have "s' = s\<lparr>transactions := transactions s\<rparr>" "r \<noteq> Inr True"
    by (auto simp: insert_pending_claim_calldata_def)
  then show ?thesis by blast
next
  case (Some h)
  show ?thesis
  proof (cases "hm_get (transactions s) h")
    case row: (Some row)
    with Some assms(2) have eq: "s' = s"
      by (auto simp: insert_pending_claim_calldata_def bindE_def askS_def txn_get_def)
    have "\<exists>c. s = s\<lparr>transactions := c\<rparr>" by (rule exI [of _ "transactions s"]) simp
    then show ?thesis unfolding eq using Some row by (intro conjI) auto
  next
    case None
    obtain b s1 where b: "build_synthetic_claim_envelope E N storage h s = (b, s1)" by fastforce
    have s1: "s1 = s" using envelope_keeps [of E N storage h s] b by simp
    consider (built) env a where "b = Inr (Some (env, a))" | (other) "\<And>env a. b \<noteq> Inr (Some (env, a))" by blast
    then show ?thesis
    proof cases
      case built
      then obtain tx where tx: "env = Legacy tx" "recovered_calldata E N storage (stx_input tx)"
        using synthetic_envelope_outcome b by blast
      let ?c = "lru_put E TRANSACTIONS_CAPACITY h (receipt_of_entry (synthetic_entry env a)) (transactions s)"
      have "s' = s\<lparr>transactions := ?c\<rparr>"
        using assms(2) Some None b s1 built
        by (auto simp: insert_pending_claim_calldata_def bindE_def askS_def txn_get_def tryS_def txn_begin_if_absent_def)
      moreover have "hm_get ?c h = Some (receipt_of_entry (synthetic_entry env a))"
        by (rule hm_get_lru_put_same [OF assms(1)]) (simp add: TRANSACTIONS_CAPACITY_def)
      ultimately show ?thesis
        using Some tx by (auto simp: receipt_of_entry_def synthetic_entry_def)
    next
      case other
      then have "s' = s\<lparr>transactions := transactions s\<rparr>" "r \<noteq> Inr True"
        using assms(2) Some None b s1
        by (auto simp: insert_pending_claim_calldata_def bindE_def askS_def txn_get_def
            split: sum.splits option.splits prod.splits)
      then show ?thesis by blast
    qed
  qed
qed

section \<open>Properties\<close>

text \<open>
  C6. A bridge event is earned. Projecting a consumed note emits a bridge event only for a bridge-out
  note that the bridge account consumed, whose storage parses, whose destination is another
  network, whose asset belongs to a registered faucet, whose scaled amount fits, and whose metadata
  is known or recovered and within the cap; the log then carries exactly these values and the index
  reserved for the note. Every other outcome, errors included, leaves the logs as they were, and
  projecting the note again in the resulting store changes nothing.
\<close>

theorem bridge_event_is_earned:
  assumes "project_b2agg_note E A N RC note note_id bridge_id local_network block bh ba s = (r, s')"
  shows "if r = Inr B2Emitted
         then in_script_root note = na_b2agg_root N \<and> in_consumer note = Some bridge_id \<and>
              (\<exists>i l. hm_get (processed_notes s') (na_id_text N note_id) = Some (i, True) \<and>
                 owed_event E A RC local_network note block i s l \<and>
                 mset (all_logs s') = add_mset l (mset (all_logs s))) \<and>
              (\<forall>RC' block' bh' ba'.
                 project_b2agg_note E A N RC' note note_id bridge_id local_network block' bh' ba' s' = (Inr B2Skipped, s'))
         else all_logs s' = all_logs s"
proof (cases "is_b2agg_note N note \<and> \<not> is_note_processed (na_id_text N note_id) s \<and>
    classify_b2agg_consumer (in_consumer note) bridge_id = Emit")
  case False
  then have "r \<noteq> Inr B2Emitted \<and> s' = s"
    using assms by (auto simp: project_b2agg_note_def Let_def askS_def bindE_def split: if_splits b2agg_consumer_class.splits)
  then show ?thesis by simp
next
  case True
  let ?k = "na_id_text N note_id"
  have consumer: "in_consumer note = Some bridge_id"
    using True by (auto simp: classify_b2agg_consumer_def split: option.splits if_splits)
  show ?thesis
  proof (cases "\<exists>e. fst (reserve_deposit_index ?k s) = Inl e")
    case err: True
    then obtain e where "reserve_deposit_index ?k s = (Inl e, s)" by (cases rule: reserve_cases [of s ?k]) auto
    then have "r \<noteq> Inr B2Emitted \<and> s' = s"
      using assms True by (auto simp: project_b2agg_note_def Let_def askS_def bindE_def tryS_def)
    then show ?thesis by simp
  next
    case False
    then obtain i s1 where rv: "reserve_deposit_index ?k s = (Inr i, s1)"
      by (metis surjective_pairing sum.exhaust_sel)
    note s1 = reserve_unprocessed [OF rv True [THEN conjunct2, THEN conjunct1]]
    have p: "project_reserved_b2agg E A N RC note ?k bridge_id local_network block bh ba s1 = (r, s')"
      using assms True rv by (simp add: project_b2agg_note_def Let_def askS_def bindE_def tryS_def)
    have owed: "owed_event E A RC local_network note block i s1 l = owed_event E A RC local_network note block i s l" for l
      by (simp add: owed_event_def get_faucet_by_id_def s1(3))
    show ?thesis
      using reserved_outcome [OF p s1(1)] True consumer unfolding owed s1(2)
      by (auto simp: is_b2agg_note_def project_b2agg_note_def Let_def askS_def bindE_def is_note_processed_def
          split: if_splits)
  qed
qed

definition demo_notes :: note_api where
  "demo_notes = \<lparr>na_b2agg_root = 1, na_claim_root = 2, na_ger_root = 3, na_ger_items = 8,
     na_id_text = (\<lambda>i. plain_hex (be_bytes 32 i)), na_account_text = (\<lambda>_. ''account''), na_b2agg_text = (\<lambda>_. ''storage''),
     na_faucet_text = (\<lambda>_. ''faucet''), na_scale_text = (\<lambda>_. ''scale''), na_abi_claim = (\<lambda>_. [0xCC]),
     na_bridge_address = Some 7\<rparr>"

definition demo_recovery :: recovery where
  "demo_recovery = \<lparr>rc_bridge_account = None, rc_faucet_account = (\<lambda>_. None), rc_origin_rpc = (\<lambda>_ _. None)\<rparr>"

definition demo_exit :: input_note where
  "demo_exit = \<lparr>in_script_root = 1, in_storage = b2agg_storage_layout 0 9, in_assets = [(4, 100)], in_commitment = 11,
     in_metadata = None, in_target = None, in_consumer = Some 8, in_consumed_block = Some 5, in_tx_order = Some 0,
     in_id = None, in_nullifier = None\<rparr>"

definition demo_exit_store :: mem_store where
  "demo_exit_store = new_store\<lparr>faucets := [demo_faucet 4 [1, 2, 3]]\<rparr>"

theorem bridge_event_is_earned_witness:
  "\<exists>l. mset (all_logs (snd (project_b2agg_note demo_ext demo_api demo_notes demo_recovery demo_exit 21 8 77 5 0 ''0x7''
       demo_exit_store))) = {#l#} \<and> log_block_number l = 5"
proof -
  let ?p = "project_b2agg_note demo_ext demo_api demo_notes demo_recovery demo_exit 21 8 77 5 0 ''0x7'' demo_exit_store"
  have scale: "reverse_scale_amount 100 10 = Inr 1000000000000"
    by (simp add: reverse_scale_amount_def checked_pow_def checked_mul_def)
  have "fst ?p = Inr B2Emitted"
    by (simp add: project_b2agg_note_def project_reserved_b2agg_def emit_b2agg_def is_b2agg_note_def demo_exit_def
        demo_notes_def demo_exit_store_def classify_b2agg_consumer_def askS_def bindE_def tryS_def is_note_processed_def
        reserve_deposit_index_def u32_try_from_def checked_add_def Let_def parse_of_layout resolve_faucet_origin_def
        get_faucet_by_id_def demo_faucet_def scale emit_metadata_of_def recover_bridge_out_metadata_def
        MAX_BRIDGE_EVENT_METADATA_BYTES_def commit_b2agg_event_atomic_def)
  then show ?thesis
    using bridge_event_is_earned [OF surjective_pairing, of demo_ext demo_api demo_notes demo_recovery demo_exit 21 8 77 5 0
        "''0x7''" demo_exit_store]
    by (auto simp: owed_event_def demo_exit_store_def all_logs_def)
qed

text \<open>
  C7. A claim event always has its calldata. Projecting a consumed claim note emits an event only for
  a note that is provably ours, whose storage decodes, and whose global index has no event yet. The
  event rides a transaction whose row exists and is settled as successful at that block; where the
  row had to be synthesised, its input is the \<^verbatim>\<open>claimAsset\<close> call rebuilt from the note, with metadata that
  hashes to the note's commitment. Every other outcome, errors included, leaves the logs alone.
\<close>

theorem claim_event_rides_calldata:
  assumes "lru_ok E" and "hex_ok E" and "hex_bytewise E"
    and "project_claim_parts E N key root storage metadata consumer target sender bridge block bh ba now s = (r, s')"
  shows "if r = Inr ClaimEmitted
         then root = na_claim_root N \<and> classify_claim_note consumer metadata target sender bridge = Ours \<and>
              (\<exists>d l txh h row.
                 parse_claim_event_from_storage storage = Inr d \<and>
                 \<not> has_claim_event_for_global_index E (dc_global_index d) s \<and>
                 mset (all_logs s') = add_mset l (mset (all_logs s)) \<and>
                 claim_log_for E (dc_global_index d) l \<and> log_transaction_hash l = to_lowercase txh \<and>
                 log_block_number l = block \<and> ext_parse_hash E txh = Some h \<and>
                 hm_get (transactions s') h = Some row \<and> tr_result row = Some (Inr ()) \<and> tr_block_num row = block \<and>
                 (hm_get (transactions s) h = None \<longrightarrow>
                    (\<exists>tx. tr_envelope row = Legacy tx \<and> recovered_calldata E N storage (stx_input tx))))
         else all_logs s' = all_logs s"
proof (cases "root = na_claim_root N \<and> classify_claim_note consumer metadata target sender bridge = Ours")
  case False
  then have "root \<noteq> na_claim_root N \<or> classify_claim_note consumer metadata target sender bridge = Foreign"
    using claim_note_verdict.exhaust by blast
  then have "r \<noteq> Inr ClaimEmitted \<and> s' = s"
    using assms(4) by (cases "root = na_claim_root N") (auto simp: project_claim_parts_def)
  then show ?thesis by simp
next
  case ours: True
  obtain ob s1 where s1: "confirm_note_handoff_by_commitment E key s = (ob, s1)" by fastforce
  note frame = confirm_commitment_frame [OF s1]
  have has: "has_claim_event_for_global_index E g s1 = has_claim_event_for_global_index E g s" for g
    by (simp add: has_claim_event_iff frame)
  show ?thesis
  proof (cases "\<exists>d. parse_claim_event_from_storage storage = Inr d \<and> \<not> is_claim_note_processed key s1 \<and>
      \<not> has_claim_event_for_global_index E (dc_global_index d) s1")
    case False
    consider (processed) "is_claim_note_processed key s1"
      | (garbled) e where "\<not> is_claim_note_processed key s1" "parse_claim_event_from_storage storage = Inl e"
      | (recorded) d where "\<not> is_claim_note_processed key s1" "parse_claim_event_from_storage storage = Inr d"
          "has_claim_event_for_global_index E (dc_global_index d) s1"
      using False by (cases "parse_claim_event_from_storage storage") auto
    then have "r \<noteq> Inr ClaimEmitted \<and> all_logs s' = all_logs s1"
      using assms(4) ours s1
      by cases (auto simp: project_claim_parts_def bindE_def runS_def askS_def doS_def mark_claim_note_processed_def
          all_logs_def)
    then show ?thesis by (simp add: frame)
  next
    case True
    then obtain d where d: "parse_claim_event_from_storage storage = Inr d" "\<not> is_claim_note_processed key s1"
      "\<not> has_claim_event_for_global_index E (dc_global_index d) s1" by blast
    define txh where "txh = event_tx_hash ob key (derive_manual_claim_tx_hash E key) s1"
    have p: "publish_claim_event E N key storage d txh block bh ba now s1 = (r, s')"
      using assms(4) ours s1 d unfolding txh_def
      by (simp add: project_claim_parts_def bindE_def runS_def askS_def)
    obtain q s2 where q: "insert_pending_claim_calldata E N storage txh s1 = (q, s2)" by fastforce
    note row = calldata_outcome [OF assms(1) q]
    from row obtain c where s2: "s2 = s1\<lparr>transactions := c\<rparr>" by blast
    show ?thesis
    proof (cases "q = Inr True")
      case False
      then have "r \<noteq> Inr ClaimEmitted \<and> s' = s2"
        using p q by (cases q) (auto simp: publish_claim_event_def bindE_def)
      then show ?thesis by (simp add: s2 all_logs_def frame(1) [unfolded all_logs_def])
    next
      case True
      have r: "r = Inr ClaimEmitted" and s': "s' = commit_manual_claim_event_atomic E key ba block bh txh
          (dc_global_index d) (dc_origin_network d) (dc_origin_address d) (dc_destination_address d) (dc_amount d) now s2"
        using p q True by (auto simp: publish_claim_event_def bindE_def doS_def)
      let ?l = "\<lparr>log_address = ba, log_topics = [CLAIM_EVENT_TOPIC],
          log_data = encode_claim_event_data_u64 E (dc_global_index d) (dc_origin_network d) (dc_origin_address d)
            (dc_destination_address d) (dc_amount d), log_block_number = block, log_block_hash = bh,
          log_transaction_hash = to_lowercase txh, log_transaction_index = 0, log_log_index = log_counter s2,
          log_removed = False\<rparr>"
      have cl: "claim_log_for E (dc_global_index d) ?l"
        using claim_log_for_encoded [OF assms(2,3), of ?l] by (simp add: first_topic_def)
      have logs: "mset (all_logs s') = add_mset ?l (mset (all_logs s))"
        using d(2) unfolding s' commit_manual_claim_event_atomic_def Let_def is_claim_note_processed_def
        by (simp add: s2 mset_all_logs_insert) (simp add: all_logs_def frame(1) [unfolded all_logs_def])
      from row True obtain h row where h: "ext_parse_hash E txh = Some h" "hm_get (transactions s2) h = Some row"
        and env: "hm_get (transactions s1) h = None \<longrightarrow>
          (\<exists>tx. tr_envelope row = Legacy tx \<and> recovered_calldata E N storage (stx_input tx))" by auto
      have "hm_get (transactions s') h = Some (settle_success block row)"
        unfolding s' by (simp add: settle_receipt_def h)
      then show ?thesis
        using ours d(1,3) cl logs h(1) env unfolding r has frame(3)
        by (simp add: settle_success_def) (intro exI [of _ ?l] conjI exI [of _ txh]; simp)
    qed
  qed
qed

definition demo_claim_storage :: claim_note_storage where
  "demo_claim_storage =
     \<lparr>cs_proof_data = \<lparr>pd_smt_proof_local = replicate 32 0, pd_smt_proof_rollup = replicate 32 0, pd_global_index = 5,
        pd_mainnet_exit_root = 1, pd_rollup_exit_root = 2\<rparr>,
      cs_leaf_data = \<lparr>lf_origin_network = 0, lf_origin_token_address = 3, lf_destination_network = 77,
        lf_destination_address = 9, lf_amount = 100, lf_metadata_hash = 1\<rparr>,
      cs_miden_claim_amount = 100\<rparr>"

theorem claim_event_rides_calldata_witness:
  "\<exists>l h. mset (all_logs (snd (project_claim_parts demo_ext demo_notes ''aa'' 2 (claim_storage_layout demo_claim_storage)
       None (Some 8) None 6 8 5 0 ''0x7'' 1 new_store))) = {#l#} \<and> claim_log_for demo_ext 5 l \<and>
     (\<exists>row. hm_get (transactions (snd (project_claim_parts demo_ext demo_notes ''aa'' 2
        (claim_storage_layout demo_claim_storage) None (Some 8) None 6 8 5 0 ''0x7'' 1 new_store))) h = Some row)"
proof -
  let ?st = "claim_storage_layout demo_claim_storage"
  let ?p = "project_claim_parts demo_ext demo_notes ''aa'' 2 ?st None (Some 8) None 6 8 5 0 ''0x7'' 1 new_store"
  have ok: "proofs_ok demo_claim_storage" by (simp add: proofs_ok_def demo_claim_storage_def)
  have fields: "lf_amount (cs_leaf_data demo_claim_storage) = 100" "lf_metadata_hash (cs_leaf_data demo_claim_storage) = 1"
    by (simp_all add: demo_claim_storage_def)
  note parsed = claim_layout_decodes [OF ok]
  have keccak: "ext_keccak demo_ext [] = 1" by (simp add: demo_ext_def)
  obtain h where h: "ext_parse_hash demo_ext (derive_manual_claim_tx_hash demo_ext ''aa'') = Some h"
    using plain_hash_text_back by (simp add: derive_manual_claim_tx_hash_def demo_ext_def plain_hash_text_def)
  have gi: "dc_global_index d = 5" if "parse_claim_event_from_storage ?st = Inr d" for d
    using that parsed(2) by (auto simp: demo_claim_storage_def)
  have "fst ?p = Inr ClaimEmitted"
    by (simp add: project_claim_parts_def publish_claim_event_def insert_pending_claim_calldata_def
        build_synthetic_claim_envelope_def resolve_claim_metadata_def parsed fields demo_notes_def
        classify_claim_note_def confirm_note_handoff_by_commitment_def is_claim_note_processed_def
        has_claim_event_for_global_index_def event_tx_hash_def get_tx_for_note_def txn_get_def txn_begin_if_absent_def
        bindE_def runS_def askS_def doS_def tryS_def h keccak)
  moreover have "all_logs new_store = []" by (simp add: all_logs_def)
  ultimately show ?thesis
    using claim_event_rides_calldata [OF demo_lru demo_hex demo_hex_bytewise surjective_pairing, of demo_notes "''aa''" 2 ?st
        None "Some 8" None 6 8 5 0 "''0x7''" 1 new_store]
    by simp (metis gi)
qed

text \<open>
  C18. An exit root is projected only with provenance, and once. A consumed note becomes an injected
  root only when its script is the update script, its sender and its target are the configured
  accounts, every limb of its storage fits, and the root is not injected yet; the injected set
  then grows by exactly that root and no later projection of a note carrying it emits again. Every
  other outcome leaves the injected set, the hash chain and the logs alone.
\<close>

theorem exit_root_needs_provenance:
  assumes "project_ger_note E N note om sender bridge block bh ts s = (r, s')"
  shows "if r = Inr GerEmitted
         then in_script_root note = na_ger_root N \<and>
              effective_metadata om note = Some sender \<and> in_target note = Some bridge \<and>
              (\<exists>ger. ger_bytes_from_storage (in_storage note) = Inr ger \<and> \<not> is_ger_injected ger s \<and>
                 injected_gers s' = insert ger (injected_gers s)) \<and>
              (\<forall>om' block' bh' ts'. fst (project_ger_note E N note om' sender bridge block' bh' ts' s') = Inr GerSkipped)
         else injected_gers s' = injected_gers s \<and> hash_chain_value s' = hash_chain_value s \<and> all_logs s' = all_logs s"
proof (cases "in_script_root note = na_ger_root N \<and>
    classify_ger_note (effective_metadata om note) (in_target note) sender bridge = GerAccept")
  case False
  then have "r \<noteq> Inr GerEmitted \<and> s' = s"
    using assms by (cases "in_script_root note = na_ger_root N") (auto simp: project_ger_note_def)
  then show ?thesis by simp
next
  case True
  let ?c = "commitment_hex E note"
  obtain ob s1 where s1: "confirm_note_handoff_by_commitment E ?c s = (ob, s1)" by fastforce
  note frame = confirm_commitment_frame [OF s1]
  have accept: "effective_metadata om note = Some sender" "in_target note = Some bridge"
    using True by (auto simp: classify_ger_note_def split: option.splits if_splits)
  consider (short) "length (in_storage note) < na_ger_items N"
    | (limb) i where "\<not> length (in_storage note) < na_ger_items N" "ger_bytes_from_storage (in_storage note) = Inl i"
    | (known) g where "\<not> length (in_storage note) < na_ger_items N" "ger_bytes_from_storage (in_storage note) = Inr g"
        "is_ger_injected g s1"
    | (fresh) g where "\<not> length (in_storage note) < na_ger_items N" "ger_bytes_from_storage (in_storage note) = Inr g"
        "\<not> is_ger_injected g s1"
    by (cases "ger_bytes_from_storage (in_storage note)") auto
  then show ?thesis
  proof cases
    case fresh
    define txh where "txh = event_tx_hash ob ?c (derive_ger_tx_hash E ?c) s1"
    have r: "r = Inr GerEmitted" "s' = commit_ger_event_atomic E block bh txh g None None ts s1"
      using assms True s1 fresh unfolding txh_def
      by (auto simp: project_ger_note_def Let_def bindE_def runS_def askS_def doS_def)
    then have "is_ger_injected g s'" by (simp add: is_ger_injected_def)
    then have "fst (project_ger_note E N note om' sender bridge block' bh' ts' s') = Inr GerSkipped" for om' block' bh' ts'
      using fresh(2) confirm_commitment_frame(5)
      by (fastforce simp: project_ger_note_def Let_def bindE_def runS_def askS_def doS_def is_ger_injected_def
          split: prod.splits)
    with True accept r fresh show ?thesis by (simp add: is_ger_injected_def frame)
  qed (use assms True s1 frame in \<open>auto simp: project_ger_note_def Let_def bindE_def runS_def askS_def\<close>)
qed

theorem exit_root_needs_provenance_witness:
  "injected_gers (snd (project_ger_note demo_ext demo_notes (demo_exit\<lparr>in_script_root := 3, in_storage := packed (be_bytes 32 (44 :: b256)),
     in_metadata := Some 6, in_target := Some 8\<rparr>) [] 6 8 5 0 0 new_store)) = {44}"
proof -
  let ?n = "demo_exit\<lparr>in_script_root := 3, in_storage := packed (be_bytes 32 (44 :: b256)), in_metadata := Some 6, in_target := Some 8\<rparr>"
  let ?p = "project_ger_note demo_ext demo_notes ?n [] 6 8 5 0 0 new_store"
  have g: "ger_bytes_from_storage (packed (be_bytes 32 (44 :: b256))) = Inr 44"
    using ger_limbs_packed [of "be_bytes 32 (44 :: b256)" 8 0]
    by (simp add: ger_bytes_from_storage_def from_be_bytes_be_bytes)
  have "fst ?p = Inr GerEmitted"
    by (simp add: project_ger_note_def demo_notes_def effective_metadata_def classify_ger_note_def g Let_def
        confirm_note_handoff_by_commitment_def is_ger_injected_def bindE_def runS_def askS_def doS_def)
  then show ?thesis
    using exit_root_needs_provenance [OF surjective_pairing, of demo_ext demo_notes ?n "[]" 6 8 5 0 0 new_store] g by simp
qed

end
