(* ===== verification/Execution_Order.thy ===== *)
theory Execution_Order
  imports Note_Decode
begin

text \<open>
  The order in which the bridge account executed its transactions (\<^verbatim>\<open>ordered_account_transactions\<close> of
  \<^verbatim>\<open>src/src/miden_client.rs\<close>) and the attribution of consumed notes read from it
  (\<^verbatim>\<open>bridge_consumed_nullifiers\<close> of \<^verbatim>\<open>src/src/synthetic_projector.rs\<close>). Leaf indices follow this order, so an
  incomplete or ambiguous chain is an error.
\<close>

section \<open>Transactions\<close>

record tx_input =
  ti_nullifier :: b256
  ti_note_id :: "b256 option"

record tx_record =
  tx_account :: account_id
  tx_block :: u64
  tx_initial :: b256
  tx_final :: b256
  tx_inputs :: "tx_input list"

datatype order_error =
    DuplicateInitialState u64
  | ChainHeads u64 nat
  | DisconnectedChain u64

section \<open>The execution chain of one block\<close>

fun index_initial :: "u64 \<Rightarrow> tx_record list \<Rightarrow> (b256, tx_record) hashmap \<Rightarrow> order_error + (b256, tx_record) hashmap" where
  "index_initial block [] m = Inr m"
| "index_initial block (t # ts) m =
     (if hm_contains m (tx_initial t) then Inl (DuplicateInitialState block)
      else index_initial block ts (hm_insert (tx_initial t) t m))"

fun walk_chain ::
    "u64 \<Rightarrow> nat \<Rightarrow> nat \<Rightarrow> b256 \<Rightarrow> (b256, tx_record) hashmap \<Rightarrow> order_error + (u64 \<times> u32 \<times> tx_record) list" where
  "walk_chain block order 0 state m = Inr []"
| "walk_chain block order (Suc n) state m =
     (case hm_get m state of
        None \<Rightarrow> Inl (DisconnectedChain block)
      | Some t \<Rightarrow>
          bindS (walk_chain block (Suc order) n (tx_final t) (hm_remove state m)) (\<lambda>rest.
          Inr ((block, of_nat order, t) # rest)))"

definition order_block :: "u64 \<Rightarrow> tx_record list \<Rightarrow> order_error + (u64 \<times> u32 \<times> tx_record) list" where
  "order_block block txs =
     (case txs of
        [t] \<Rightarrow> Inr [(block, 0, t)]
      | _ \<Rightarrow>
          bindS (index_initial block txs []) (\<lambda>by_initial.
          case filter (\<lambda>initial. initial \<notin> set (map tx_final txs)) (sort (hm_keys by_initial)) of
            [first] \<Rightarrow> walk_chain block 0 (length txs) first by_initial
          | heads \<Rightarrow> Inl (ChainHeads block (length heads))))"

definition ordered_account_transactions ::
    "tx_record list \<Rightarrow> account_id \<Rightarrow> order_error + (u64 \<times> u32 \<times> tx_record) list" where
  "ordered_account_transactions txs account =
     (let mine = filter (\<lambda>t. tx_account t = account) txs
      in bindS (mapS (\<lambda>block. order_block block (filter (\<lambda>t. tx_block t = block) mine))
                  (sort (remdups (map tx_block mine)))) (\<lambda>groups.
         Inr (concat groups)))"

section \<open>Consumed notes\<close>

record consumed_ref =
  cr_block :: u64
  cr_order :: u32
  cr_note_id :: "b256 option"
  cr_within_tx_pos :: u32

definition bridge_consumed_nullifiers :: "tx_record list \<Rightarrow> account_id \<Rightarrow> order_error + (b256, consumed_ref) hashmap" where
  "bridge_consumed_nullifiers txs bridge_id =
     bindS (ordered_account_transactions txs bridge_id) (\<lambda>ordered.
     Inr (fold (\<lambda>(block, order, t) out.
            fold (\<lambda>(pos, input) out.
                    hm_insert (ti_nullifier input)
                      \<lparr>cr_block = block, cr_order = order, cr_note_id = ti_note_id input, cr_within_tx_pos = of_nat pos\<rparr> out)
                 (enumerate 0 (tx_inputs t)) out)
          ordered []))"

section \<open>Lemmas\<close>

lemma index_initial_get:
  "index_initial b ts m = Inr m' \<Longrightarrow>
     hm_get m' k = (case find (\<lambda>t. tx_initial t = k) ts of None \<Rightarrow> hm_get m k | Some t \<Rightarrow> Some t) \<and>
     distinct (map tx_initial ts) \<and> (hm_wf m \<longrightarrow> hm_wf m') \<and> (\<forall>t \<in> set ts. hm_get m (tx_initial t) = None)"
proof (induction ts arbitrary: m)
  case (Cons t ts)
  from Cons.prems have n: "hm_get m (tx_initial t) = None"
    and i: "index_initial b ts (hm_insert (tx_initial t) t m) = Inr m'" by (auto split: if_splits)
  note IH = Cons.IH [OF i]
  have absent: "hm_get (hm_insert (tx_initial t) t m) (tx_initial u) = None" if "u \<in> set ts" for u
    using IH that by blast
  have ne: "tx_initial u \<noteq> tx_initial t" and old: "hm_get m (tx_initial u) = None" if "u \<in> set ts" for u
    using absent [OF that] by (simp_all split: if_splits)
  have d: "distinct (map tx_initial (t # ts))" using IH ne by fastforce
  have "find (\<lambda>u. tx_initial u = k) ts = None" if "k = tx_initial t"
    using ne that by (auto simp: find_None_iff)
  then have "hm_get m' k = (case find (\<lambda>t. tx_initial t = k) (t # ts) of None \<Rightarrow> hm_get m k | Some t \<Rightarrow> Some t)"
    using IH [THEN conjunct1] by (cases "k = tx_initial t") (simp_all split: option.split)
  moreover have "hm_wf m \<longrightarrow> hm_wf m'" using IH by simp
  ultimately show ?case using d old n by simp
qed simp

lemma index_initial_ok:
  "distinct (map tx_initial ts) \<Longrightarrow> (\<And>t. t \<in> set ts \<Longrightarrow> hm_get m (tx_initial t) = None) \<Longrightarrow>
     \<exists>m'. index_initial b ts m = Inr m'"
proof (induction ts arbitrary: m)
  case (Cons t ts)
  have "\<exists>m'. index_initial b ts (hm_insert (tx_initial t) t m) = Inr m'"
    using Cons.prems by (intro Cons.IH) (auto simp: image_iff)
  then show ?case using Cons.prems(2) [of t] by simp
qed simp

lemma index_initial_mset:
  "index_initial b ts m = Inr m' \<Longrightarrow> mset (map snd m') = mset (map snd m) + mset ts \<and>
     mset (hm_keys m') = mset (hm_keys m) + mset (map tx_initial ts)"
proof (induction ts arbitrary: m)
  case (Cons t ts)
  from Cons.prems have n: "hm_get m (tx_initial t) = None"
    and i: "index_initial b ts (hm_insert (tx_initial t) t m) = Inr m'" by (auto split: if_splits)
  have "hm_insert (tx_initial t) t m = m @ [(tx_initial t, t)]"
    using n by (induction m) (auto simp: hm_get_def hm_insert_def split: if_splits)
  with Cons.IH [OF i] show ?case by (simp add: hm_keys_def)
qed simp

text \<open>The walk depends on the index as a map only.\<close>

lemma walk_chain_cong:
  "hm_get m = hm_get m' \<Longrightarrow> walk_chain b k n x m = walk_chain b k n x m'"
proof (induction n arbitrary: k x m m')
  case (Suc n)
  have "hm_get (hm_remove x m) = hm_get (hm_remove x m')" using Suc.prems by (simp add: fun_eq_iff)
  then have "walk_chain b (Suc k) n y (hm_remove x m) = walk_chain b (Suc k) n y (hm_remove x m')" for y
    by (rule Suc.IH)
  with Suc.prems show ?case by (simp split: option.split)
qed simp

lemma hm_remove_values:
  "hm_wf m \<Longrightarrow> hm_get m k = Some v \<Longrightarrow> mset (map snd m) = add_mset v (mset (map snd (hm_remove k m)))"
proof (induction m)
  case (Cons p m)
  obtain k' v' where p: "p = (k', v')" by (cases p)
  have wf: "hm_wf m" "hm_get m k' = None" using Cons.prems(1) p by (simp_all add: hm_wf_Cons)
  show ?case
  proof (cases "k' = k")
    case True
    have "hm_remove k m = m"
      using wf(2) True by (simp add: hm_get_def hm_remove_def delete_id map_of_eq_None_iff)
    with True p Cons.prems(2) show ?thesis by (simp add: hm_get_Cons hm_remove_def)
  next
    case False
    then have "hm_get m k = Some v" using p Cons.prems(2) by (simp add: hm_get_Cons)
    with Cons.IH [OF wf(1)] False p show ?thesis by (simp add: hm_remove_def)
  qed
qed simp

definition follows :: "u64 \<times> u32 \<times> tx_record \<Rightarrow> u64 \<times> u32 \<times> tx_record \<Rightarrow> bool" where
  "follows = (\<lambda>(b, k, t) (b', k', t'). if b = b' then k' = k + 1 \<and> tx_final t = tx_initial t' else b < b' \<and> k' = 0)"

lemma walk_chain_sound:
  "walk_chain b k n x m = Inr out \<Longrightarrow> hm_wf m \<Longrightarrow> length m = n \<Longrightarrow> (\<And>y t. hm_get m y = Some t \<Longrightarrow> tx_initial t = y) \<Longrightarrow>
     mset (map (snd \<circ> snd) out) = mset (map snd m) \<and> successively follows out \<and>
     (\<forall>e \<in> set out. fst e = b) \<and>
     (out \<noteq> [] \<longrightarrow> fst (snd (hd out)) = of_nat k \<and> tx_initial (snd (snd (hd out))) = x)"
proof (induction n arbitrary: k x m out)
  case (Suc n)
  from Suc.prems(1) obtain t rest where t: "hm_get m x = Some t" and out: "out = (b, of_nat k, t) # rest"
    and rest: "walk_chain b (Suc k) n (tx_final t) (hm_remove x m) = Inr rest"
    by (auto simp: bindS_Inr_iff split: option.splits)
  note vals = hm_remove_values [OF Suc.prems(2) t]
  have "length (hm_remove x m) = n" using arg_cong [OF vals, of size] Suc.prems(3) by simp
  moreover have "tx_initial t' = y" if "hm_get (hm_remove x m) y = Some t'" for y t'
    using that Suc.prems(4) by (auto split: if_splits)
  ultimately have IH: "mset (map (snd \<circ> snd) rest) = mset (map snd (hm_remove x m)) \<and> successively follows rest \<and>
      (\<forall>e \<in> set rest. fst e = b) \<and>
      (rest \<noteq> [] \<longrightarrow> fst (snd (hd rest)) = of_nat (Suc k) \<and> tx_initial (snd (snd (hd rest))) = tx_final t)"
    using Suc.prems(2) by (intro Suc.IH [OF rest]) auto
  then show ?case
    using vals Suc.prems(4) [OF t] by (cases rest) (auto simp: out follows_def comp_def)
qed simp

text \<open>A successful order of more than one transaction.\<close>

definition chain_heads :: "tx_record list \<Rightarrow> (b256, tx_record) hashmap \<Rightarrow> b256 list" where
  "chain_heads txs m = filter (\<lambda>i. i \<notin> set (map tx_final txs)) (sort (hm_keys m))"

lemma case_single_Inr:
  "(case hs of [] \<Rightarrow> Inl e | x # xs \<Rightarrow> (case xs of [] \<Rightarrow> f x | y # ys \<Rightarrow> Inl (g x y ys))) = Inr out \<longleftrightarrow>
     (\<exists>x. hs = [x] \<and> f x = Inr out)"
  by (cases hs; cases "tl hs") auto

lemma order_block_iff:
  assumes "length txs \<noteq> 1"
  shows "order_block b txs = Inr out \<longleftrightarrow>
           (\<exists>m x. index_initial b txs [] = Inr m \<and> chain_heads txs m = [x] \<and> walk_chain b 0 (length txs) x m = Inr out)"
proof -
  have "order_block b txs = bindS (index_initial b txs []) (\<lambda>m.
      case chain_heads txs m of [x] \<Rightarrow> walk_chain b 0 (length txs) x m | hs \<Rightarrow> Inl (ChainHeads b (length hs)))"
    unfolding order_block_def chain_heads_def using assms
    by (cases txs; cases "tl txs") (simp_all del: index_initial.simps walk_chain.simps)
  then show ?thesis by (simp only: bindS_Inr_iff case_single_Inr) blast
qed

lemma order_block_sound:
  assumes "order_block b txs = Inr out" and "txs \<noteq> []"
  shows "mset (map (snd \<circ> snd) out) = mset txs \<and> successively follows out \<and> out \<noteq> [] \<and>
         (\<forall>e \<in> set out. fst e = b) \<and> fst (snd (hd out)) = 0"
proof (cases "\<exists>t. txs = [t]")
  case True
  with assms(1) show ?thesis by (auto simp: order_block_def)
next
  case False
  then obtain t u ts where txs: "txs = t # u # ts" using assms(2) by (metis neq_Nil_conv)
  then have many: "length txs \<noteq> 1" by simp
  from assms(1) obtain m x where m: "index_initial b txs [] = Inr m" and w: "walk_chain b 0 (length txs) x m = Inr out"
    unfolding order_block_iff [OF many] by blast
  have wf: "hm_wf m" and get: "hm_get m k = find (\<lambda>t. tx_initial t = k) txs" for k
    using index_initial_get [OF m] by (auto split: option.splits)
  have vals: "mset (map snd m) = mset txs" using index_initial_mset [OF m] by simp
  have len: "length m = length txs" using arg_cong [OF vals, of size] by simp
  have "tx_initial t' = y" if "hm_get m y = Some t'" for y t'
    using that by (auto simp: get find_Some_iff)
  note snd = walk_chain_sound [OF w wf len this]
  then have "out \<noteq> []" using vals txs by auto
  with snd vals show ?thesis by simp
qed

lemma order_block_perm:
  assumes "mset txs = mset txs'" and "order_block b txs = Inr out"
  shows "order_block b txs' = Inr out"
proof (cases "\<exists>t. txs = [t]")
  case True
  with assms(1) have "txs' = txs" by (auto simp flip: mset_single_iff)
  with assms(2) show ?thesis by simp
next
  case False
  have len: "length txs' = length txs" using arg_cong [OF assms(1), of size] by simp
  have l1: "length txs \<noteq> 1" using False by (auto simp: length_Suc_conv)
  from assms(2) obtain m x where m: "index_initial b txs [] = Inr m" and x: "chain_heads txs m = [x]"
    and w: "walk_chain b 0 (length txs) x m = Inr out"
    unfolding order_block_iff [OF l1] by blast
  have d: "distinct (map tx_initial txs)" using index_initial_get [OF m] by blast
  then have d': "distinct (map tx_initial txs')"
    using assms(1) by (metis mset_eq_imp_distinct_iff mset_map)
  then obtain m' where m': "index_initial b txs' [] = Inr m'" using index_initial_ok [of txs' "[]" b] by auto
  have "find (\<lambda>t. tx_initial t = k) txs = find (\<lambda>t. tx_initial t = k) txs'" for k
  proof -
    have f: "find (\<lambda>t. tx_initial t = k) ts = map_of (map (\<lambda>t. (tx_initial t, t)) ts) k" for ts :: "tx_record list"
      by (induction ts) auto
    have "map_of (map (\<lambda>t. (tx_initial t, t)) txs) = map_of (map (\<lambda>t. (tx_initial t, t)) txs')"
      using d d' mset_eq_setD [OF assms(1)]
      by (subst map_of_inject_set) (simp_all add: comp_def)
    then show ?thesis unfolding f by (rule fun_cong)
  qed
  then have get: "hm_get m = hm_get m'"
    using index_initial_get [OF m] index_initial_get [OF m'] by (intro ext) (simp split: option.splits)
  have "sort (hm_keys m) = sort (hm_keys m')"
    using index_initial_mset [OF m] index_initial_mset [OF m'] assms(1)
    by (intro properties_for_sort) (simp_all add: mset_map)
  moreover have "set (map tx_final txs) = set (map tx_final txs')"
    using assms(1) by (metis mset_eq_setD set_map)
  ultimately have "chain_heads txs' m' = [x]" using x by (simp add: chain_heads_def)
  with m' w walk_chain_cong [OF get] len l1 show ?thesis by (simp add: order_block_iff)
qed

lemma mset_groups:
  "distinct bs \<Longrightarrow> mset (concat (map (\<lambda>b. filter (\<lambda>t. f t = b) xs) bs)) = filter_mset (\<lambda>t. f t \<in> set bs) (mset xs)"
proof (induction bs)
  case (Cons b bs)
  then have "filter_mset (\<lambda>t. f t = b) M + filter_mset (\<lambda>t. f t \<in> set bs) M = filter_mset (\<lambda>t. f t \<in> set (b # bs)) M" for M
    by (intro multiset_eqI) auto
  from this [of "mset xs"] Cons show ?case by simp
qed simp

lemma mapS_Inr_iff: "mapS f xs = Inr ys \<longleftrightarrow> length ys = length xs \<and> (\<forall>i < length xs. f (xs ! i) = Inr (ys ! i))"
proof (induction xs arbitrary: ys)
  case (Cons x xs)
  show ?case by (cases ys) (auto simp: bindS_Inr_iff Cons.IH nth_Cons' less_Suc_eq_0_disj)
qed auto

text \<open>Consecutive blocks: each group follows the one before it.\<close>

lemma successively_groups:
  assumes "sorted_wrt (<) bs" and "length gs = length bs"
    and "\<And>i. i < length bs \<Longrightarrow> successively follows (gs ! i) \<and> gs ! i \<noteq> [] \<and> (\<forall>e \<in> set (gs ! i). fst e = bs ! i) \<and>
           fst (snd (hd (gs ! i))) = 0"
  shows "successively follows (concat gs)"
  using assms
proof (induction bs arbitrary: gs)
  case (Cons b bs)
  obtain g gs' where gs: "gs = g # gs'" using Cons.prems(2) by (cases gs) auto
  have tail: "successively follows (gs' ! i) \<and> gs' ! i \<noteq> [] \<and> (\<forall>e \<in> set (gs' ! i). fst e = bs ! i) \<and>
      fst (snd (hd (gs' ! i))) = 0" if "i < length bs" for i
    using Cons.prems(3) [of "Suc i"] that gs by simp
  have IH: "successively follows (concat gs')"
    by (rule Cons.IH [OF _ _ tail]) (use Cons.prems gs in simp_all)
  have g: "successively follows g" "g \<noteq> []" "\<forall>e \<in> set g. fst e = b" using Cons.prems(3) [of 0] gs by auto
  have "follows (last g) (hd (concat gs'))" if "concat gs' \<noteq> []"
  proof -
    obtain h rest where gs': "gs' = h # rest" using \<open>concat gs' \<noteq> []\<close> by (cases gs') auto
    then obtain b' bs' where bs: "bs = b' # bs'" using Cons.prems(2) gs by (cases bs) auto
    have h: "h \<noteq> []" "\<forall>e \<in> set h. fst e = b'" "fst (snd (hd h)) = 0" using Cons.prems(3) [of 1] gs gs' bs by auto
    have "fst (last g) = b" "fst (hd h) = b'" using g h by simp_all
    moreover have "b < b'" using Cons.prems(1) bs by simp
    moreover have "hd (concat gs') = hd h" using h(1) by (simp add: gs')
    ultimately show ?thesis using h(3) by (cases "last g"; cases "hd h") (auto simp: follows_def)
  qed
  with IH g show ?case by (cases "concat gs' = []") (simp_all add: gs successively_append_iff del: concat_eq_Nil_conv)
qed simp

section \<open>Properties\<close>

text \<open>
  C19. The execution order is recovered from the chain of account states, whatever order the node
  answers in. When the ordering succeeds, the result holds exactly the account's transactions; blocks
  ascend, and within a block each transaction starts in the state the one before it left, with the
  next order number; and every permutation of the answer gives the same result.
\<close>

theorem execution_order_recovered:
  assumes "ordered_account_transactions txs account = Inr out"
  shows "mset (map (snd \<circ> snd) out) = mset (filter (\<lambda>t. tx_account t = account) txs) \<and> successively follows out \<and>
         (\<forall>txs'. mset txs' = mset txs \<longrightarrow> ordered_account_transactions txs' account = Inr out)"
proof -
  let ?mine = "\<lambda>txs. filter (\<lambda>t. tx_account t = account) txs"
  let ?bs = "\<lambda>txs. sort (remdups (map tx_block (?mine txs)))"
  let ?grp = "\<lambda>txs b. filter (\<lambda>t. tx_block t = b) (?mine txs)"
  obtain gs where gs: "mapS (\<lambda>b. order_block b (?grp txs b)) (?bs txs) = Inr gs" and out: "out = concat gs"
    using assms by (auto simp: ordered_account_transactions_def Let_def bindS_Inr_iff)
  have len: "length gs = length (?bs txs)" and each: "i < length (?bs txs) \<Longrightarrow> order_block (?bs txs ! i) (?grp txs (?bs txs ! i)) = Inr (gs ! i)" for i
    using gs unfolding mapS_Inr_iff by simp_all
  have ne: "?grp txs (?bs txs ! i) \<noteq> []" if "i < length (?bs txs)" for i
    using nth_mem [OF that] by (auto simp: filter_empty_conv)
  note sound = order_block_sound [OF each ne]
  have "mset (map (snd \<circ> snd) out) = mset (concat (map (?grp txs) (?bs txs)))"
  proof -
    have "map (\<lambda>g. mset (map (snd \<circ> snd) g)) gs = map (\<lambda>b. mset (?grp txs b)) (?bs txs)"
      using sound len by (intro nth_equalityI) simp_all
    then have "sum_list (map (\<lambda>g. mset (map (snd \<circ> snd) g)) gs) = sum_list (map (\<lambda>b. mset (?grp txs b)) (?bs txs))"
      by (rule arg_cong)
    then show ?thesis by (simp add: out map_concat mset_concat comp_def)
  qed
  also have "\<dots> = mset (?mine txs)"
  proof -
    have "filter_mset (\<lambda>t. tx_block t \<in> set (?bs txs)) (mset (?mine txs)) = mset (?mine txs)"
      by (intro filter_mset_eq_conv [THEN iffD2]) auto
    then show ?thesis by (subst mset_groups) simp_all
  qed
  finally have 1: "mset (map (snd \<circ> snd) out) = mset (?mine txs)" .
  have "sorted_wrt (<) (?bs txs)" by (simp add: strict_sorted_iff)
  then have 2: "successively follows out"
    unfolding out by (rule successively_groups [OF _ len]) (use sound in blast)
  have "ordered_account_transactions txs' account = Inr out" if "mset txs' = mset txs" for txs'
  proof -
    have perm: "mset (?mine txs') = mset (?mine txs)" using that by (simp add: mset_filter)
    then have "set (?mine txs') = set (?mine txs)" by (rule mset_eq_setD)
    then have bs: "?bs txs' = ?bs txs" by (intro sorted_distinct_set_unique) (simp_all only: sorted_sort distinct_sort
          distinct_remdups set_sort set_remdups set_map)
    have "order_block b (?grp txs' b) = Inr g" if "order_block b (?grp txs b) = Inr g" for b g
      by (rule order_block_perm [OF _ that]) (use perm in \<open>simp only: mset_filter\<close>)
    then have "mapS (\<lambda>b. order_block b (?grp txs' b)) (?bs txs') = Inr gs"
      using gs unfolding bs mapS_Inr_iff by simp
    then show ?thesis by (simp add: ordered_account_transactions_def Let_def out)
  qed
  with 1 2 show ?thesis by blast
qed

definition demo_chain :: "tx_record list" where
  "demo_chain = [\<lparr>tx_account = 8, tx_block = 5, tx_initial = 2, tx_final = 3, tx_inputs = []\<rparr>,
     \<lparr>tx_account = 8, tx_block = 5, tx_initial = 1, tx_final = 2, tx_inputs = []\<rparr>]"

theorem execution_order_recovered_witness:
  "ordered_account_transactions (rev demo_chain) 8 = ordered_account_transactions demo_chain 8 \<and>
   ordered_account_transactions demo_chain 8 = Inr [(5, 0, demo_chain ! 1), (5, 1, demo_chain ! 0)]"
proof -
  have o: "ordered_account_transactions demo_chain 8 = Inr [(5, 0, demo_chain ! 1), (5, 1, demo_chain ! 0)]"
    by (simp add: ordered_account_transactions_def order_block_def demo_chain_def Let_def hm_keys_def hm_insert_def
        hm_get_def hm_remove_def)
  with execution_order_recovered [OF o] show ?thesis by simp
qed

end
