(* ===== verification/Reconciler.thy ===== *)
theory Reconciler
  imports Bridge_Ledger Execution_Order Admission "HOL-Library.Option_ord"
begin

text \<open>
  The part of \<^verbatim>\<open>src/src/synthetic_projector.rs\<close> that runs before a tick projects blocks: the sweep of the
  node's note feed that makes every bridge-out visible, the settling of pending duplicates, the
  repair of claim calldata and the completeness audit. A tick runs alone; what the node and the
  client answer in it is the record \<open>node_view\<close>.
\<close>

section \<open>The projector\<close>

record projector =
  pj_store :: mem_store
  pj_block_state :: block_state
  pj_cursor :: u64
  pj_reconcile_cursor :: u64
  pj_pending_duplicate_cursor :: "tx_hash option"
  pj_audit_resolved :: "(b256 \<times> u64 \<times> u32) set"
  pj_audit_ticks :: u64
  pj_calldata_resolved :: "b256 set"

record projector_config =
  pc_bridge_id :: account_id
  pc_local_network_id :: u32
  pc_expected_ger_sender :: account_id
  pc_expected_claim_sender :: account_id
  pc_bridge_address :: string
  pc_reconcile_chunk :: u64
  pc_reconcile_concurrency :: nat

datatype import_result = Imported | PrivateNote | ImportFailed

text \<open>A note by id: its nullifier and body when it is public.\<close>

record fetched_note =
  fn_id :: b256
  fn_public :: "(b256 \<times> input_note) option"

text \<open>
  The answers of one tick; \<open>None\<close> is a failed call. \<open>nv_batches\<close> is how many batches of windows still
  start within the time budget after the first.
\<close>

record node_view =
  nv_sync_height :: "u32 option"
  nv_sync_note_ids :: "u64 \<Rightarrow> u64 \<Rightarrow> b256 list option"
  nv_batches :: nat
  nv_known_notes :: "b256 list \<Rightarrow> input_note list option"
  nv_import_notes :: "b256 list \<Rightarrow> import_result"
  nv_import_note :: "b256 \<Rightarrow> import_result"
  nv_visible_notes :: "b256 list \<Rightarrow> input_note list option"
  nv_notes_by_id :: "b256 list \<Rightarrow> fetched_note list option"
  nv_consumed :: "input_note list option"
  nv_output_notes :: "(b256 \<times> account_id) list option"
  nv_transactions :: "u32 \<Rightarrow> u32 \<Rightarrow> tx_record list option"
  nv_bridge_leaves :: "u64 option option"
  nv_recovery :: recovery
  nv_miden :: miden_view
  nv_now :: time

datatype tick_error =
    TkProjection projection_error
  | TkStore store_error
  | TkNode
  | TkOrder order_error
  | TkDecode admission_error
  | TkApplied applied_error
  | IncompleteNotes
  | OmittedNote b256
  | MissingNoteId
  | UnorderedSiblings
  | UnemittedReservation u32 string
  | NoBridgeAccount
  | LetPrefix
  | LetUnderflow
  | LetIndexTooLarge
  | LetOrder string
  | LetOverflow
  | LetCardinality u64 u64

definition in_store :: "(mem_store, projection_error, 'a) handler \<Rightarrow> (projector, tick_error, 'a) handler" where
  "in_store m p =
     (case m (pj_store p) of
        (Inl e, s) \<Rightarrow> (Inl (TkProjection e), p\<lparr>pj_store := s\<rparr>)
      | (Inr x, s) \<Rightarrow> (Inr x, p\<lparr>pj_store := s\<rparr>))"

definition write_pj :: "(mem_store \<Rightarrow> mem_store) \<Rightarrow> (projector, tick_error, unit) handler" where
  "write_pj f p = (Inr (), p\<lparr>pj_store := f (pj_store p)\<rparr>)"

definition read_pj :: "(projector \<Rightarrow> 'a) \<Rightarrow> (projector, tick_error, 'a) handler" where
  "read_pj f p = (Inr (f p), p)"

definition modify_pj :: "(projector \<Rightarrow> projector) \<Rightarrow> (projector, tick_error, unit) handler" where
  "modify_pj f p = (Inr (), f p)"

definition need :: "tick_error \<Rightarrow> 'a option \<Rightarrow> (projector, tick_error, 'a) handler" where
  "need e x = (case x of None \<Rightarrow> errE e | Some y \<Rightarrow> okE y)"

text \<open>An error that is logged; what was done before it stays done.\<close>

definition tolerate :: "(projector, tick_error, 'a) handler \<Rightarrow> (projector, tick_error, unit) handler" where
  "tolerate m p = (Inr (), snd (m p))"

primrec forE :: "('a \<Rightarrow> ('s, 'e, unit) handler) \<Rightarrow> 'a list \<Rightarrow> ('s, 'e, unit) handler" where
  "forE f [] = okE ()"
| "forE f (x # xs) = bindE (f x) (\<lambda>_. forE f xs)"

section \<open>The sweep windows\<close>

definition next_reconcile_window :: "u64 \<Rightarrow> u64 \<Rightarrow> u64 \<Rightarrow> (u64 \<times> u64) option" where
  "next_reconcile_window chunk cursor tip =
     (let from = cursor + 1
      in if tip < from then None else Some (from, min (from + chunk - 1) tip))"

text \<open>The loop after its first push; it ends when this many more windows were pushed.\<close>

fun extend_windows :: "u64 \<Rightarrow> u64 \<Rightarrow> nat \<Rightarrow> u64 \<Rightarrow> (u64 \<times> u64) list" where
  "extend_windows chunk tip 0 to = []"
| "extend_windows chunk tip (Suc n) to =
     (if tip \<le> to then []
      else let from = to + 1; to' = min (from + chunk - 1) tip
           in (from, to') # extend_windows chunk tip n to')"

definition plan_reconcile_windows :: "u64 \<Rightarrow> nat \<Rightarrow> u64 \<Rightarrow> u64 \<Rightarrow> (u64 \<times> u64) list" where
  "plan_reconcile_windows chunk concurrency cursor tip =
     (case next_reconcile_window chunk cursor tip of
        None \<Rightarrow> []
      | Some (from, to) \<Rightarrow> (from, to) # extend_windows chunk tip (concurrency - 1) to)"

section \<open>Importing a window\<close>

definition ensure_complete_note_response :: "b256 list \<Rightarrow> b256 list \<Rightarrow> (projector, tick_error, unit) handler" where
  "ensure_complete_note_response requested returned =
     (if length returned \<noteq> length requested \<or> set returned \<noteq> set requested then errE IncompleteNotes else okE ())"

text \<open>Note by note when the batch holds a private one; a private note is skipped.\<close>

primrec import_each :: "node_view \<Rightarrow> b256 list \<Rightarrow> (projector, tick_error, unit) handler" where
  "import_each V [] = okE ()"
| "import_each V (i # is) =
     (case nv_import_note V i of
        Imported \<Rightarrow> import_each V is
      | PrivateNote \<Rightarrow> import_each V is
      | ImportFailed \<Rightarrow> errE TkNode)"

definition b2agg_identities :: "note_api \<Rightarrow> input_note list \<Rightarrow> (b256 \<times> b256) list" where
  "b2agg_identities N records =
     List.map_filter (\<lambda>r. case (in_nullifier r, in_id r) of (Some n, Some i) \<Rightarrow> Some (n, i) | _ \<Rightarrow> None)
       (filter (is_b2agg_note N) records)"

definition persist_b2agg_note_ids :: "note_api \<Rightarrow> input_note list \<Rightarrow> (projector, tick_error, unit) handler" where
  "persist_b2agg_note_ids N records = write_pj (put_b2agg_note_ids (b2agg_identities N records))"

definition fetched_identities :: "note_api \<Rightarrow> fetched_note list \<Rightarrow> (b256 \<times> b256) list" where
  "fetched_identities N fetched =
     List.map_filter (\<lambda>f. case fn_public f of
        None \<Rightarrow> None
      | Some (nullifier, body) \<Rightarrow> if is_b2agg_note N body then Some (nullifier, fn_id f) else None) fetched"

definition persist_missing_b2agg_note_ids ::
    "note_api \<Rightarrow> node_view \<Rightarrow> b256 list \<Rightarrow> (projector, tick_error, unit) handler" where
  "persist_missing_b2agg_note_ids N V missing =
     (if missing = [] then okE ()
      else
        bindE (need TkNode (nv_notes_by_id V missing)) (\<lambda>fetched.
        bindE (ensure_complete_note_response missing (map fn_id fetched)) (\<lambda>_.
        write_pj (put_b2agg_note_ids (fetched_identities N fetched)))))"

definition known_ids :: "input_note list \<Rightarrow> b256 set" where
  "known_ids records = set (List.map_filter in_id records)"

definition import_reconcile_window ::
    "note_api \<Rightarrow> node_view \<Rightarrow> b256 list \<Rightarrow> (projector, tick_error, unit) handler" where
  "import_reconcile_window N V candidates =
     bindE (need TkNode (nv_known_notes V candidates)) (\<lambda>known.
     let unknown = filter (\<lambda>i. i \<notin> known_ids known) candidates
     in bindE (if unknown = [] then okE ()
               else case nv_import_notes V unknown of
                      Imported \<Rightarrow> okE ()
                    | PrivateNote \<Rightarrow> import_each V unknown
                    | ImportFailed \<Rightarrow> errE TkNode) (\<lambda>_.
        bindE (need TkNode (nv_visible_notes V candidates)) (\<lambda>visible.
        bindE (persist_b2agg_note_ids N visible) (\<lambda>_.
        persist_missing_b2agg_note_ids N V (filter (\<lambda>i. i \<notin> known_ids visible) candidates)))))"

section \<open>The sweep\<close>

definition advance_reconcile_cursor :: "u64 \<Rightarrow> (projector, tick_error, unit) handler" where
  "advance_reconcile_cursor to =
     bindE (write_pj (set_reconcile_cursor to)) (\<lambda>_. modify_pj (\<lambda>p. p\<lparr>pj_reconcile_cursor := to\<rparr>))"

definition reconcile_window ::
    "externals \<Rightarrow> note_api \<Rightarrow> node_view \<Rightarrow> u64 \<times> u64 \<Rightarrow> (projector, tick_error, unit) handler" where
  "reconcile_window E N V window =
     (case window of (from, to) \<Rightarrow>
        bindE (need TkNode (nv_sync_note_ids V from to)) (\<lambda>candidates.
        bindE (if candidates = [] then okE ()
               else bindE (write_pj (\<lambda>s. snd (confirm_prepared_note_handoffs E (map (na_id_text N) candidates) s))) (\<lambda>_.
                    import_reconcile_window N V candidates)) (\<lambda>_.
        advance_reconcile_cursor to)))"

text \<open>The results of a batch are taken in ascending order whatever order they arrive in.\<close>

primrec reconcile_batches ::
    "externals \<Rightarrow> note_api \<Rightarrow> projector_config \<Rightarrow> node_view \<Rightarrow> u64 \<Rightarrow> nat \<Rightarrow> (projector, tick_error, unit) handler" where
  "reconcile_batches E N C V tip 0 =
     bindE (read_pj pj_reconcile_cursor) (\<lambda>cursor.
     forE (reconcile_window E N V)
       (sort_key fst (plan_reconcile_windows (pc_reconcile_chunk C) (pc_reconcile_concurrency C) cursor tip)))"
| "reconcile_batches E N C V tip (Suc n) =
     bindE (read_pj pj_reconcile_cursor) (\<lambda>cursor.
     let windows = plan_reconcile_windows (pc_reconcile_chunk C) (pc_reconcile_concurrency C) cursor tip
     in if windows = [] then okE ()
        else bindE (forE (reconcile_window E N V) (sort_key fst windows)) (\<lambda>_. reconcile_batches E N C V tip n))"

definition reconcile_notes ::
    "externals \<Rightarrow> note_api \<Rightarrow> projector_config \<Rightarrow> node_view \<Rightarrow> u64 \<Rightarrow> (projector, tick_error, unit) handler" where
  "reconcile_notes E N C V tip = reconcile_batches E N C V tip (nv_batches V)"

end
