(* ===== verification/Projector.thy ===== *)
theory Projector
  imports Reconciler
begin

text \<open>
  A tick of the synthetic projector (\<^verbatim>\<open>src/src/synthetic_projector.rs\<close>): the settling of pending
  duplicates, the calldata repair and the audit, the attribution of consumed notes, the gates on the
  local exit tree, and the projection of every block up to the tip of the Miden chain.
\<close>

section \<open>Pending duplicates\<close>

record pending_duplicate =
  du_tx_hash :: tx_hash
  du_call :: decoded_write_call
  du_note_id :: string

definition PENDING_DUPLICATE_RECONCILE_LIMIT :: nat where "PENDING_DUPLICATE_RECONCILE_LIMIT = 16"

definition decode_envelope_write_call ::
    "externals \<Rightarrow> request_api \<Rightarrow> tx_envelope \<Rightarrow> admission_error + decoded_write_call" where
  "decode_envelope_write_call E R envelope =
     bindS (unwrap_txn_envelope envelope) (\<lambda>(_, input). decode_write_call E R input)"

definition load_pending_duplicate ::
    "externals \<Rightarrow> request_api \<Rightarrow> tx_hash \<Rightarrow> mem_store \<Rightarrow> tick_error + pending_duplicate option" where
  "load_pending_duplicate E R h s =
     (case txn_get h s of
        None \<Rightarrow> Inr None
      | Some txn \<Rightarrow>
          if td_result txn \<noteq> None then Inr None
          else
            case get_note_handoff_for_tx (ext_fmt_hash E h) s of
              None \<Rightarrow> Inr None
            | Some handoff \<Rightarrow>
                (case nh_note_id handoff of
                   None \<Rightarrow> Inr None
                 | Some note_id \<Rightarrow>
                     (case decode_envelope_write_call E R (td_envelope txn) of
                        Inl e \<Rightarrow> Inl (TkDecode e)
                      | Inr call \<Rightarrow> Inr (Some \<lparr>du_tx_hash = h, du_call = call, du_note_id = note_id\<rparr>))))"

definition resolve_pending_duplicate ::
    "externals \<Rightarrow> node_view \<Rightarrow> pending_duplicate \<Rightarrow> mem_store \<Rightarrow> applied_error + exact_note_outcome" where
  "resolve_pending_duplicate E V pending s =
     (case du_call pending of
        GerCall ger \<Rightarrow> reconcile_ger_handoff_with_client (nv_miden V) ger (du_note_id pending) s
      | ClaimCall params \<Rightarrow>
          reconcile_claim_handoff_with_client E (nv_miden V) (cc_global_index params) (du_note_id pending) s)"

definition finalize_pending_duplicate ::
    "pending_duplicate \<Rightarrow> exact_note_outcome \<Rightarrow> (mem_store, projection_error, unit) handler" where
  "finalize_pending_duplicate pending outcome =
     (if outcome \<noteq> AppliedElsewhere then okE ()
      else
        bindE (askS latest_block_number) (\<lambda>block_num.
        tryS (txn_commit_confirmed_duplicate (du_tx_hash pending)
          (case du_call pending of
             GerCall _ \<Rightarrow> Inr ()
           | ClaimCall _ \<Rightarrow> Inl ''execution reverted: AlreadyClaimed()'') block_num)))"

definition reconcile_pending_duplicate ::
    "externals \<Rightarrow> request_api \<Rightarrow> node_view \<Rightarrow> tx_hash \<Rightarrow> (projector, tick_error, unit) handler" where
  "reconcile_pending_duplicate E R V h =
     bindE (read_pj (\<lambda>p. load_pending_duplicate E R h (pj_store p))) (\<lambda>loaded.
     bindE (liftE loaded) (\<lambda>found.
     case found of
       None \<Rightarrow> okE ()
     | Some pending \<Rightarrow>
         bindE (read_pj (\<lambda>p. resolve_pending_duplicate E V pending (pj_store p))) (\<lambda>outcome.
         case outcome of
           Inl e \<Rightarrow> errE (TkApplied e)
         | Inr exact \<Rightarrow> in_store (finalize_pending_duplicate pending exact))))"

definition reconcile_pending_duplicates ::
    "externals \<Rightarrow> request_api \<Rightarrow> node_view \<Rightarrow> (projector, tick_error, unit) handler" where
  "reconcile_pending_duplicates E R V =
     bindE (read_pj (\<lambda>p.
       let after = pj_pending_duplicate_cursor p;
           pending = pending_note_handoff_txs E after PENDING_DUPLICATE_RECONCILE_LIMIT (pj_store p)
       in if pending = [] \<and> after \<noteq> None
          then pending_note_handoff_txs E None PENDING_DUPLICATE_RECONCILE_LIMIT (pj_store p)
          else pending)) (\<lambda>pending.
     bindE (modify_pj (\<lambda>p. p\<lparr>pj_pending_duplicate_cursor := (if pending = [] then None else Some (last pending))\<rparr>)) (\<lambda>_.
     forE (\<lambda>h. tolerate (reconcile_pending_duplicate E R V h)) pending))"

section \<open>Claim calldata\<close>

definition claim_calldata_of ::
    "externals \<Rightarrow> note_api \<Rightarrow> u64 \<Rightarrow> input_note \<Rightarrow> (mem_store, projection_error, bool) handler" where
  "claim_calldata_of E N cursor note =
     (let note_key = commitment_hex E note;
          derived = derive_manual_claim_tx_hash E note_key
      in bindE (askS (get_logs_for_tx derived)) (\<lambda>derived_logs.
         case derived_logs of
           log # _ \<Rightarrow> persist_synthetic_claim_tx E N (in_storage note) derived (log_block_number log) (log_block_hash log)
         | [] \<Rightarrow>
             bindE (askS (get_tx_for_note note_key)) (\<lambda>link.
             case link of
               Some real \<Rightarrow>
                 bindE (askS (get_logs_for_tx real)) (\<lambda>real_logs.
                 case real_logs of
                   log # _ \<Rightarrow> persist_synthetic_claim_tx E N (in_storage note) real (log_block_number log)
                              (log_block_hash log)
                 | [] \<Rightarrow> okE False)
             | None \<Rightarrow> okE (case in_consumed_block note of None \<Rightarrow> False | Some b \<Rightarrow> b \<le> cursor))))"

definition backfill_one ::
    "externals \<Rightarrow> note_api \<Rightarrow> u64 \<Rightarrow> input_note \<Rightarrow> (projector, tick_error, unit) handler" where
  "backfill_one E N cursor note =
     (if in_script_root note \<noteq> na_claim_root N then okE ()
      else
        bindE (read_pj (\<lambda>p. in_commitment note \<in> pj_calldata_resolved p)) (\<lambda>done_before.
        if done_before then okE ()
        else
          bindE (in_store (claim_calldata_of E N cursor note)) (\<lambda>resolved.
          if resolved
          then modify_pj (\<lambda>p. p\<lparr>pj_calldata_resolved := insert (in_commitment note) (pj_calldata_resolved p)\<rparr>)
          else okE ())))"

definition backfill_synthetic_claim_calldata ::
    "externals \<Rightarrow> note_api \<Rightarrow> input_note list \<Rightarrow> u64 \<Rightarrow> (projector, tick_error, unit) handler" where
  "backfill_synthetic_claim_calldata E N consumed cursor = forE (backfill_one E N cursor) consumed"

section \<open>The completeness audit\<close>

record audit_outcome =
  ao_audited :: nat
  ao_verified :: nat
  ao_missing :: nat
  ao_settling :: nat

definition AUDIT_EVERY_N_TICKS :: u64 where "AUDIT_EVERY_N_TICKS = 30"

definition AUDIT_SETTLE_MARGIN :: u64 where "AUDIT_SETTLE_MARGIN = 10"

text \<open>A note the projector refuses must not raise the alarm.\<close>

definition should_have_emitted :: "projector_config \<Rightarrow> input_note \<Rightarrow> bool" where
  "should_have_emitted C note =
     (classify_b2agg_consumer (in_consumer note) (pc_bridge_id C) \<noteq> Reclaimed \<and>
      (case parse_b2agg_storage (in_storage note) of
         Inl _ \<Rightarrow> False
       | Inr (destination_network, _) \<Rightarrow> destination_network \<noteq> pc_local_network_id C))"

fun audit_notes ::
    "externals \<Rightarrow> note_api \<Rightarrow> projector_config \<Rightarrow> mem_store \<Rightarrow> u64 \<Rightarrow> input_note list \<Rightarrow>
     (b256 \<times> u64, u32) hashmap \<Rightarrow> (b256 \<times> u64 \<times> u32) set \<Rightarrow> audit_outcome \<Rightarrow>
     (b256 \<times> u64 \<times> u32) set \<times> audit_outcome" where
  "audit_notes E N C s audit_to [] occ resolved out = (resolved, out)"
| "audit_notes E N C s audit_to (note # notes) occ resolved out =
     (if \<not> is_b2agg_note N note then audit_notes E N C s audit_to notes occ resolved out
      else case in_consumed_block note of
        None \<Rightarrow> audit_notes E N C s audit_to notes occ resolved out
      | Some block \<Rightarrow>
          if audit_to < block
          then audit_notes E N C s audit_to notes occ resolved (out\<lparr>ao_settling := Suc (ao_settling out)\<rparr>)
          else if \<not> should_have_emitted C note then audit_notes E N C s audit_to notes occ resolved out
          else
            let key = in_commitment note;
                k = (case hm_get occ (key, block) of None \<Rightarrow> 0 | Some k \<Rightarrow> k);
                occ' = hm_insert (key, block) (k + 1) occ
            in if (key, block, k) \<in> resolved then audit_notes E N C s audit_to notes occ' resolved out
               else
                 let logs = get_logs_for_tx (derive_bridge_out_tx_hash E (commitment_hex E note)) s;
                     found = unat k < length (filter (\<lambda>l. log_block_number l = block) logs);
                     out' = out\<lparr>ao_audited := Suc (ao_audited out)\<rparr>
                 in audit_notes E N C s audit_to notes occ' (insert (key, block, k) resolved)
                      (if found then out'\<lparr>ao_verified := Suc (ao_verified out')\<rparr>
                       else out'\<lparr>ao_missing := Suc (ao_missing out')\<rparr>))"

definition audit_completeness ::
    "externals \<Rightarrow> note_api \<Rightarrow> projector_config \<Rightarrow> input_note list \<Rightarrow> u64 \<Rightarrow> (projector, tick_error, audit_outcome) handler" where
  "audit_completeness E N C consumed cursor p =
     (let audit_to = saturating_sub cursor AUDIT_SETTLE_MARGIN;
          zero = \<lparr>ao_audited = 0, ao_verified = 0, ao_missing = 0, ao_settling = 0\<rparr>
      in if audit_to = 0 then (Inr zero, p)
         else let (resolved, out) = audit_notes E N C (pj_store p) audit_to consumed [] (pj_audit_resolved p) zero
              in (Inr out, p\<lparr>pj_audit_resolved := resolved\<rparr>))"

section \<open>Consumed bridge-outs\<close>

text \<open>The record rebuilt from a public body at the block and order the bridge consumed it.\<close>

definition consumed_record :: "projector_config \<Rightarrow> consumed_ref \<Rightarrow> input_note \<Rightarrow> input_note" where
  "consumed_record C cref body =
     body\<lparr>in_metadata := None, in_consumer := Some (pc_bridge_id C),
          in_consumed_block := Some (ucast (ucast (cr_block cref) :: u32)), in_tx_order := Some (cr_order cref),
          in_id := None, in_nullifier := None\<rparr>"

text \<open>The consumptions with a known identity, from the header or from the persisted join.\<close>

definition identified_refs ::
    "(b256, consumed_ref) hashmap \<Rightarrow> mem_store \<Rightarrow> (b256 \<times> consumed_ref \<times> b256) list" where
  "identified_refs refs s =
     (let durable = get_b2agg_note_ids (hm_keys refs) s
      in List.map_filter (\<lambda>(nullifier, cref).
           map_option (\<lambda>i. (nullifier, cref, i))
             (case cr_note_id cref of Some i \<Rightarrow> Some i | None \<Rightarrow> map_of durable nullifier)) refs)"

definition public_b2agg_bodies :: "note_api \<Rightarrow> fetched_note list \<Rightarrow> (b256, input_note) hashmap" where
  "public_b2agg_bodies N fetched =
     fold (\<lambda>f m. case fn_public f of
        None \<Rightarrow> m
      | Some (_, body) \<Rightarrow> if is_b2agg_note N body then hm_insert (fn_id f) body m else m) fetched []"

fun collect_consumptions ::
    "projector_config \<Rightarrow> (b256, input_note) hashmap \<Rightarrow> b256 set \<Rightarrow> (b256 \<times> consumed_ref \<times> b256) list \<Rightarrow>
     (b256, u32) hashmap \<Rightarrow> (b256 \<times> input_note) list \<Rightarrow>
     tick_error + (b256, u32) hashmap \<times> (b256 \<times> input_note) list" where
  "collect_consumptions C bodies returned [] pos recs = Inr (pos, recs)"
| "collect_consumptions C bodies returned ((nullifier, cref, note_id) # refs) pos recs =
     (case hm_get bodies note_id of
        Some body \<Rightarrow>
          collect_consumptions C bodies returned refs (hm_insert note_id (cr_within_tx_pos cref) pos)
            (recs @ [(note_id, consumed_record C cref body)])
      | None \<Rightarrow>
          if note_id \<in> returned then collect_consumptions C bodies returned refs pos recs
          else Inl (OmittedNote note_id))"

definition resolve_b2agg_consumptions ::
    "note_api \<Rightarrow> projector_config \<Rightarrow> node_view \<Rightarrow> (b256, consumed_ref) hashmap \<Rightarrow> mem_store \<Rightarrow>
     tick_error + (b256, u32) hashmap \<times> (b256 \<times> input_note) list" where
  "resolve_b2agg_consumptions N C V consumed_refs s =
     (let refs = identified_refs consumed_refs s
      in if refs = [] then Inr ([], [])
         else
           case nv_notes_by_id V (remdups (map (\<lambda>(_, _, i). i) refs)) of
             None \<Rightarrow> Inl TkNode
           | Some fetched \<Rightarrow>
               collect_consumptions C (public_b2agg_bodies N fetched) (set (map fn_id fetched)) refs [] [])"

section \<open>One block\<close>

definition tie_step ::
    "note_api \<Rightarrow> (b256, u32) hashmap \<Rightarrow> b256 option \<times> input_note \<Rightarrow> (u32 option, nat \<times> bool) hashmap \<Rightarrow>
     (u32 option, nat \<times> bool) hashmap" where
  "tie_step N within_tx_pos entry ties =
     (case entry of (note_id, note) \<Rightarrow>
        if is_b2agg_note N note
        then let (n, resolved) = (case hm_get ties (in_tx_order note) of None \<Rightarrow> (0, True) | Some t \<Rightarrow> t);
                 known = (case note_id of None \<Rightarrow> False | Some i \<Rightarrow> hm_contains within_tx_pos i)
             in hm_insert (in_tx_order note) (Suc n, resolved \<and> known) ties
        else ties)"

definition unordered_siblings :: "note_api \<Rightarrow> (b256, u32) hashmap \<Rightarrow> (b256 option \<times> input_note) list \<Rightarrow> bool" where
  "unordered_siblings N within_tx_pos notes =
     list_ex (\<lambda>(_, siblings, resolved). 1 < siblings \<and> \<not> resolved) (fold (tie_step N within_tx_pos) notes [])"

definition note_key :: "(b256, u32) hashmap \<Rightarrow> b256 option \<times> input_note \<Rightarrow> u32 option \<times> u32 \<times> b256 \<times> b256 option" where
  "note_key within_tx_pos entry =
     (case entry of (note_id, note) \<Rightarrow>
        (in_tx_order note,
         (case note_id of
            None \<Rightarrow> 0
          | Some i \<Rightarrow> (case hm_get within_tx_pos i of None \<Rightarrow> 0 | Some pos \<Rightarrow> pos)),
         in_commitment note, note_id))"

text \<open>One note; the result is the number of logs it wrote.\<close>

definition project_note ::
    "externals \<Rightarrow> account_api \<Rightarrow> note_api \<Rightarrow> projector_config \<Rightarrow> node_view \<Rightarrow> (b256, account_id) hashmap \<Rightarrow> u64 \<Rightarrow> b256 \<Rightarrow>
     b256 option \<times> input_note \<Rightarrow> (projector, tick_error, nat) handler" where
  "project_note E A N C V output_metadata block block_hash entry =
     (case entry of (note_id, note) \<Rightarrow>
        if is_b2agg_note N note
        then
          bindE (need MissingNoteId note_id) (\<lambda>i.
          bindE (in_store (project_b2agg_note E A N (nv_recovery V) note i (pc_bridge_id C) (pc_local_network_id C)
                   block block_hash (pc_bridge_address C))) (\<lambda>outcome.
          okE (if outcome = B2Emitted then 1 else 0)))
        else
          bindE (in_store (project_claim_note E N note output_metadata (pc_expected_claim_sender C) (pc_bridge_id C)
                   block block_hash (pc_bridge_address C) (nv_now V))) (\<lambda>claim.
          if claim = ClaimEmitted then okE 1
          else
            bindE (in_store (project_ger_note E N note output_metadata (pc_expected_ger_sender C) (pc_bridge_id C)
                     block block_hash (deterministic_timestamp block))) (\<lambda>ger.
            okE (if ger = GerEmitted then 1 else 0))))"

fun project_each :: "('a \<Rightarrow> ('s, 'e, nat) handler) \<Rightarrow> nat \<Rightarrow> 'a list \<Rightarrow> ('s, 'e, nat) handler" where
  "project_each f logs [] = okE logs"
| "project_each f logs (x # xs) = bindE (f x) (\<lambda>n. project_each f (logs + n) xs)"

definition hash_of_block :: "externals \<Rightarrow> u64 \<Rightarrow> (projector, tick_error, b256) handler" where
  "hash_of_block E block p =
     (let (h, bs) = get_block_hash E block (pj_block_state p) in (Inr h, p\<lparr>pj_block_state := bs\<rparr>))"

definition emitted_frontier_gate :: "(projector, tick_error, unit) handler" where
  "emitted_frontier_gate =
     bindE (read_pj (\<lambda>p. first_unemitted_reservation (pj_store p))) (\<lambda>unemitted.
     case unemitted of
       None \<Rightarrow> okE ()
     | Some (idx, note) \<Rightarrow> errE (UnemittedReservation idx note))"

definition project_block_notes ::
    "externals \<Rightarrow> account_api \<Rightarrow> note_api \<Rightarrow> projector_config \<Rightarrow> node_view \<Rightarrow> (b256 option \<times> input_note) list \<Rightarrow>
     (b256, account_id) hashmap \<Rightarrow> u64 \<Rightarrow> (b256, u32) hashmap \<Rightarrow> (projector, tick_error, nat) handler" where
  "project_block_notes E A N C V notes output_metadata block within_tx_pos =
     (if unordered_siblings N within_tx_pos notes then errE UnorderedSiblings
      else
        bindE (hash_of_block E block) (\<lambda>block_hash.
        bindE (project_each (project_note E A N C V output_metadata block block_hash) 0
                 (sort_key (note_key within_tx_pos) notes)) (\<lambda>logs.
        bindE emitted_frontier_gate (\<lambda>_.
        bindE (write_pj (set_latest_block_number block)) (\<lambda>_.
        okE logs)))))"

section \<open>The gates on the local exit tree\<close>

definition existing_indices :: "string list \<Rightarrow> mem_store \<Rightarrow> (string, u32) hashmap" where
  "existing_indices keys s = fold (\<lambda>(k, i) m. hm_insert k i m) (get_deposit_indices keys s) []"

text \<open>\<^verbatim>\<open>position\<close> of the first note without a reservation, or the number of notes.\<close>

definition first_missing :: "(string, u32) hashmap \<Rightarrow> string list \<Rightarrow> nat" where
  "first_missing existing keys = length (takeWhile (hm_contains existing) keys)"

fun check_reserved_prefix :: "(string, u32) hashmap \<Rightarrow> u64 \<Rightarrow> string list \<Rightarrow> tick_error + unit" where
  "check_reserved_prefix existing index [] = Inr ()"
| "check_reserved_prefix existing index (key # keys) =
     (case u32_try_from index of
        None \<Rightarrow> Inl LetIndexTooLarge
      | Some expected \<Rightarrow>
          if hm_get existing key \<noteq> Some expected then Inl (LetOrder key)
          else check_reserved_prefix existing (index + 1) keys)"

definition let_gate :: "string list \<Rightarrow> u64 \<Rightarrow> mem_store \<Rightarrow> tick_error + unit" where
  "let_gate keys on_chain s =
     (case get_accounted_deposit_count s of
        Inl e \<Rightarrow> Inl (TkStore e)
      | Inr accounted \<Rightarrow>
          let existing = existing_indices keys s;
              n = first_missing existing keys
          in if list_ex (hm_contains existing) (drop n keys) then Inl LetPrefix
             else if accounted < of_nat n then Inl LetUnderflow
             else
               bindS (check_reserved_prefix existing (accounted - of_nat n) (take n keys)) (\<lambda>_.
               case checked_add accounted (of_nat (length keys - length existing)) of
                 None \<Rightarrow> Inl LetOverflow
               | Some expected \<Rightarrow>
                   if on_chain \<noteq> expected then Inl (LetCardinality on_chain expected) else Inr ()))"

section \<open>A tick\<close>

definition auth_key :: "(b256, u32) hashmap \<Rightarrow> b256 \<times> input_note \<Rightarrow> u64 option \<times> u32 option \<times> u32 option \<times> b256" where
  "auth_key within_tx_pos entry =
     (case entry of (note_id, note) \<Rightarrow>
        (in_consumed_block note, in_tx_order note, hm_get within_tx_pos note_id, note_id))"

text \<open>The bucket of a block: the store's consumed claims and exit roots, then the bridge-outs.\<close>

definition bucket ::
    "note_api \<Rightarrow> input_note list \<Rightarrow> (b256 \<times> input_note) list \<Rightarrow> u64 \<Rightarrow> (b256 option \<times> input_note) list" where
  "bucket N consumed auth block =
     map (\<lambda>note. (in_id note, note))
       (filter (\<lambda>note. \<not> is_b2agg_note N note \<and> in_consumed_block note = Some block) consumed) @
     map (\<lambda>(i, note). (Some i, note)) (filter (\<lambda>(_, note). in_consumed_block note = Some block) auth)"

definition migrate_legacy_keys :: "externals \<Rightarrow> note_api \<Rightarrow> (b256 \<times> input_note) list \<Rightarrow> mem_store \<Rightarrow> mem_store" where
  "migrate_legacy_keys E N auth s =
     fold (\<lambda>(note_id, note) s.
             case in_consumed_block note of
               None \<Rightarrow> s
             | Some block \<Rightarrow>
                 let legacy_key = commitment_hex E note
                 in migrate_legacy_deposit_key E legacy_key (na_id_text N note_id) block
                      (derive_bridge_out_tx_hash E legacy_key) s) auth s"

text \<open>The loop from the cursor to the tip, which takes \<open>tip - cursor\<close> rounds.\<close>

primrec project_blocks ::
    "(u64 \<Rightarrow> (projector, tick_error, nat) handler) \<Rightarrow> nat \<Rightarrow> (projector, tick_error, unit) handler" where
  "project_blocks project 0 = okE ()"
| "project_blocks project (Suc n) =
     bindE (read_pj (\<lambda>p. pj_cursor p + 1)) (\<lambda>block.
     bindE (project block) (\<lambda>_.
     bindE (write_pj (set_projector_cursor block)) (\<lambda>_.
     bindE (modify_pj (\<lambda>p. p\<lparr>pj_cursor := block\<rparr>)) (\<lambda>_.
     project_blocks project n))))"

definition output_metadata_of :: "(b256 \<times> account_id) list \<Rightarrow> (b256, account_id) hashmap" where
  "output_metadata_of outputs = fold (\<lambda>(commitment, sender) m. hm_insert commitment sender m) outputs []"

definition audit_step ::
    "externals \<Rightarrow> note_api \<Rightarrow> projector_config \<Rightarrow> input_note list \<Rightarrow> (projector, tick_error, unit) handler" where
  "audit_step E N C consumed =
     bindE (read_pj pj_audit_ticks) (\<lambda>ticks.
     bindE (modify_pj (\<lambda>p. p\<lparr>pj_audit_ticks := ticks + 1\<rparr>)) (\<lambda>_.
     if ticks mod AUDIT_EVERY_N_TICKS = 0
     then bindE (read_pj pj_cursor) (\<lambda>cursor. tolerate (audit_completeness E N C consumed cursor))
     else okE ()))"

text \<open>Everything after the early return at the tip.\<close>

definition project_to_tip ::
    "externals \<Rightarrow> account_api \<Rightarrow> note_api \<Rightarrow> projector_config \<Rightarrow> node_view \<Rightarrow> input_note list \<Rightarrow> u64 \<Rightarrow>
     (projector, tick_error, unit) handler" where
  "project_to_tip E A N C V consumed tip =
     bindE (need TkNode (nv_output_notes V)) (\<lambda>outputs.
     bindE (read_pj pj_cursor) (\<lambda>cursor.
     bindE (need TkNode (nv_transactions V (ucast (cursor + 1)) (ucast tip))) (\<lambda>txs.
     case bridge_consumed_nullifiers txs (pc_bridge_id C) of
       Inl e \<Rightarrow> errE (TkOrder e)
     | Inr refs \<Rightarrow>
         bindE (read_pj (\<lambda>p. resolve_b2agg_consumptions N C V refs (pj_store p))) (\<lambda>resolved.
         bindE (liftE resolved) (\<lambda>(within_tx_pos, recs).
         let auth = sort_key (auth_key within_tx_pos) recs
         in bindE (write_pj (migrate_legacy_keys E N auth)) (\<lambda>_.
            bindE (need TkNode (nv_bridge_leaves V)) (\<lambda>account.
            bindE (need NoBridgeAccount account) (\<lambda>on_chain.
            bindE (read_pj (\<lambda>p. let_gate (map (\<lambda>(i, _). na_id_text N i) auth) on_chain (pj_store p))) (\<lambda>gate.
            bindE (liftE gate) (\<lambda>_.
            bindE (project_blocks (\<lambda>block. project_block_notes E A N C V (bucket N consumed auth block)
                     (output_metadata_of outputs) block within_tx_pos) (unat tip - unat cursor)) (\<lambda>_.
            audit_step E N C consumed)))))))))))"

definition projector_tick ::
    "externals \<Rightarrow> account_api \<Rightarrow> note_api \<Rightarrow> request_api \<Rightarrow> projector_config \<Rightarrow> node_view \<Rightarrow>
     (projector, tick_error, u64) handler" where
  "projector_tick E A N R C V =
     bindE (need TkNode (nv_sync_height V)) (\<lambda>height.
     let tip = ucast height in
     bindE (tolerate (reconcile_notes E N C V tip)) (\<lambda>_.
     bindE (tolerate (reconcile_pending_duplicates E R V)) (\<lambda>_.
     bindE (read_pj pj_reconcile_cursor) (\<lambda>reconcile_cursor.
     if 0 < saturating_sub tip reconcile_cursor then read_pj pj_cursor
     else
       bindE (need TkNode (nv_consumed V)) (\<lambda>consumed.
       bindE (read_pj pj_cursor) (\<lambda>cursor.
       bindE (tolerate (backfill_synthetic_claim_calldata E N consumed cursor)) (\<lambda>_.
       if tip \<le> cursor then okE cursor
       else
         bindE (project_to_tip E A N C V consumed tip) (\<lambda>_.
         read_pj pj_cursor))))))))"

section \<open>Starting up\<close>

definition env_u64 :: "string option \<Rightarrow> u64 \<Rightarrow> u64" where
  "env_u64 var fallback =
     (case var of
        None \<Rightarrow> fallback
      | Some v \<Rightarrow> (case u64_from_str_radix v 10 of None \<Rightarrow> fallback | Some n \<Rightarrow> n))"

definition RECONCILE_CHUNK :: u64 where "RECONCILE_CHUNK = 1000"

definition RECONCILE_CONCURRENCY_DEFAULT :: nat where "RECONCILE_CONCURRENCY_DEFAULT = 8"

definition RECONCILE_CONCURRENCY_MAX :: nat where "RECONCILE_CONCURRENCY_MAX = 16"

text \<open>The settings of the projector: the accounts, and the sweep's two environment overrides.\<close>

definition new_projector_config ::
    "account_id \<Rightarrow> account_id \<Rightarrow> account_id option \<Rightarrow> u32 \<Rightarrow> string \<Rightarrow> string option \<Rightarrow> string option \<Rightarrow> projector_config" where
  "new_projector_config bridge service ger_manager local_network_id bridge_address chunk_env concurrency_env =
     \<lparr>pc_bridge_id = bridge, pc_local_network_id = local_network_id,
      pc_expected_ger_sender = (case ger_manager of None \<Rightarrow> service | Some g \<Rightarrow> g),
      pc_expected_claim_sender = service, pc_bridge_address = bridge_address,
      pc_reconcile_chunk = max (env_u64 chunk_env RECONCILE_CHUNK) 1,
      pc_reconcile_concurrency =
        min (max (unat (env_u64 concurrency_env (of_nat RECONCILE_CONCURRENCY_DEFAULT))) 1) RECONCILE_CONCURRENCY_MAX\<rparr>"

text \<open>A started projector resumes both cursors from the store; the rest of its state is empty.\<close>

definition new_projector :: "mem_store \<Rightarrow> block_state \<Rightarrow> projector" where
  "new_projector s bs =
     \<lparr>pj_store = s, pj_block_state = bs, pj_cursor = projector_cursor s, pj_reconcile_cursor = reconcile_cursor s,
      pj_pending_duplicate_cursor = None, pj_audit_resolved = {}, pj_audit_ticks = 0, pj_calldata_resolved = {}\<rparr>"

lemma new_projector_config_bounds:
  "1 \<le> pc_reconcile_chunk (new_projector_config b sv g n a c k)"
  "1 \<le> pc_reconcile_concurrency (new_projector_config b sv g n a c k)"
  "pc_reconcile_concurrency (new_projector_config b sv g n a c k) \<le> 16"
  by (simp_all add: new_projector_config_def RECONCILE_CONCURRENCY_MAX_def)

text \<open>The life of the projector: ticks, and restarts on the store as the last tick left it.\<close>

datatype life = Ticked node_view | Restarted block_state

primrec live ::
    "externals \<Rightarrow> account_api \<Rightarrow> note_api \<Rightarrow> request_api \<Rightarrow> projector_config \<Rightarrow> life list \<Rightarrow> projector \<Rightarrow> projector" where
  "live E A N R C [] p = p"
| "live E A N R C (l # ls) p =
     live E A N R C ls (case l of Ticked V \<Rightarrow> snd (projector_tick E A N R C V p) | Restarted bs \<Rightarrow> new_projector (pj_store p) bs)"

end
