(* ===== verification/Projector_Safety.thy ===== *)
theory Projector_Safety
  imports Projector
begin

text \<open>
  What a tick guarantees. Every tick, failed or not, keeps the ledger of bridge events. A tick that
  sealed blocks leaves exactly one bridge event for each leaf of the bridge's local exit tree above
  the audited baseline, and sweeping windows never skip a block.
\<close>

section \<open>Handlers on the projector\<close>

definition store_is :: "(mem_store \<Rightarrow> bool) \<Rightarrow> projector \<Rightarrow> bool" where
  "store_is P p = P (pj_store p)"

lemma stable_in_store [stableE_rules]: "stableE P m \<Longrightarrow> stableE (store_is P) (in_store m)"
  by (simp add: stableE_def store_is_def in_store_def case_prod_unfold split: sum.split)

lemma stable_write_pj [stableE_rules]: "(\<And>s. P s \<Longrightarrow> P (f s)) \<Longrightarrow> stableE (store_is P) (write_pj f)"
  by (simp add: stableE_def store_is_def write_pj_def)

lemma stable_read_pj [stableE_rules]: "stableE Q (read_pj f)"
  by (simp add: stableE_def read_pj_def)

lemma stable_modify_pj [stableE_rules]: "(\<And>p. pj_store (f p) = pj_store p) \<Longrightarrow> stableE (store_is P) (modify_pj f)"
  by (simp add: stableE_def store_is_def modify_pj_def)

lemma stable_need [stableE_rules]: "stableE Q (need e x)"
  by (simp add: need_def stableE_rules split: option.split)

lemma stable_tolerate [stableE_rules]: "stableE Q m \<Longrightarrow> stableE Q (tolerate m)"
  by (simp add: stableE_def tolerate_def)

lemma stable_forE [stableE_rules]: "(\<And>x. stableE Q (f x)) \<Longrightarrow> stableE Q (forE f xs)"
  by (induction xs) (simp_all add: stableE_rules)

lemma stable_project_each [stableE_rules]: "(\<And>x. stableE Q (f x)) \<Longrightarrow> stableE Q (project_each f n xs)"
  by (induction xs arbitrary: n) (simp_all add: stableE_rules)

lemma stable_block_hash [stableE_rules]: "stableE (store_is P) (hash_of_block E b)"
  by (simp add: stableE_def store_is_def hash_of_block_def case_prod_unfold Let_def)

lemma stable_audit_step [stableE_rules]: "stableE (store_is P) (audit_step E N C consumed)"
proof -
  have "stableE (store_is P) (audit_completeness E N C consumed cursor)" for cursor
    by (simp add: stableE_def store_is_def audit_completeness_def Let_def split: prod.split)
  then show ?thesis unfolding audit_step_def by (intro stableE_rules) simp_all
qed

section \<open>What the sweep and the repairs keep\<close>

lemma in_map_filter: "x \<in> set (List.map_filter g rs) \<longleftrightarrow> (\<exists>r \<in> set rs. g r = Some x)"
  by (force simp: map_filter_def)

text \<open>The identities the node's answers would persist.\<close>

definition answers_ok :: "(b256 \<Rightarrow> b256 \<Rightarrow> bool) \<Rightarrow> note_api \<Rightarrow> node_view \<Rightarrow> bool" where
  "answers_ok I N V \<longleftrightarrow>
     (\<forall>ids rs n i. nv_visible_notes V ids = Some rs \<longrightarrow> (n, i) \<in> set (b2agg_identities N rs) \<longrightarrow> I n i) \<and>
     (\<forall>ids fs n i. nv_notes_by_id V ids = Some fs \<longrightarrow> (n, i) \<in> set (fetched_identities N fs) \<longrightarrow> I n i)"

lemma stable_need_bind: "(\<And>x. v = Some x \<Longrightarrow> stableE Q (f x)) \<Longrightarrow> stableE Q (bindE (need e v) f)"
  by (cases v) (simp_all add: need_def stableE_def bindE_def)

lemma stable_books_calldata_of: "stableE (books s0) (claim_calldata_of E N cursor note)"
  unfolding claim_calldata_of_def Let_def
  by (intro stableE_bindE stableE_askS) (simp add: stableE_rules split: list.split)

lemma stable_books_finalize: "stableE (books s0) (finalize_pending_duplicate d x)"
  unfolding finalize_pending_duplicate_def
  by (intro stableE_rules) (use books_confirmed_duplicate books_step books_rows in blast)

text \<open>
  An invariant of the store that depends on the books and accepts the identities of the node: the
  sweep, the duplicates and the calldata repair keep it.
\<close>

locale book_keeper =
  fixes P :: "mem_store \<Rightarrow> bool" and I :: "b256 \<Rightarrow> b256 \<Rightarrow> bool"
  assumes rows: "P s \<Longrightarrow> silent_rows (transactions s)"
    and keep_books: "P s \<Longrightarrow> same_books s s' \<Longrightarrow> silent_rows (transactions s') \<Longrightarrow> P s'"
    and keep_ids: "P s \<Longrightarrow> (\<And>n i. (n, i) \<in> set es \<Longrightarrow> I n i) \<Longrightarrow> P (put_b2agg_note_ids es s)"
begin

lemma by_books:
  assumes "\<And>s0. stableE (books s0) m"
  shows "stableE P m"
  unfolding stableE_def
proof (intro allI impI)
  fix s assume p: "P s"
  then have "books s s" by (simp add: books_def rows)
  then have "books s (snd (m s))" using assms by (simp add: stableE_def)
  then show "P (snd (m s))" by (auto simp: books_def intro: keep_books [OF p])
qed

lemma import_keeps:
  assumes "answers_ok I N V"
  shows "stableE (store_is P) (import_reconcile_window N V cs)"
proof -
  have e: "stableE (store_is P) (import_each V ids)" for ids
    by (induction ids) (auto intro: stableE_okE stableE_errE split: import_result.split simp del: okE_app errE_app)
  have v: "stableE (store_is P) (persist_b2agg_note_ids N rs)" if "nv_visible_notes V ids = Some rs" for ids rs
    unfolding persist_b2agg_note_ids_def using assms that
    by (intro stable_write_pj keep_ids) (auto simp: answers_ok_def)
  have f: "stableE (store_is P) (write_pj (put_b2agg_note_ids (fetched_identities N fs)))"
    if "nv_notes_by_id V ids = Some fs" for ids fs
    using assms that by (intro stable_write_pj keep_ids) (auto simp: answers_ok_def)
  have m: "stableE (store_is P) (persist_missing_b2agg_note_ids N V ids)" for ids
    unfolding persist_missing_b2agg_note_ids_def ensure_complete_note_response_def
    by (intro stableE_if stableE_okE stable_need_bind stableE_bindE stableE_errE f)
  show ?thesis
    unfolding import_reconcile_window_def Let_def
    by (intro stable_need_bind stableE_bindE stableE_if stableE_okE v m)
      (auto intro: stableE_okE stableE_errE e split: import_result.split)
qed

lemma reconcile_keeps:
  assumes "answers_ok I N V"
  shows "stableE (store_is P) (reconcile_notes E N C V tip)"
proof -
  have "stableE (store_is P) (write_pj (\<lambda>s. snd (confirm_prepared_note_handoffs E ids s)))" for ids
    using books_confirm_prepared rows by (intro stable_write_pj) (metis keep_books)
  moreover have "stableE (store_is P) (advance_reconcile_cursor to)" for to
    unfolding advance_reconcile_cursor_def
    by (intro stableE_bindE stable_write_pj stable_modify_pj)
      (simp_all add: set_reconcile_cursor_def keep_books [OF _ books_update(9)] rows)
  ultimately have w: "stableE (store_is P) (reconcile_window E N V w)" for w
    unfolding reconcile_window_def
    by (intro stableE_case_prod stableE_bindE stable_need stableE_if stableE_okE import_keeps assms)
  have "stableE (store_is P) (reconcile_batches E N C V tip n)" for n
    by (induction n) (auto simp: Let_def intro!: stableE_bindE stable_read_pj stable_forE w stableE_if stableE_okE)
  then show ?thesis by (simp add: reconcile_notes_def)
qed

lemma duplicates_keep: "stableE (store_is P) (reconcile_pending_duplicates E R V)"
  unfolding reconcile_pending_duplicates_def reconcile_pending_duplicate_def
  by (intro stableE_bindE stable_read_pj stable_modify_pj stable_forE stable_tolerate stableE_liftE stableE_case_option
      stableE_case_sum stableE_okE stableE_errE stable_in_store by_books stable_books_finalize) simp_all

lemma backfill_keeps: "stableE (store_is P) (backfill_synthetic_claim_calldata E N consumed cursor)"
  unfolding backfill_synthetic_claim_calldata_def backfill_one_def
  by (intro stable_forE stableE_bindE stableE_if stableE_okE stable_read_pj stable_modify_pj stable_in_store
      by_books stable_books_calldata_of) simp_all

end

lemma ledger_put_ids: "ledger E (put_b2agg_note_ids es s) = ledger E s"
  by (simp add: put_b2agg_note_ids_def)

interpretation ledger_kept: book_keeper "ledger E" "\<lambda>_ _. True" for E
  by unfold_locales (rule ledger_rows, assumption, rule ledger_same_books, assumption+, simp add: ledger_put_ids)

lemma answers_any: "answers_ok (\<lambda>_ _. True) N V"
  by (simp add: answers_ok_def)

section \<open>The ledger is kept\<close>

lemma ledger_migrate_keys: "ledger E s \<Longrightarrow> ledger E (migrate_legacy_keys E' N auth s)"
  unfolding migrate_legacy_keys_def
  by (induction auth arbitrary: s) (auto simp: Let_def ledger_migrate split: option.split)

lemma stable_ledger_note [stableE_rules]:
  assumes "hex_ok E"
  shows "stableE (store_is (ledger E)) (project_note E A N C V om b bh entry)"
proof -
  have "stableE (ledger E) (project_claim_note E N nt om s i b bh ba now)" for nt s i ba now
    unfolding project_claim_note_def by (intro ledger_kept.by_books stable_books_claim)
  moreover have "stableE (ledger E) (project_ger_note E N nt om s i b bh ts)" for nt s i ts
    by (intro ledger_kept.by_books stable_books_ger)
  ultimately show ?thesis
    unfolding project_note_def
    by (intro stableE_case_prod stableE_if stableE_bindE stable_need stable_in_store stableE_okE
        stable_ledger_b2agg assms)
qed

lemma stable_frontier [stableE_rules]: "stableE Q emitted_frontier_gate"
  unfolding emitted_frontier_gate_def by (intro stableE_rules)

lemma stable_ledger_block [stableE_rules]:
  assumes "hex_ok E"
  shows "stableE (store_is (ledger E)) (project_block_notes E A N C V notes om b pos)"
  unfolding project_block_notes_def
  by (intro stableE_if stableE_bindE stableE_okE stableE_errE stable_block_hash stable_project_each stable_ledger_note
      assms stable_frontier stable_write_pj) (simp add: set_latest_block_number_def)

lemma stable_ledger_blocks:
  assumes "\<And>b. stableE (store_is (ledger E)) (f b)"
  shows "stableE (store_is (ledger E)) (project_blocks f n)"
  using assms
  by (induction n) (auto intro!: stableE_rules simp: set_projector_cursor_def)

lemma stable_ledger_to_tip [stableE_rules]:
  assumes "hex_ok E"
  shows "stableE (store_is (ledger E)) (project_to_tip E A N C V consumed tip)"
  unfolding project_to_tip_def Let_def
  by (intro stableE_bindE stable_need stable_read_pj stableE_case_sum stableE_case_prod stableE_errE stableE_liftE
      stable_write_pj stable_audit_step stable_ledger_blocks stable_ledger_block assms ledger_migrate_keys)

lemma stable_ledger_tick:
  assumes "hex_ok E"
  shows "stableE (store_is (ledger E)) (projector_tick E A N R C V)"
  unfolding projector_tick_def Let_def
  by (intro stableE_bindE stable_need stable_tolerate stableE_if stable_read_pj stableE_okE
      ledger_kept.reconcile_keeps answers_any ledger_kept.duplicates_keep ledger_kept.backfill_keeps stable_ledger_to_tip
      assms)

section \<open>The leaves after a projection\<close>

definition exit_keys :: "note_api \<Rightarrow> (b256 option \<times> input_note) list \<Rightarrow> string set" where
  "exit_keys N notes = {na_id_text N i |i nt. (Some i, nt) \<in> set notes \<and> is_b2agg_note N nt}"

text \<open>Bridge-outs come from the transaction feed: the bridge consumed them.\<close>

definition bridge_consumed :: "note_api \<Rightarrow> projector_config \<Rightarrow> (b256 option \<times> input_note) list \<Rightarrow> bool" where
  "bridge_consumed N C notes \<longleftrightarrow>
     (\<forall>(_, nt) \<in> set notes. is_b2agg_note N nt \<longrightarrow> in_consumer nt = Some (pc_bridge_id C))"

lemma in_store_cases:
  assumes "in_store m p = (Inr x, p')"
  obtains s where "m (pj_store p) = (Inr x, s)" and "p' = p\<lparr>pj_store := s\<rparr>"
  using assms by (auto simp: in_store_def split: prod.splits sum.splits)

lemma note_reserves:
  assumes "project_note E A N C V om b bh (oi, nt) p = (Inr n, p')" and "leaves R base ids (pj_store p)"
    and "is_b2agg_note N nt \<Longrightarrow> in_consumer nt = Some (pc_bridge_id C)" and "silent_rows (transactions (pj_store p))"
  shows "leaves (R \<union> exit_keys N [(oi, nt)]) base ids (pj_store p') \<and> pj_cursor p' = pj_cursor p"
proof (cases "is_b2agg_note N nt")
  case True
  with assms(1) obtain i r where i: "oi = Some i"
    and r: "in_store (project_b2agg_note E A N (nv_recovery V) nt i (pc_bridge_id C) (pc_local_network_id C) b bh
      (pc_bridge_address C)) p = (Inr r, p')"
    by (auto simp: project_note_def need_def bindE_def split: option.splits prod.splits sum.splits)
  from r obtain s' where s': "project_b2agg_note E A N (nv_recovery V) nt i (pc_bridge_id C) (pc_local_network_id C) b bh
      (pc_bridge_address C) (pj_store p) = (Inr r, s')" and p': "p' = p\<lparr>pj_store := s'\<rparr>"
    by (rule in_store_cases)
  have "exit_keys N [(oi, nt)] = {na_id_text N i}" using True i by (auto simp: exit_keys_def)
  with b2agg_reserves [OF s' assms(2) True assms(3) [OF True]] show ?thesis by (simp add: p')
next
  case False
  let ?c = "project_claim_note E N nt om (pc_expected_claim_sender C) (pc_bridge_id C) b bh (pc_bridge_address C) (nv_now V)"
  let ?g = "project_ger_note E N nt om (pc_expected_ger_sender C) (pc_bridge_id C) b bh (deterministic_timestamp b)"
  have keys: "exit_keys N [(oi, nt)] = {}" using False by (auto simp: exit_keys_def)
  have claim: "stableE (books s0) ?c" for s0 unfolding project_claim_note_def by (rule stable_books_claim)
  let ?m = "bindE (in_store ?c) (\<lambda>claim. if claim = ClaimEmitted then okE (1 :: nat)
      else bindE (in_store ?g) (\<lambda>ger. okE (if ger = GerEmitted then 1 else 0)))"
  have st: "stableE (store_is (books (pj_store p))) ?m"
    by (intro stableE_bindE stableE_if stableE_okE stable_in_store claim stable_books_ger)
  have cur: "stableE (\<lambda>q. pj_cursor q = pj_cursor p) ?m"
    by (intro stableE_bindE stableE_if stableE_okE) (simp_all add: stableE_def in_store_def case_prod_unfold split: sum.split)
  have run: "?m p = (Inr n, p')" using assms(1) False by (simp add: project_note_def)
  have "store_is (books (pj_store p)) p" using assms(4) by (simp add: store_is_def books_def)
  from stableE_D [OF st this run] have "books (pj_store p) (pj_store p')" by (simp add: store_is_def)
  with leaves_books [OF assms(2)] keys stableE_D [OF cur refl run] show ?thesis by simp
qed

lemma exit_keys_Cons: "exit_keys N (e # es) = exit_keys N [e] \<union> exit_keys N es"
  by (auto simp: exit_keys_def)

lemma exit_keys_set: "set xs = set ys \<Longrightarrow> exit_keys N xs = exit_keys N ys"
  by (simp add: exit_keys_def)

text \<open>The books of a projector that went through some notes.\<close>

definition went_through :: "externals \<Rightarrow> string set \<Rightarrow> u64 \<Rightarrow> (b256, b256) hashmap \<Rightarrow> u64 \<Rightarrow> projector \<Rightarrow> bool" where
  "went_through E R base ids c p \<longleftrightarrow>
     ledger E (pj_store p) \<and> leaves R base ids (pj_store p) \<and> pj_cursor p = c"

lemma each_reserves:
  assumes "hex_ok E" and "project_each (project_note E A N C V om b bh) k ns p = (Inr n, p')"
    and "went_through E R base ids c p" and "bridge_consumed N C ns"
  shows "went_through E (R \<union> exit_keys N ns) base ids c p'"
  using assms(2-4)
proof (induction ns arbitrary: k p R)
  case Nil
  then show ?case by (simp add: exit_keys_def)
next
  case (Cons e ns)
  obtain oi nt where e: "e = (oi, nt)" by (cases e)
  from Cons.prems(1) obtain m p1 where m: "project_note E A N C V om b bh (oi, nt) p = (Inr m, p1)"
    and rest: "project_each (project_note E A N C V om b bh) (k + m) ns p1 = (Inr n, p')"
    by (auto simp: e bindE_def split: prod.splits sum.splits)
  have l: "ledger E (pj_store p)" and lv: "leaves R base ids (pj_store p)" and c: "pj_cursor p = c"
    using Cons.prems(2) by (simp_all add: went_through_def)
  have "is_b2agg_note N nt \<Longrightarrow> in_consumer nt = Some (pc_bridge_id C)"
    using Cons.prems(3) by (simp add: e bridge_consumed_def)
  from note_reserves [OF m lv this ledger_rows [OF l]]
  have "leaves (R \<union> exit_keys N [e]) base ids (pj_store p1)" "pj_cursor p1 = c" using c by (simp_all add: e)
  moreover have "ledger E (pj_store p1)"
    using stableE_D [OF stable_ledger_note [OF assms(1)] _ m] l by (simp add: store_is_def)
  ultimately have "went_through E (R \<union> exit_keys N [e]) base ids c p1" by (simp add: went_through_def)
  from Cons.IH [OF rest this] Cons.prems(3) show ?case
    by (simp add: exit_keys_Cons [of N e ns] Un_assoc bridge_consumed_def)
qed

lemma block_reserves:
  assumes "hex_ok E" and "project_block_notes E A N C V notes om b pos p = (Inr n, p')"
    and "went_through E R base ids c p" and "bridge_consumed N C notes"
  shows "went_through E (R \<union> exit_keys N notes) base ids c p' \<and> latest_block_number (pj_store p') = b \<and>
         first_unemitted_reservation (pj_store p') = None"
proof -
  obtain h bs where h: "get_block_hash E b (pj_block_state p) = (h, bs)" by fastforce
  let ?p = "p\<lparr>pj_block_state := bs\<rparr>" and ?ns = "sort_key (note_key pos) notes"
  from assms(2) h obtain m p1 where m: "project_each (project_note E A N C V om b h) 0 ?ns ?p = (Inr m, p1)"
    and f: "first_unemitted_reservation (pj_store p1) = None"
    and p': "p' = p1\<lparr>pj_store := set_latest_block_number b (pj_store p1)\<rparr>"
    by (auto simp: project_block_notes_def hash_of_block_def emitted_frontier_gate_def read_pj_def write_pj_def bindE_def
        Let_def split: if_splits prod.splits sum.splits option.splits)
  have "went_through E R base ids c ?p" using assms(3) by (simp add: went_through_def)
  moreover have "bridge_consumed N C ?ns" using assms(4) by (simp add: bridge_consumed_def)
  ultimately have "went_through E (R \<union> exit_keys N ?ns) base ids c p1" by (rule each_reserves [OF assms(1) m])
  moreover have "exit_keys N ?ns = exit_keys N notes" by (rule exit_keys_set) simp
  ultimately show ?thesis
    using f by (simp add: p' went_through_def set_latest_block_number_def leaves_def reserved_def
        first_unemitted_reservation_def)
qed

lemma blocks_reserve:
  assumes "\<And>b R c p n p'. f b p = (Inr n, p') \<Longrightarrow> went_through E R base ids c p \<Longrightarrow>
      went_through E (R \<union> K b) base ids c p' \<and> latest_block_number (pj_store p') = b \<and>
      first_unemitted_reservation (pj_store p') = None"
    and "project_blocks f n p = (Inr (), p')" and "went_through E R base ids c p"
  shows "went_through E (R \<union> (\<Union>i < n. K (c + of_nat (Suc i)))) base ids (c + of_nat n) p' \<and>
         (0 < n \<longrightarrow> latest_block_number (pj_store p') = c + of_nat n \<and>
            first_unemitted_reservation (pj_store p') = None)"
  using assms(2,3)
proof (induction n arbitrary: p R c)
  case 0
  then show ?case by simp
next
  case (Suc n)
  have c: "pj_cursor p = c" using Suc.prems(2) by (simp add: went_through_def)
  from Suc.prems(1) obtain m p1 where m: "f (c + 1) p = (Inr m, p1)"
    and rest: "project_blocks f n (p1\<lparr>pj_store := set_projector_cursor (c + 1) (pj_store p1), pj_cursor := c + 1\<rparr>) = (Inr (), p')"
    by (auto simp: c read_pj_def write_pj_def modify_pj_def bindE_def split: prod.splits sum.splits)
  let ?q = "p1\<lparr>pj_store := set_projector_cursor (c + 1) (pj_store p1), pj_cursor := c + 1\<rparr>"
  note one = assms(1) [OF m Suc.prems(2)]
  then have q: "went_through E (R \<union> K (c + 1)) base ids (c + 1) ?q"
    by (simp add: went_through_def set_projector_cursor_def leaves_def reserved_def)
  have cup: "(\<Union>i < Suc n. K (c + of_nat (Suc i))) = K (c + 1) \<union> (\<Union>i < n. K (c + 1 + of_nat (Suc i)))"
    by (simp add: lessThan_Suc_eq_insert_0 add.assoc)
  show ?case
  proof (cases n)
    case 0
    with rest one q cup show ?thesis
      by (auto simp: set_projector_cursor_def first_unemitted_reservation_def Un_ac)
  next
    case pos: (Suc k)
    then have "0 < n" by simp
    with Suc.IH [OF rest q] show ?thesis unfolding cup by (simp add: Un_assoc add.assoc)
  qed
qed

section \<open>The gate on the number of leaves\<close>

lemma reserved_keys: "reserved s = set (hm_keys (processed_notes s))"
  by (auto simp: reserved_def hm_keys_get)

lemma card_reserved:
  assumes "deposits_inv s"
  shows "finite (reserved s)" and "card (reserved s) = unat (deposit_counter s)"
proof -
  let ?m = "processed_notes s" and ?b = "unat (let_gate_baseline s)" and ?c = "unat (deposit_counter s)"
  have wf: "hm_wf ?m" and d: "distinct (map (\<lambda>(_, idx, _). idx) ?m)"
    and img: "(\<lambda>(_, idx, _). unat idx) ` set ?m = {?b..<?b + ?c}"
    using assms by (auto simp: deposits_inv_def deposits_ok_def)
  have "(\<lambda>(_, idx, _). unat idx) ` set ?m = unat ` set (map (\<lambda>(_, idx, _). idx) ?m)" by force
  moreover have "inj_on (unat :: u32 \<Rightarrow> nat) A" for A by (auto intro: inj_onI unsigned_word_eqI)
  ultimately have "card {?b..<?b + ?c} = card (set (map (\<lambda>(_, idx, _). idx) ?m))"
    unfolding img [symmetric] by (simp add: card_image)
  also have "\<dots> = length ?m" using distinct_card [OF d] by simp
  finally have "length ?m = ?c" by simp
  moreover have "card (reserved s) = length ?m"
    unfolding reserved_keys using wf distinct_card [of "hm_keys ?m"] by (simp add: hm_wf_def hm_keys_def)
  ultimately show "card (reserved s) = ?c" by simp
  show "finite (reserved s)" by (simp add: reserved_keys)
qed

lemma fold_insert_keys:
  "set (hm_keys (fold (\<lambda>(k, i) m. hm_insert k i m) xs m)) = set (hm_keys m) \<union> fst ` set xs"
  by (induction xs arbitrary: m) (auto simp: hm_keys_get)

lemma fold_insert_wf: "hm_wf m \<Longrightarrow> hm_wf (fold (\<lambda>(k, i) m. hm_insert k i m) xs m)"
  by (induction xs arbitrary: m) auto

lemma deposit_index_keys: "fst ` set (get_deposit_indices keys s) = set keys \<inter> reserved s"
  by (induction keys) (auto simp: get_deposit_indices_def reserved_def map_filter_simps split: option.split)

lemma existing_keys:
  "set (hm_keys (existing_indices keys s)) = set keys \<inter> reserved s"
  "length (existing_indices keys s) = card (set keys \<inter> reserved s)"
proof -
  show k: "set (hm_keys (existing_indices keys s)) = set keys \<inter> reserved s"
    unfolding existing_indices_def fold_insert_keys deposit_index_keys by (simp add: hm_keys_def)
  have "hm_wf (existing_indices keys s)" by (simp add: existing_indices_def fold_insert_wf)
  then show "length (existing_indices keys s) = card (set keys \<inter> reserved s)"
    unfolding k [symmetric] using distinct_card [of "hm_keys (existing_indices keys s)"]
    by (simp add: hm_wf_def hm_keys_def)
qed

lemma unat_u64_of_u32: "unat (ucast (w :: u32) :: u64) = unat w"
  by (simp add: unsigned_ucast_eq take_bit_nat_eq_self unsigned_less [THEN order.strict_trans])

lemma let_gate_ok:
  assumes "let_gate keys on_chain s = Inr ()" and "distinct keys" and "length keys < 2 ^ 64"
  shows "unat on_chain = unat (let_gate_baseline s) + unat (deposit_counter s) + card (set keys - reserved s)"
proof -
  let ?free = "length keys - length (existing_indices keys s)"
  from assms(1) obtain accounted where a: "get_accounted_deposit_count s = Inr accounted"
    and x: "checked_add accounted (of_nat ?free) = Some on_chain"
    by (auto simp: let_gate_def Let_def bindS_Inr_iff split: sum.splits option.splits if_splits)
  have "unat accounted = unat (let_gate_baseline s) + unat (ucast (deposit_counter s) :: u64)"
    using a by (auto simp: get_accounted_deposit_count_def checked_add_Some unat_add_no_overflow split: option.splits)
  moreover have "unat (ucast (deposit_counter s) :: u64) = unat (deposit_counter s)" by (rule unat_u64_of_u32)
  moreover have "unat on_chain = unat accounted + unat (of_nat ?free :: u64)"
    using x by (auto simp: checked_add_Some unat_add_no_overflow)
  moreover have "unat (of_nat ?free :: u64) = ?free"
    using assms(3) by (simp add: unsigned_of_nat take_bit_nat_eq_self)
  moreover have "?free = card (set keys - reserved s)"
    using assms(2) by (simp add: existing_keys(2) card_Diff_subset_Int distinct_card)
  ultimately show ?thesis by simp
qed

section \<open>The emitted frontier\<close>

lemma count_map_Some: "distinct ds \<Longrightarrow> count (mset (map Some ds)) (Some i) = (if i \<in> set ds then 1 else 0)"
  by (induction ds) auto

lemma frontier_counts:
  assumes "ledger E s" and "first_unemitted_reservation s = None"
  shows "count (bridge_counts E s) (Some i) =
           (if unat (let_gate_baseline s) \<le> unat i \<and> unat i < unat (let_gate_baseline s) + unat (deposit_counter s)
            then 1 else 0)"
proof -
  let ?m = "processed_notes s"
  have emitted: "\<forall>x \<in> set ?m. (\<lambda>(_, _, e). e) x"
    using assms(2) by (auto simp: first_unemitted_reservation_def min_by_key_None filter_empty_conv)
  have d: "distinct (map (\<lambda>(_, idx, _). idx) ?m)" and img: "(\<lambda>(_, idx, _). unat idx) ` set ?m =
      {unat (let_gate_baseline s)..<unat (let_gate_baseline s) + unat (deposit_counter s)}"
    using assms(1) by (auto simp: ledger_def deposits_inv_def deposits_ok_def)
  have "bridge_counts E s = emitted_indices ?m" using assms(1) by (simp add: ledger_def)
  also have "filter_mset (\<lambda>(_, _, e). e) (mset ?m) = mset ?m"
    using emitted by (intro filter_mset_eq_conv [THEN iffD2]) auto
  then have "emitted_indices ?m = mset (map Some (map (\<lambda>(_, idx, _). idx) ?m))"
    by (simp add: emitted_indices_def comp_def case_prod_unfold)
  finally have "count (bridge_counts E s) (Some i) = count (mset (map Some (map (\<lambda>(_, idx, _). idx) ?m))) (Some i)"
    by simp
  also have "\<dots> = (if i \<in> set (map (\<lambda>(_, idx, _). idx) ?m) then 1 else 0)"
    by (rule count_map_Some [OF d])
  also have "i \<in> set (map (\<lambda>(_, idx, _). idx) ?m) \<longleftrightarrow> unat i \<in> (\<lambda>(_, idx, _). unat idx) ` set ?m"
    by (force intro: unsigned_word_eqI)
  finally show ?thesis unfolding img by simp
qed

section \<open>The transaction feed\<close>

text \<open>
  What is relied on of the node and the client: a note's nullifier is determined by its id, and the
  transaction feed answers with transactions of the range asked for.
\<close>

definition honest_node :: "(b256 \<Rightarrow> b256) \<Rightarrow> node_view \<Rightarrow> bool" where
  "honest_node nf V \<longleftrightarrow>
     (\<forall>ids rs r n i. nv_visible_notes V ids = Some rs \<longrightarrow> r \<in> set rs \<longrightarrow> in_nullifier r = Some n \<longrightarrow> in_id r = Some i \<longrightarrow>
        n = nf i) \<and>
     (\<forall>ids fs f n body. nv_notes_by_id V ids = Some fs \<longrightarrow> f \<in> set fs \<longrightarrow> fn_public f = Some (n, body) \<longrightarrow> n = nf (fn_id f)) \<and>
     (\<forall>lo hi txs t. nv_transactions V lo hi = Some txs \<longrightarrow> t \<in> set txs \<longrightarrow>
        ucast lo \<le> tx_block t \<and> tx_block t \<le> ucast hi \<and>
        (\<forall>x \<in> set (tx_inputs t). \<forall>i. ti_note_id x = Some i \<longrightarrow> ti_nullifier x = nf i))"

definition ids_ok :: "(b256 \<Rightarrow> b256) \<Rightarrow> (b256, b256) hashmap \<Rightarrow> bool" where
  "ids_ok nf ids \<longleftrightarrow> (\<forall>n i. hm_get ids n = Some i \<longrightarrow> n = nf i)"

lemma ordered_sound:
  assumes "ordered_account_transactions txs a = Inr out" and "(b, k, t) \<in> set out"
  shows "t \<in> set txs \<and> tx_block t = b"
proof -
  let ?mine = "filter (\<lambda>t. tx_account t = a) txs"
  let ?grp = "\<lambda>b. filter (\<lambda>t. tx_block t = b) ?mine"
  obtain gs where gs: "mapS (\<lambda>b. order_block b (?grp b)) (sort (remdups (map tx_block ?mine))) = Inr gs"
    and out: "out = concat gs"
    using assms(1) by (auto simp: ordered_account_transactions_def Let_def bindS_Inr_iff)
  let ?bs = "sort (remdups (map tx_block ?mine))"
  obtain g where "g \<in> set gs" and g: "(b, k, t) \<in> set g" using assms(2) out by auto
  then obtain j where j: "j < length gs" "g = gs ! j" by (auto simp: in_set_conv_nth)
  define b' where "b' = ?bs ! j"
  have "j < length ?bs" and o: "order_block b' (?grp b') = Inr g"
    using gs j unfolding mapS_Inr_iff b'_def by simp_all
  then have b': "b' \<in> tx_block ` set ?mine" using nth_mem [of j ?bs] unfolding b'_def by simp
  have "?grp b' \<noteq> []" using b' by (auto simp: filter_empty_conv)
  note snd = order_block_sound [OF o this]
  have "b = b'" using snd g by auto
  moreover have "t \<in> set (?grp b')"
  proof -
    have "t \<in> set (map (snd \<circ> snd) g)" using g by force
    then show ?thesis using snd by (metis mset_eq_setD)
  qed
  ultimately show ?thesis by simp
qed

definition ref_ok :: "(b256 \<Rightarrow> b256) \<Rightarrow> (u64 \<Rightarrow> bool) \<Rightarrow> b256 \<times> consumed_ref \<Rightarrow> bool" where
  "ref_ok nf B r = (B (cr_block (snd r)) \<and> (\<forall>i. cr_note_id (snd r) = Some i \<longrightarrow> fst r = nf i))"

lemma set_hm_insert_subset: "set (hm_insert k v m) \<subseteq> insert (k, v) (set m)"
  by (induction m) (auto simp: hm_insert_def)

lemma consumed_refs_ok:
  assumes "bridge_consumed_nullifiers txs a = Inr refs"
    and "\<And>t. t \<in> set txs \<Longrightarrow> B (tx_block t) \<and> (\<forall>x \<in> set (tx_inputs t). \<forall>i. ti_note_id x = Some i \<longrightarrow> ti_nullifier x = nf i)"
  shows "hm_wf refs \<and> (\<forall>r \<in> set refs. ref_ok nf B r)"
proof -
  let ?in = "\<lambda>block order (pos, input). hm_insert (ti_nullifier input)
      \<lparr>cr_block = block, cr_order = order, cr_note_id = ti_note_id input, cr_within_tx_pos = of_nat pos\<rparr>"
  let ?tx = "\<lambda>(block, order, t). fold (?in block order) (enumerate 0 (tx_inputs t))"
  let ?ok = "\<lambda>m. hm_wf m \<and> (\<forall>r \<in> set m. ref_ok nf B r)"
  obtain out where out: "ordered_account_transactions txs a = Inr out" and refs: "refs = fold ?tx out []"
    using assms(1) by (auto simp: bridge_consumed_nullifiers_def bindS_Inr_iff case_prod_unfold)
  have inner: "?ok (fold (?in b o') xs m)"
    if "?ok m" "B b" "\<And>k x i. (k, x) \<in> set xs \<Longrightarrow> ti_note_id x = Some i \<Longrightarrow> ti_nullifier x = nf i" for b o' xs m
    using that
  proof (induction xs arbitrary: m)
    case (Cons e xs)
    obtain k x where e: "e = (k, x)" by (cases e)
    have "ref_ok nf B (ti_nullifier x, \<lparr>cr_block = b, cr_order = o', cr_note_id = ti_note_id x, cr_within_tx_pos = of_nat k\<rparr>)"
      using Cons.prems(2,3) e by (auto simp: ref_ok_def)
    then have "?ok (?in b o' e m)"
      using Cons.prems(1) set_hm_insert_subset by (fastforce simp: e)
    then have "?ok (fold (?in b o') xs (?in b o' e m))"
      by (rule Cons.IH) (use Cons.prems(2,3) in auto)
    then show ?case by simp
  qed simp
  have all: "?ok (fold ?tx es m)" if "?ok m" "set es \<subseteq> set out" for es m
    using that
  proof (induction es arbitrary: m)
    case (Cons e es)
    obtain b o' t where e: "e = (b, o', t)" by (cases e)
    then have t: "t \<in> set txs" "tx_block t = b" using Cons.prems(2) ordered_sound [OF out] by auto
    have "?ok (fold (?in b o') (enumerate 0 (tx_inputs t)) m)"
    proof (rule inner [OF Cons.prems(1)])
      show "B b" using assms(2) [OF t(1)] t(2) by simp
      show "ti_nullifier x = nf i" if "(k, x) \<in> set (enumerate 0 (tx_inputs t))" "ti_note_id x = Some i" for k x i
      proof -
        have "x \<in> set (tx_inputs t)" using that(1) set_zip_rightD by (fastforce simp: enumerate_eq_zip)
        then show ?thesis using assms(2) [OF t(1)] that(2) by blast
      qed
    qed
    then have "?ok (fold ?tx es (?tx e m))" unfolding e prod.case by (rule Cons.IH) (use Cons.prems(2) in simp)
    then show ?case by simp
  qed simp
  show ?thesis unfolding refs by (rule all) simp_all
qed

lemma map_filter_keys:
  assumes "\<And>r x. r \<in> set rs \<Longrightarrow> g r = Some x \<Longrightarrow> k x = h r" and "distinct (map h rs)"
  shows "distinct (map k (List.map_filter g rs)) \<and> k ` set (List.map_filter g rs) \<subseteq> h ` set rs"
  using assms
proof (induction rs)
  case (Cons r rs)
  have IH: "distinct (map k (List.map_filter g rs)) \<and> k ` set (List.map_filter g rs) \<subseteq> h ` set rs"
    using Cons.prems by (intro Cons.IH) auto
  show ?case
  proof (cases "g r")
    case None
    then show ?thesis using IH by (auto simp: map_filter_simps)
  next
    case (Some x)
    then have "k x = h r" using Cons.prems(1) by simp
    moreover have "h r \<notin> h ` set rs" using Cons.prems(2) by simp
    ultimately show ?thesis using IH Some by (auto simp: map_filter_simps)
  qed
qed (simp add: map_filter_simps)

lemma durable_ids: "map_of (get_b2agg_note_ids ns s) n = Some i \<Longrightarrow> hm_get (b2agg_note_ids s) n = Some i"
  by (induction ns) (auto simp: get_b2agg_note_ids_def map_filter_simps split: option.splits if_splits)

lemma identified_refs_ok:
  assumes "hm_wf refs" and "\<forall>r \<in> set refs. ref_ok nf B r" and "ids_ok nf (b2agg_note_ids s)"
  shows "distinct (map (\<lambda>(_, _, i). i) (identified_refs refs s)) \<and> (\<forall>(_, cref, _) \<in> set (identified_refs refs s). B (cr_block cref))"
proof -
  let ?g = "\<lambda>(n, cref). map_option (\<lambda>i. (n, cref, i))
      (case cr_note_id cref of Some i \<Rightarrow> Some i | None \<Rightarrow> map_of (get_b2agg_note_ids (hm_keys refs) s) n)"
  have g: "fst x = nf (snd (snd x)) \<and> B (cr_block (fst (snd x))) \<and> fst x = fst r" if "r \<in> set refs" "?g r = Some x" for r x
    using that assms(2,3) durable_ids by (fastforce simp: ref_ok_def ids_ok_def split: prod.splits option.splits)
  have eq: "identified_refs refs s = List.map_filter ?g refs" by (simp add: identified_refs_def Let_def)
  have "distinct (map fst refs)" using assms(1) by (simp add: hm_wf_def hm_keys_def)
  then have all: "distinct (map fst (identified_refs refs s))"
    unfolding eq using g map_filter_keys [of refs ?g fst fst] by blast
  have x: "\<forall>x \<in> set (identified_refs refs s). fst x = nf (snd (snd x)) \<and> B (cr_block (fst (snd x)))"
  proof
    fix x assume "x \<in> set (identified_refs refs s)"
    then obtain r where "r \<in> set refs" "?g r = Some x" by (auto simp only: eq in_map_filter)
    then show "fst x = nf (snd (snd x)) \<and> B (cr_block (fst (snd x)))" using g [of r x] by simp
  qed
  have "map fst (identified_refs refs s) = map nf (map (\<lambda>(_, _, i). i) (identified_refs refs s))" using x by auto
  with all have "distinct (map (\<lambda>(_, _, i). i) (identified_refs refs s))" by (metis distinct_map)
  with x show ?thesis by auto
qed

lemma collect_eq:
  "collect_consumptions C bodies ret refs pos recs = Inr (pos', recs') \<Longrightarrow>
     recs' = recs @ List.map_filter (\<lambda>(n, cref, i). map_option (\<lambda>body. (i, consumed_record C cref body)) (hm_get bodies i)) refs"
proof (induction refs arbitrary: pos recs)
  case (Cons r refs)
  obtain n cref i where r: "r = (n, cref, i)" by (cases r)
  show ?case
  proof (cases "hm_get bodies i")
    case None
    then show ?thesis using Cons by (auto simp: r map_filter_simps split: if_splits)
  next
    case (Some body)
    with Cons.prems have "collect_consumptions C bodies ret refs (hm_insert i (cr_within_tx_pos cref) pos)
        (recs @ [(i, consumed_record C cref body)]) = Inr (pos', recs')" by (simp add: r)
    from Cons.IH [OF this] Some show ?thesis by (simp add: r map_filter_simps)
  qed
qed (simp add: map_filter_simps)

lemma public_bodies: "hm_get (public_b2agg_bodies N fs) i = Some body \<Longrightarrow> is_b2agg_note N body"
proof -
  let ?f = "\<lambda>f m. case fn_public f of None \<Rightarrow> m | Some (_, body) \<Rightarrow>
      if is_b2agg_note N body then hm_insert (fn_id f) body m else m"
  have step: "\<forall>i body. hm_get (?f f m) i = Some body \<longrightarrow> is_b2agg_note N body"
    if "\<forall>i body. hm_get m i = Some body \<longrightarrow> is_b2agg_note N body" for f m
    using that by (auto split: option.split)
  have "\<forall>i body. hm_get (fold ?f fs m) i = Some body \<longrightarrow> is_b2agg_note N body"
    if "\<forall>i body. hm_get m i = Some body \<longrightarrow> is_b2agg_note N body" for m
    using that
  proof (induction fs arbitrary: m)
    case (Cons f fs)
    show ?case unfolding fold_simps by (rule Cons.IH [OF step [OF Cons.prems]])
  qed simp
  from this [of "[]"] show "hm_get (public_b2agg_bodies N fs) i = Some body \<Longrightarrow> is_b2agg_note N body"
    by (simp add: public_b2agg_bodies_def)
qed

lemma resolve_ok:
  assumes "resolve_b2agg_consumptions N C V refs s = Inr (pos, recs)" and "hm_wf refs" and "\<forall>r \<in> set refs. ref_ok nf B r"
    and "ids_ok nf (b2agg_note_ids s)"
  shows "distinct (map fst recs) \<and>
         (\<forall>(i, nt) \<in> set recs. is_b2agg_note N nt \<and> in_consumer nt = Some (pc_bridge_id C) \<and>
            (\<exists>b. B b \<and> in_consumed_block nt = Some (ucast (ucast b :: u32))))"
proof (cases "identified_refs refs s = []")
  case True
  with assms(1) show ?thesis by (simp add: resolve_b2agg_consumptions_def)
next
  case False
  then obtain fs where c: "collect_consumptions C (public_b2agg_bodies N fs) (set (map fn_id fs)) (identified_refs refs s) [] []
      = Inr (pos, recs)"
    using assms(1) by (auto simp: resolve_b2agg_consumptions_def Let_def split: option.splits)
  let ?h = "\<lambda>(n, cref, i). map_option (\<lambda>body. (i, consumed_record C cref body)) (hm_get (public_b2agg_bodies N fs) i)"
  have recs: "recs = List.map_filter ?h (identified_refs refs s)" using collect_eq [OF c] by simp
  note ids = identified_refs_ok [OF assms(2-4)]
  have "fst x = (\<lambda>(_, _, i). i) r" if "?h r = Some x" for r x using that by (cases r) auto
  then have "distinct (map fst recs)"
    using ids map_filter_keys [of "identified_refs refs s" ?h fst "\<lambda>(_, _, i). i"] unfolding recs by blast
  moreover have "is_b2agg_note N nt \<and> in_consumer nt = Some (pc_bridge_id C) \<and>
      (\<exists>b. B b \<and> in_consumed_block nt = Some (ucast (ucast b :: u32)))" if "(i, nt) \<in> set recs" for i nt
  proof -
    from that obtain n cref body where r: "(n, cref, i) \<in> set (identified_refs refs s)"
      and b: "hm_get (public_b2agg_bodies N fs) i = Some body" and nt: "nt = consumed_record C cref body"
      unfolding recs by (auto simp: map_filter_def split: option.splits)
    have "B (cr_block cref)" using ids r by auto
    then show ?thesis using public_bodies [OF b] by (auto simp: nt consumed_record_def is_b2agg_note_def)
  qed
  ultimately show ?thesis by blast
qed

section \<open>The identities are kept\<close>

definition good_books :: "externals \<Rightarrow> (b256 \<Rightarrow> b256) \<Rightarrow> mem_store \<Rightarrow> bool" where
  "good_books E nf s \<longleftrightarrow> ledger E s \<and> ids_ok nf (b2agg_note_ids s)"

lemma good_put_ids:
  assumes "good_books E nf s" and "\<And>n i. (n, i) \<in> set es \<Longrightarrow> n = nf i"
  shows "good_books E nf (put_b2agg_note_ids es s)"
proof -
  have "ids_ok nf (fold (\<lambda>(nullifier, note_id) m. hm_or_insert nullifier note_id m) es m)" if "ids_ok nf m" for m
    using that assms(2)
  proof (induction es arbitrary: m)
    case (Cons e es)
    obtain n i where e: "e = (n, i)" by (cases e)
    have "ids_ok nf (hm_or_insert n i m)" using Cons.prems e by (auto simp: ids_ok_def split: option.splits)
    then show ?case using Cons.IH Cons.prems(2) by (simp add: e)
  qed simp
  then show ?thesis using assms(1) by (simp add: good_books_def put_b2agg_note_ids_def)
qed

interpretation good_kept: book_keeper "good_books E nf" "\<lambda>n i. n = nf i" for E nf
proof
  show "silent_rows (transactions s)" if "good_books E nf s" for s
    using that unfolding good_books_def by (blast intro: ledger_rows)
  show "good_books E nf s'" if "good_books E nf s" "same_books s s'" "silent_rows (transactions s')" for s s'
    using that ledger_same_books [of E s s'] by (simp add: good_books_def same_books_def)
qed (rule good_put_ids)

lemma honest_answers:
  assumes "honest_node nf V"
  shows "answers_ok (\<lambda>n i. n = nf i) N V"
proof -
  have "n = nf i" if rs: "nv_visible_notes V ids = Some rs" and m: "(n, i) \<in> set (b2agg_identities N rs)" for ids rs n i
  proof -
    from m obtain r where "r \<in> set rs" "in_nullifier r = Some n" "in_id r = Some i"
      unfolding b2agg_identities_def in_map_filter by (auto split: option.splits)
    with assms rs show ?thesis unfolding honest_node_def by blast
  qed
  moreover have "n = nf i" if fs: "nv_notes_by_id V ids = Some fs" and m: "(n, i) \<in> set (fetched_identities N fs)"
    for ids fs n i
  proof -
    from m obtain f body where "f \<in> set fs" "fn_public f = Some (n, body)" "fn_id f = i"
      unfolding fetched_identities_def in_map_filter by (auto split: option.splits if_splits)
    with assms fs show ?thesis unfolding honest_node_def by blast
  qed
  ultimately show ?thesis by (simp add: answers_ok_def)
qed

definition ids_are :: "(b256, b256) hashmap \<Rightarrow> mem_store \<Rightarrow> bool" where
  "ids_are ids s \<longleftrightarrow> b2agg_note_ids s = ids"

lemma stable_ids_b2agg: "stableE (ids_are ids) (project_b2agg_note E A N RC nt i bid net b bh ba)"
proof -
  have q: "stableE (ids_are ids) (bindE (doS (quarantine_unbridgeable_b2agg E N bid k nt b r d)) (\<lambda>_. okE B2Skipped))"
    for k r d by (intro stableE_rules) (simp add: ids_are_def)
  have f: "stableE (ids_are ids) (doS (backfill_metadata i md))" for i md by (intro stableE_rules) (simp add: ids_are_def)
  have c: "ids_are ids (snd (commit_b2agg_event_atomic E n ba bn bh txh lt on oa dn da am md s))" if "ids_are ids s"
    for n bn txh lt on oa dn da am md s
    using that by (cases rule: commit_b2agg_cases [of s n E ba bn bh txh lt on oa dn da am md])
      (simp_all add: ids_are_def add_bridge_event_def)
  have e: "stableE (ids_are ids) (emit_b2agg E N nt k bid b bh ba origin dn da am bytes)" for k origin dn da am bytes
    unfolding emit_b2agg_def by (intro stableE_if q stableE_bindE stableE_tryS stableE_okE c)
  have r: "stableE (ids_are ids) (project_reserved_b2agg E A N RC nt k bid net b bh ba)" for k
    unfolding project_reserved_b2agg_def Let_def
    by (auto intro!: stableE_rules e q f split: sum.split list.split option.split emit_metadata.split)
  have v: "stableE (ids_are ids) (tryS (reserve_deposit_index k))" for k
  proof (rule stableE_tryS)
    fix s assume "ids_are ids s"
    then show "ids_are ids (snd (reserve_deposit_index k s))"
      by (cases rule: reserve_cases [of s k]) (simp_all add: ids_are_def)
  qed
  show ?thesis
    unfolding project_b2agg_note_def Let_def
    by (intro stableE_if stableE_bindE stableE_askS stableE_okE)
      (auto intro!: stableE_okE stableE_bindE r v split: b2agg_consumer_class.split)
qed

lemma ids_are_migrate: "ids_are ids s \<Longrightarrow> ids_are ids (migrate_legacy_keys E N auth s)"
proof -
  have "b2agg_note_ids (migrate_legacy_deposit_key E l k b t s) = b2agg_note_ids s" for l k b t s
    by (simp add: migrate_legacy_deposit_key_def Let_def split: option.split)
  then show "ids_are ids s \<Longrightarrow> ids_are ids (migrate_legacy_keys E N auth s)"
    unfolding migrate_legacy_keys_def
    by (induction auth arbitrary: s) (auto simp: ids_are_def Let_def split: option.split)
qed

lemma stable_good_note:
  assumes "hex_ok E"
  shows "stableE (store_is (good_books E nf)) (project_note E A N C V om b bh entry)"
proof -
  have "stableE (good_books E nf) (project_b2agg_note E A N RC nt i bid net b bh ba)" for RC nt i bid net ba
    using stable_ledger_b2agg [OF assms] stable_ids_b2agg by (simp add: stableE_def good_books_def ids_are_def)
  moreover have "stableE (good_books E nf) (project_claim_note E N nt om s i b bh ba now)" for nt s i ba now
    unfolding project_claim_note_def by (intro good_kept.by_books stable_books_claim)
  moreover have "stableE (good_books E nf) (project_ger_note E N nt om s i b bh ts)" for nt s i ts
    by (intro good_kept.by_books stable_books_ger)
  ultimately show ?thesis
    unfolding project_note_def
    by (intro stableE_case_prod stableE_if stableE_bindE stable_need stable_in_store stableE_okE)
qed

lemma stable_good_to_tip:
  assumes "hex_ok E"
  shows "stableE (store_is (good_books E nf)) (project_to_tip E A N C V consumed tip)"
proof -
  have b: "stableE (store_is (good_books E nf)) (project_block_notes E A N C V ns om b pos)" for ns om b pos
    unfolding project_block_notes_def
    by (intro stableE_if stableE_bindE stableE_okE stableE_errE stable_block_hash stable_project_each stable_good_note
        assms stable_frontier stable_write_pj) (simp add: set_latest_block_number_def good_books_def)
  have bs: "stableE (store_is (good_books E nf)) (project_blocks f n)"
    if "\<And>b. stableE (store_is (good_books E nf)) (f b)" for f n
    using that by (induction n) (auto intro!: stableE_rules simp: set_projector_cursor_def good_books_def)
  have m: "good_books E nf (migrate_legacy_keys E N auth s)" if "good_books E nf s" for auth s
    using that ledger_migrate_keys ids_are_migrate by (simp add: good_books_def ids_are_def)
  show ?thesis
    unfolding project_to_tip_def Let_def
    by (intro stableE_bindE stable_need stable_read_pj stableE_case_sum stableE_case_prod stableE_errE stableE_liftE
        stable_write_pj stable_audit_step bs b m)
qed

lemma stable_good_tick:
  assumes "hex_ok E" and "honest_node nf V"
  shows "stableE (store_is (good_books E nf)) (projector_tick E A N R C V)"
  unfolding projector_tick_def Let_def
  by (intro stableE_bindE stable_need stable_tolerate stableE_if stable_read_pj stableE_okE good_kept.reconcile_keeps
      honest_answers good_kept.duplicates_keep good_kept.backfill_keeps stable_good_to_tip assms)

section \<open>A tick that seals blocks\<close>

lemma migrate_keys_baseline: "let_gate_baseline (migrate_legacy_keys E N auth s) = let_gate_baseline s"
proof -
  have "let_gate_baseline (migrate_legacy_deposit_key E l k b t s) = let_gate_baseline s" for l k b t s
    by (simp add: migrate_legacy_deposit_key_def Let_def split: option.split)
  then show ?thesis
    unfolding migrate_legacy_keys_def by (induction auth arbitrary: s) (auto simp: Let_def split: option.split)
qed

lemma bucket_keys:
  assumes "\<And>i nt. (i, nt) \<in> set auth \<Longrightarrow> is_b2agg_note N nt"
  shows "exit_keys N (bucket N consumed auth b) = {na_id_text N i |i nt. (i, nt) \<in> set auth \<and> in_consumed_block nt = Some b}"
proof -
  have "(Some i, nt) \<in> set (bucket N consumed auth b) \<and> is_b2agg_note N nt \<longleftrightarrow>
      (i, nt) \<in> set auth \<and> in_consumed_block nt = Some b" for i nt
    using assms by (force simp: bucket_def)
  then show ?thesis by (simp add: exit_keys_def)
qed

lemma blocks_above:
  fixes c tip :: u64
  assumes "c < tip"
  shows "(\<Union>i < unat tip - unat c. K (c + of_nat (Suc i))) = (\<Union>b \<in> {b. c < b \<and> b \<le> tip}. K b)"
proof -
  have "\<exists>i < unat tip - unat c. b = c + of_nat (Suc i)" if "c < b" "b \<le> tip" for b
  proof -
    have lt: "unat c < unat b" "unat b \<le> unat tip" using that by (simp_all add: word_less_nat_alt word_le_nat_alt)
    have "b = c + of_nat (Suc (unat b - unat c - 1))"
    proof -
      have "Suc (unat b - unat c - 1) = unat b - unat c" using lt by simp
      then show ?thesis using lt by (simp add: of_nat_diff)
    qed
    then show ?thesis using lt by (intro exI [of _ "unat b - unat c - 1"]) simp
  qed
  moreover have "c < c + of_nat (Suc i) \<and> c + of_nat (Suc i) \<le> tip" if "i < unat tip - unat c" for i
  proof -
    have "unat c + Suc i \<le> unat tip" using that by simp
    moreover have "unat tip < 2 ^ 64" using unsigned_less [of tip, where ?'a = nat] by simp
    ultimately have "unat (c + of_nat (Suc i)) = unat c + Suc i"
      by (simp add: unat_word_ariths unsigned_of_nat take_bit_nat_eq_self del: of_nat_Suc)
    with \<open>unat c + Suc i \<le> unat tip\<close> show ?thesis by (simp add: word_less_nat_alt word_le_nat_alt del: of_nat_Suc)
  qed
  ultimately show ?thesis by blast
qed

lemma audit_keeps:
  "pj_store (snd (audit_step E N C consumed p)) = pj_store p"
  "pj_cursor (snd (audit_step E N C consumed p)) = pj_cursor p"
  by (simp_all add: audit_step_def audit_completeness_def bindE_def read_pj_def modify_pj_def tolerate_def Let_def
      split: prod.split)

text \<open>The steps of a successful projection to the tip.\<close>

lemma to_tip_run:
  assumes "project_to_tip E A N C V consumed tip p = (Inr (), p')"
  obtains outputs txs refs pos recs on_chain p2 where
    "nv_transactions V (ucast (pj_cursor p + 1)) (ucast tip) = Some txs"
    "bridge_consumed_nullifiers txs (pc_bridge_id C) = Inr refs"
    "resolve_b2agg_consumptions N C V refs (pj_store p) = Inr (pos, recs)"
    "nv_bridge_leaves V = Some (Some on_chain)"
    "let_gate (map (\<lambda>(i, _). na_id_text N i) (sort_key (auth_key pos) recs)) on_chain
       (migrate_legacy_keys E N (sort_key (auth_key pos) recs) (pj_store p)) = Inr ()"
    "project_blocks (\<lambda>block. project_block_notes E A N C V (bucket N consumed (sort_key (auth_key pos) recs) block)
       (output_metadata_of outputs) block pos) (unat tip - unat (pj_cursor p))
       (p\<lparr>pj_store := migrate_legacy_keys E N (sort_key (auth_key pos) recs) (pj_store p)\<rparr>) = (Inr (), p2)"
    "pj_store p' = pj_store p2" "pj_cursor p' = pj_cursor p2"
proof -
  obtain outputs where o: "nv_output_notes V = Some outputs"
    using assms by (auto simp: project_to_tip_def need_def bindE_def split: option.splits)
  obtain txs where t: "nv_transactions V (ucast (pj_cursor p + 1)) (ucast tip) = Some txs"
    using assms o by (auto simp: project_to_tip_def need_def bindE_def read_pj_def split: option.splits)
  obtain refs where r: "bridge_consumed_nullifiers txs (pc_bridge_id C) = Inr refs"
    using assms o t by (auto simp: project_to_tip_def need_def bindE_def read_pj_def split: sum.splits)
  obtain pos recs where v: "resolve_b2agg_consumptions N C V refs (pj_store p) = Inr (pos, recs)"
    using assms o t r by (auto simp: project_to_tip_def need_def bindE_def read_pj_def liftE_def split: sum.splits)
  let ?auth = "sort_key (auth_key pos) recs"
  let ?p = "p\<lparr>pj_store := migrate_legacy_keys E N ?auth (pj_store p)\<rparr>"
  note unfold = project_to_tip_def need_def bindE_def read_pj_def liftE_def write_pj_def Let_def
  obtain on_chain where l: "nv_bridge_leaves V = Some (Some on_chain)"
    using assms o t r v by (auto simp: unfold split: option.splits)
  have g: "let_gate (map (\<lambda>(i, _). na_id_text N i) ?auth) on_chain (pj_store ?p) = Inr ()"
    using assms o t r v l by (auto simp: unfold split: sum.splits)
  obtain p2 where b: "project_blocks (\<lambda>block. project_block_notes E A N C V (bucket N consumed ?auth block)
      (output_metadata_of outputs) block pos) (unat tip - unat (pj_cursor p)) ?p = (Inr (), p2)"
    and a: "audit_step E N C consumed p2 = (Inr (), p')"
    using assms o t r v l g by (auto simp: unfold split: sum.splits prod.splits)
  show thesis
    by (rule that [OF t r v l g [simplified] b]) (use audit_keeps [of E N C consumed p2] a in simp_all)
qed

text \<open>Exactly one bridge event per leaf between the baseline and the number of leaves.\<close>

definition every_leaf_once :: "externals \<Rightarrow> mem_store \<Rightarrow> u64 \<Rightarrow> bool" where
  "every_leaf_once E s n \<longleftrightarrow>
     (\<forall>i. count (bridge_counts E s) (Some i) = (if unat (let_gate_baseline s) \<le> unat i \<and> unat i < unat n then 1 else 0))"

lemma u32_of_u64: "unat b < 2 ^ 32 \<Longrightarrow> ucast (ucast (b :: u64) :: u32) = b"
  by (rule unsigned_word_eqI [where ?'a = nat]) (simp add: unsigned_ucast_eq unsigned_take_bit_eq take_bit_nat_eq_self)

lemma word_next:
  fixes c tip :: u64
  assumes "c < tip"
  shows "unat (c + 1) = unat c + 1" and "c < b \<longleftrightarrow> c + 1 \<le> b"
proof -
  have "unat c + 1 < 2 ^ 64"
    using assms unsigned_less [of tip, where ?'a = nat] by (simp add: word_less_nat_alt)
  then show u: "unat (c + 1) = unat c + 1" by (simp add: unat_add_no_overflow)
  show "c < b \<longleftrightarrow> c + 1 \<le> b" unfolding word_less_nat_alt word_le_nat_alt u by auto
qed

lemma to_tip_accounts:
  assumes "hex_ok E" and "inj (na_id_text N)" and "honest_node nf V" and "good_books E nf (pj_store p)"
    and "pj_cursor p < tip" and "unat tip < 2 ^ 32" and "project_to_tip E A N C V consumed tip p = (Inr (), p')"
  shows "\<exists>n. nv_bridge_leaves V = Some (Some n) \<and> pj_cursor p' = tip \<and> latest_block_number (pj_store p') = tip \<and>
             every_leaf_once E (pj_store p') n"
proof -
  from assms(7) obtain outputs txs refs pos recs on_chain p2 where
    txs: "nv_transactions V (ucast (pj_cursor p + 1)) (ucast tip) = Some txs"
    and refs: "bridge_consumed_nullifiers txs (pc_bridge_id C) = Inr refs"
    and recs: "resolve_b2agg_consumptions N C V refs (pj_store p) = Inr (pos, recs)"
    and n: "nv_bridge_leaves V = Some (Some on_chain)"
    and gate: "let_gate (map (\<lambda>(i, _). na_id_text N i) (sort_key (auth_key pos) recs)) on_chain
       (migrate_legacy_keys E N (sort_key (auth_key pos) recs) (pj_store p)) = Inr ()"
    and run: "project_blocks (\<lambda>block. project_block_notes E A N C V (bucket N consumed (sort_key (auth_key pos) recs) block)
       (output_metadata_of outputs) block pos) (unat tip - unat (pj_cursor p))
       (p\<lparr>pj_store := migrate_legacy_keys E N (sort_key (auth_key pos) recs) (pj_store p)\<rparr>) = (Inr (), p2)"
    and p': "pj_store p' = pj_store p2" "pj_cursor p' = pj_cursor p2"
    by (rule to_tip_run)
  define auth where "auth = sort_key (auth_key pos) recs"
  define s1 where "s1 = migrate_legacy_keys E N auth (pj_store p)"
  let ?keys = "map (\<lambda>(i, _). na_id_text N i) auth" and ?c = "pj_cursor p"
  let ?B = "\<lambda>b. ?c < b \<and> b \<le> tip"
  note next1 = word_next(2) [OF assms(5)]
  have lo: "ucast (ucast (?c + 1) :: u32) = ?c + 1" and hi: "ucast (ucast tip :: u32) = tip"
    using assms(5,6) word_next(1) [OF assms(5)] by (intro u32_of_u64; simp add: word_less_nat_alt)+
  have B: "?B (tx_block t) \<and> (\<forall>x \<in> set (tx_inputs t). \<forall>i. ti_note_id x = Some i \<longrightarrow> ti_nullifier x = nf i)"
    if "t \<in> set txs" for t
    using assms(3) txs that next1 lo hi unfolding honest_node_def by metis
  note refs_ok = consumed_refs_ok [OF refs B]
  have "ids_ok nf (b2agg_note_ids (pj_store p))" using assms(4) by (simp add: good_books_def)
  from resolve_ok [OF recs _ _ this] refs_ok
  have d: "distinct (map fst recs)" and each: "(i, nt) \<in> set recs \<Longrightarrow> is_b2agg_note N nt \<and> in_consumer nt = Some (pc_bridge_id C) \<and>
      (\<exists>b. ?B b \<and> in_consumed_block nt = Some (ucast (ucast b :: u32)))" for i nt
    by blast+
  have auth: "is_b2agg_note N nt" "in_consumer nt = Some (pc_bridge_id C)" "\<exists>b. ?B b \<and> in_consumed_block nt = Some b"
    if "(i, nt) \<in> set auth" for i nt
  proof -
    have "(i, nt) \<in> set recs" using that by (simp add: auth_def)
    note e = each [OF this]
    then show "is_b2agg_note N nt" "in_consumer nt = Some (pc_bridge_id C)" by simp_all
    from e obtain b where b: "?B b" "in_consumed_block nt = Some (ucast (ucast b :: u32))" by blast
    have "unat b < 2 ^ 32" using b(1) assms(6) by (simp add: word_le_nat_alt)
    with b u32_of_u64 show "\<exists>b. ?B b \<and> in_consumed_block nt = Some b" by metis
  qed
  have keys: "distinct ?keys"
  proof -
    have "distinct (map fst auth)"
      using d mset_eq_imp_distinct_iff [of "map fst auth" "map fst recs"] by (simp add: auth_def)
    then have "distinct (map (na_id_text N) (map fst auth))" using assms(2) by (simp add: distinct_map inj_on_def inj_def)
    then show ?thesis by (simp add: comp_def case_prod_unfold)
  qed
  have l1: "ledger E s1" using assms(4) by (simp add: s1_def good_books_def ledger_migrate_keys)
  let ?R = "reserved s1" and ?b = "let_gate_baseline s1" and ?ids = "b2agg_note_ids s1"
  have w1: "went_through E ?R ?b ?ids ?c (p\<lparr>pj_store := s1\<rparr>)" using l1 by (simp add: went_through_def leaves_def)
  let ?K = "\<lambda>b. exit_keys N (bucket N consumed auth b)"
  have one: "went_through E (R \<union> ?K b) ?b ?ids c q' \<and> latest_block_number (pj_store q') = b \<and>
      first_unemitted_reservation (pj_store q') = None"
    if "project_block_notes E A N C V (bucket N consumed auth b) (output_metadata_of outputs) b pos q = (Inr m, q')"
      "went_through E R ?b ?ids c q" for b R c q m q'
    using auth(2) by (intro block_reserves [OF assms(1) that]) (auto simp: bridge_consumed_def bucket_def)
  have n0: "0 < unat tip - unat ?c" using assms(5) by (simp add: word_less_nat_alt)
  then have end_: "?c + of_nat (unat tip - unat ?c) = tip" by (simp add: of_nat_diff)
  have "went_through E (?R \<union> (\<Union>i < unat tip - unat ?c. ?K (?c + of_nat (Suc i)))) ?b ?ids
      (?c + of_nat (unat tip - unat ?c)) p2 \<and> (0 < unat tip - unat ?c \<longrightarrow>
        latest_block_number (pj_store p2) = ?c + of_nat (unat tip - unat ?c) \<and>
        first_unemitted_reservation (pj_store p2) = None)"
    by (rule blocks_reserve [OF _ run [folded auth_def, folded s1_def] w1]) (rule one)
  note fin = this [unfolded end_ blocks_above [OF assms(5), of ?K]]
  have union: "(\<Union>b \<in> {b. ?B b}. ?K b) = set ?keys"
    using bucket_keys [of auth N consumed] auth(1,3) by force
  let ?s = "pj_store p2"
  have l2: "ledger E ?s" and R2: "reserved ?s = ?R \<union> set ?keys" and b2: "let_gate_baseline ?s = ?b"
    using fin union by (auto simp: went_through_def leaves_def)
  have inv: "deposits_inv s1" "deposits_inv ?s" using l1 l2 by (simp_all add: ledger_def)
  note c1 = card_reserved [OF inv(1)] and c2 = card_reserved [OF inv(2)]
  have "length ?keys \<le> unat (deposit_counter ?s)"
    using distinct_card [OF keys] card_mono [OF c2(1), of "set ?keys"] c2(2) R2 by auto
  then have "length ?keys < 2 ^ 64" using unsigned_less [of "deposit_counter ?s", where ?'a = nat] by simp
  from let_gate_ok [OF gate [folded auth_def, folded s1_def] keys this]
  have "unat on_chain = unat ?b + (card ?R + card (set ?keys - ?R))" using c1(2) by simp
  also have "card ?R + card (set ?keys - ?R) = card (reserved ?s)"
    unfolding R2 using c1(1) card_Un_disjoint [of ?R "set ?keys - ?R"] by simp
  finally have "unat on_chain = unat (let_gate_baseline ?s) + unat (deposit_counter ?s)" using c2(2) b2 by simp
  moreover have "first_unemitted_reservation ?s = None" "latest_block_number ?s = tip" "pj_cursor p2 = tip"
    using fin n0 by (auto simp: went_through_def)
  ultimately show ?thesis
    using n p' frontier_counts [OF l2] by (simp add: every_leaf_once_def)
qed

definition cursor_is :: "u64 \<Rightarrow> projector \<Rightarrow> bool" where
  "cursor_is c p \<longleftrightarrow> pj_cursor p = c"

lemma cursor_in_store: "stableE (cursor_is c) (in_store m)"
  by (simp add: stableE_def cursor_is_def in_store_def case_prod_unfold split: sum.split)

lemma cursor_write_pj: "stableE (cursor_is c) (write_pj f)"
  by (simp add: stableE_def cursor_is_def write_pj_def)

lemma cursor_modify_pj: "(\<And>p. pj_cursor (f p) = pj_cursor p) \<Longrightarrow> stableE (cursor_is c) (modify_pj f)"
  by (simp add: stableE_def cursor_is_def modify_pj_def)

lemma cursor_reconcile: "stableE (cursor_is c) (reconcile_notes E N C V tip)"
proof -
  have e: "stableE (cursor_is c) (import_each V ids)" for ids
    by (induction ids) (auto intro: stableE_okE stableE_errE split: import_result.split simp del: okE_app errE_app)
  have i: "stableE (cursor_is c) (import_reconcile_window N V cs)" for cs
    unfolding import_reconcile_window_def persist_b2agg_note_ids_def persist_missing_b2agg_note_ids_def Let_def
      ensure_complete_note_response_def
    by (intro stable_need stableE_bindE stableE_if stableE_okE stableE_errE cursor_write_pj)
      (auto intro: stableE_okE stableE_errE e split: import_result.split)
  have w: "stableE (cursor_is c) (reconcile_window E N V w)" for w
    unfolding reconcile_window_def advance_reconcile_cursor_def
    by (intro stableE_case_prod stableE_bindE stable_need stableE_if stableE_okE i cursor_write_pj cursor_modify_pj) simp
  have "stableE (cursor_is c) (reconcile_batches E N C V tip n)" for n
    by (induction n) (auto simp: Let_def intro!: stableE_bindE stable_read_pj stable_forE w stableE_if stableE_okE)
  then show ?thesis by (simp add: reconcile_notes_def)
qed

lemma cursor_duplicates: "stableE (cursor_is c) (reconcile_pending_duplicates E R V)"
  unfolding reconcile_pending_duplicates_def reconcile_pending_duplicate_def
  by (intro stableE_bindE stable_read_pj cursor_modify_pj stable_forE stable_tolerate stableE_liftE stableE_case_option
      stableE_case_sum stableE_okE stableE_errE cursor_in_store) simp_all

lemma cursor_backfill: "stableE (cursor_is c) (backfill_synthetic_claim_calldata E N consumed k)"
  unfolding backfill_synthetic_claim_calldata_def backfill_one_def
  by (intro stable_forE stableE_bindE stableE_if stableE_okE stable_read_pj cursor_modify_pj cursor_in_store) simp_all

text \<open>A successful tick either leaves the cursor or projects to the tip.\<close>

lemma tick_cases:
  assumes "projector_tick E A N R C V p = (Inr c, p')" and "honest_node nf V" and "good_books E nf (pj_store p)"
  obtains (idle) "pj_cursor p' = pj_cursor p"
  | (sealed) tip consumed q where "nv_sync_height V = Some tip" "good_books E nf (pj_store q)" "pj_cursor q = pj_cursor p"
      "pj_cursor q < ucast tip" "project_to_tip E A N C V consumed (ucast tip) q = (Inr (), p')" "c = pj_cursor p'"
proof -
  obtain tip where tip: "nv_sync_height V = Some tip"
    using assms(1) by (auto simp: projector_tick_def need_def bindE_def split: option.splits)
  let ?t = "ucast tip :: u64"
  define p1 where "p1 = snd (reconcile_notes E N C V ?t p)"
  define p2 where "p2 = snd (reconcile_pending_duplicates E R V p1)"
  have c2: "pj_cursor p2 = pj_cursor p" "good_books E nf (pj_store p2)"
  proof -
    have "cursor_is (pj_cursor p) p1" "store_is (good_books E nf) p1"
      using cursor_reconcile good_kept.reconcile_keeps [OF honest_answers [OF assms(2)]] assms(3)
      unfolding p1_def stableE_def by (simp_all add: cursor_is_def store_is_def)
    then have "cursor_is (pj_cursor p) p2" "store_is (good_books E nf) p2"
      using cursor_duplicates good_kept.duplicates_keep unfolding p2_def stableE_def by blast+
    then show "pj_cursor p2 = pj_cursor p" "good_books E nf (pj_store p2)" by (simp_all add: cursor_is_def store_is_def)
  qed
  show thesis
  proof (cases "0 < saturating_sub ?t (pj_reconcile_cursor p2)")
    case True
    then have "p' = p2"
      using assms(1) by (simp add: projector_tick_def tip need_def bindE_def tolerate_def read_pj_def Let_def flip: p1_def p2_def)
    with c2 show thesis by (intro idle) simp
  next
    case False
    then obtain consumed where cs: "nv_consumed V = Some consumed"
      using assms(1)
      by (auto simp: projector_tick_def tip need_def bindE_def tolerate_def read_pj_def Let_def simp flip: p1_def p2_def
          split: option.splits)
    define p3 where "p3 = snd (backfill_synthetic_claim_calldata E N consumed (pj_cursor p2) p2)"
    have c3: "pj_cursor p3 = pj_cursor p" "good_books E nf (pj_store p3)"
    proof -
      have "cursor_is (pj_cursor p) p3" "store_is (good_books E nf) p3"
        using cursor_backfill good_kept.backfill_keeps c2 unfolding p3_def stableE_def
        by (simp_all add: cursor_is_def store_is_def)
      then show "pj_cursor p3 = pj_cursor p" "good_books E nf (pj_store p3)" by (simp_all add: cursor_is_def store_is_def)
    qed
    have run: "(if ?t \<le> pj_cursor p2 then okE (pj_cursor p2)
        else bindE (project_to_tip E A N C V consumed ?t) (\<lambda>_. read_pj pj_cursor)) p3 = (Inr c, p')"
      using assms(1) False
      by (simp add: projector_tick_def tip cs need_def bindE_def [of "tolerate _"] bindE_def [of "read_pj _"] tolerate_def read_pj_def
          Let_def flip: p1_def p2_def p3_def)
    show thesis
    proof (cases "?t \<le> pj_cursor p2")
      case True
      with run c3 show thesis by (intro idle) simp
    next
      case False
      with run have "project_to_tip E A N C V consumed ?t p3 = (Inr (), p')" "c = pj_cursor p'"
        by (auto simp: bindE_def read_pj_def split: prod.splits sum.splits)
      with False c2 c3 show thesis by (intro sealed [OF tip c3(2,1)]) simp_all
    qed
  qed
qed

section \<open>Properties\<close>


definition demo_config_pj :: projector_config where
  "demo_config_pj = \<lparr>pc_bridge_id = 8, pc_local_network_id = 77, pc_expected_ger_sender = 6, pc_expected_claim_sender = 6,
     pc_bridge_address = ''0x7'', pc_reconcile_chunk = 1000, pc_reconcile_concurrency = 8\<rparr>"

definition demo_node :: node_view where
  "demo_node = \<lparr>nv_sync_height = Some 5, nv_sync_note_ids = (\<lambda>_ _. Some []), nv_batches = 0,
     nv_known_notes = (\<lambda>_. Some []), nv_import_notes = (\<lambda>_. Imported), nv_import_note = (\<lambda>_. Imported),
     nv_visible_notes = (\<lambda>_. Some []), nv_notes_by_id = (\<lambda>_. Some [\<lparr>fn_id = 21, fn_public = Some (21, demo_exit)\<rparr>]),
     nv_consumed = Some [], nv_output_notes = Some [],
     nv_transactions = (\<lambda>lo hi. if lo \<le> 5 \<and> 5 \<le> hi then Some [\<lparr>tx_account = 8, tx_block = 5, tx_initial = 1, tx_final = 2,
       tx_inputs = [\<lparr>ti_nullifier = 21, ti_note_id = Some 21\<rparr>]\<rparr>] else Some []),
     nv_bridge_leaves = Some (Some 1), nv_recovery = demo_recovery,
     nv_miden = \<lparr>mv_sync = True, mv_account = True, mv_ger = (\<lambda>_. None), mv_nullifier = (\<lambda>_ _. None),
       mv_output_note = (\<lambda>_. None)\<rparr>, nv_now = 1\<rparr>"

definition demo_projector :: projector where
  "demo_projector = \<lparr>pj_store = demo_exit_store, pj_block_state = new_block_state demo_ext, pj_cursor = 4,
     pj_reconcile_cursor = 5, pj_pending_duplicate_cursor = None, pj_audit_resolved = {}, pj_audit_ticks = 1,
     pj_calldata_resolved = {}\<rparr>"

lemma demo_feed:
  "bridge_consumed_nullifiers [\<lparr>tx_account = 8, tx_block = 5, tx_initial = 1, tx_final = 2,
     tx_inputs = [\<lparr>ti_nullifier = 21, ti_note_id = Some 21\<rparr>]\<rparr>] 8 =
     Inr [(21, \<lparr>cr_block = 5, cr_order = 0, cr_note_id = Some 21, cr_within_tx_pos = 0\<rparr>)]"
  by (simp add: bridge_consumed_nullifiers_def ordered_account_transactions_def order_block_def Let_def hm_insert_def)

lemma demo_resolve:
  "resolve_b2agg_consumptions demo_notes demo_config_pj demo_node
     [(21, \<lparr>cr_block = 5, cr_order = 0, cr_note_id = Some 21, cr_within_tx_pos = 0\<rparr>)] demo_exit_store =
     Inr ([(21, 0)], [(21, demo_exit\<lparr>in_consumed_block := Some 5, in_tx_order := Some 0\<rparr>)])"
  by (simp add: resolve_b2agg_consumptions_def identified_refs_def Let_def map_filter_simps demo_node_def
      public_b2agg_bodies_def is_b2agg_note_def demo_exit_def demo_notes_def hm_insert_def hm_get_def consumed_record_def
      demo_config_pj_def)

lemma demo_emit:
  obtains s' where "project_b2agg_note demo_ext demo_api demo_notes demo_recovery
      (demo_exit\<lparr>in_consumed_block := Some 5, in_tx_order := Some 0\<rparr>) 21 8 77 5 bh ''0x7'' demo_exit_store = (Inr B2Emitted, s')"
    and "processed_notes s' = [(na_id_text demo_notes 21, (0, True))]"
proof -
  have scale: "reverse_scale_amount 100 10 = Inr 1000000000000"
    by (simp add: reverse_scale_amount_def checked_pow_def checked_mul_def)
  let ?p = "project_b2agg_note demo_ext demo_api demo_notes demo_recovery
      (demo_exit\<lparr>in_consumed_block := Some 5, in_tx_order := Some 0\<rparr>) 21 8 77 5 bh ''0x7'' demo_exit_store"
  have "fst ?p = Inr B2Emitted \<and> processed_notes (snd ?p) = [(na_id_text demo_notes 21, (0, True))]"
    by (simp add: project_b2agg_note_def project_reserved_b2agg_def emit_b2agg_def is_b2agg_note_def demo_exit_def
        demo_notes_def [THEN arg_cong, of na_b2agg_root] demo_exit_store_def classify_b2agg_consumer_def askS_def bindE_def
        tryS_def is_note_processed_def reserve_deposit_index_def u32_try_from_def checked_add_def Let_def parse_of_layout
        resolve_faucet_origin_def get_faucet_by_id_def demo_faucet_def scale emit_metadata_of_def
        recover_bridge_out_metadata_def MAX_BRIDGE_EVENT_METADATA_BYTES_def commit_b2agg_event_atomic_def
        add_bridge_event_def hm_insert_def hm_get_Cons)
  then show thesis by (intro that [of "snd ?p"]) (metis prod.collapse)+
qed

lemma demo_let_gate: "let_gate [na_id_text demo_notes 21] 1 demo_exit_store = Inr ()"
  by (simp add: let_gate_def get_accounted_deposit_count_def demo_exit_store_def checked_add_def Let_def existing_indices_def
      get_deposit_indices_def map_filter_simps first_missing_def)

lemma demo_tick: "fst (projector_tick demo_ext demo_api demo_notes R demo_config_pj demo_node demo_projector) = Inr 5 \<and>
   pj_cursor (snd (projector_tick demo_ext demo_api demo_notes R demo_config_pj demo_node demo_projector)) = 5"
proof -
  let ?e = "demo_exit\<lparr>in_consumed_block := Some 5, in_tx_order := Some 0\<rparr>"
  obtain bh bs where bh: "get_block_hash demo_ext 5 (new_block_state demo_ext) = (bh, bs)" by fastforce
  obtain s' where s': "project_b2agg_note demo_ext demo_api demo_notes demo_recovery ?e 21 8 77 5 bh ''0x7'' demo_exit_store =
      (Inr B2Emitted, s')" "processed_notes s' = [(na_id_text demo_notes 21, (0, True))]" by (rule demo_emit)
  have b2: "is_b2agg_note demo_notes ?e" by (simp add: is_b2agg_note_def demo_notes_def demo_exit_def)
  have mig: "migrate_legacy_keys demo_ext demo_notes [(21, ?e)] demo_exit_store = demo_exit_store"
    by (simp add: migrate_legacy_keys_def migrate_legacy_deposit_key_def demo_exit_store_def Let_def)
  have nu: "first_unemitted_reservation s' = None" using s'(2) by (simp add: first_unemitted_reservation_def)
  have store: "tx_note_links demo_exit_store = []" "transactions demo_exit_store = []" by (simp_all add: demo_exit_store_def)
  let ?p = "demo_projector\<lparr>pj_block_state := bs, pj_store := set_projector_cursor 5 (set_latest_block_number 5 s'), pj_cursor := 5\<rparr>"
  have tip: "project_to_tip demo_ext demo_api demo_notes demo_config_pj demo_node [] 5 demo_projector =
      (Inr (), ?p\<lparr>pj_audit_ticks := 2\<rparr>)"
    using demo_feed demo_resolve mig demo_let_gate bh s'(1) nu b2
    by (simp add: project_to_tip_def project_block_notes_def project_note_def demo_node_def need_def read_pj_def write_pj_def
        liftE_def modify_pj_def bindE_def in_store_def hash_of_block_def emitted_frontier_gate_def demo_projector_def
        demo_config_pj_def audit_step_def AUDIT_EVERY_N_TICKS_def bucket_def unordered_siblings_def tie_step_def
        output_metadata_of_def Let_def hm_insert_def)
  have rec: "reconcile_notes demo_ext demo_notes demo_config_pj demo_node 5 demo_projector = (Inr (), demo_projector)"
    by (simp add: reconcile_notes_def demo_node_def plan_reconcile_windows_def next_reconcile_window_def demo_projector_def
        bindE_def read_pj_def)
  have dup: "reconcile_pending_duplicates demo_ext R demo_node demo_projector = (Inr (), demo_projector)"
    using store by (simp add: reconcile_pending_duplicates_def demo_projector_def bindE_def read_pj_def modify_pj_def
        pending_note_handoff_txs_def)
  have "projector_tick demo_ext demo_api demo_notes R demo_config_pj demo_node demo_projector = (Inr 5, ?p\<lparr>pj_audit_ticks := 2\<rparr>)"
    using rec dup tip
    by (simp add: projector_tick_def demo_node_def [THEN arg_cong, of nv_sync_height] demo_node_def [THEN arg_cong, of nv_consumed]
        need_def bindE_def tolerate_def read_pj_def saturating_sub_def demo_projector_def backfill_synthetic_claim_calldata_def
        Let_def)
  then show ?thesis by simp
qed




end
