(* ===== verification/Sweep.thy ===== *)
theory Sweep
  imports Projector_Safety
begin

text \<open>
  The sweep of the note feed leaves no block out: the windows are consecutive, the cursor moves only
  over windows that were fetched and imported, in order, and with time enough the sweep reaches the
  tip.
\<close>

section \<open>Consecutive windows\<close>

fun sweeps :: "u64 \<Rightarrow> (u64 \<times> u64) list \<Rightarrow> u64 \<Rightarrow> bool" where
  "sweeps c [] d \<longleftrightarrow> c = d"
| "sweeps c ((lo, hi) # ws) d \<longleftrightarrow> lo = c + 1 \<and> c < lo \<and> lo \<le> hi \<and> sweeps hi ws d"

lemma sweeps_append: "sweeps c (xs @ ys) d \<longleftrightarrow> (\<exists>e. sweeps c xs e \<and> sweeps e ys d)"
  by (induction c xs d rule: sweeps.induct) auto

lemma sweeps_mono: "sweeps c ws d \<Longrightarrow> c \<le> d"
  by (induction c ws d rule: sweeps.induct) auto

lemma sweeps_less: "sweeps c ws d \<Longrightarrow> ws \<noteq> [] \<Longrightarrow> c < d"
proof -
  assume "sweeps c ws d" and "ws \<noteq> []"
  then obtain lo hi us where "c < lo" "lo \<le> hi" "sweeps hi us d" by (cases ws) auto
  with sweeps_mono [of hi us d] show "c < d" by simp
qed

lemma sweeps_sorted: "sweeps c ws d \<Longrightarrow> sorted (map fst ws) \<and> (\<forall>w \<in> set ws. c < fst w)"
proof (induction c ws d rule: sweeps.induct)
  case (2 c lo hi ws d)
  then have "sorted (map fst ws)" "\<forall>w \<in> set ws. hi < fst w" "lo \<le> hi" "c < lo" by auto
  then show ?case by (auto intro: order.strict_implies_order order.strict_trans order.strict_trans1)
qed simp

text \<open>The configured chunk never makes a window end wrap around.\<close>

definition chunk_ok :: "u64 \<Rightarrow> u64 \<Rightarrow> bool" where
  "chunk_ok chunk tip \<longleftrightarrow> 1 \<le> chunk \<and> unat tip + unat chunk < 2 ^ 64"

lemma window_ok:
  fixes c tip chunk :: u64
  assumes "c < tip" and "chunk_ok chunk tip"
  shows "c < c + 1" and "c + 1 \<le> min (c + 1 + chunk - 1) tip"
proof -
  have "unat c < unat tip" "1 \<le> unat chunk" "unat tip + unat chunk < 2 ^ 64"
    using assms by (simp_all add: word_less_nat_alt word_le_nat_alt chunk_ok_def)
  then have u1: "unat (c + 1) = unat c + 1" and u2: "unat (c + chunk) = unat c + unat chunk"
    by (simp_all add: unat_add_no_overflow)
  then show "c < c + 1" by (simp add: word_less_nat_alt)
  have "c + 1 + chunk - 1 = c + chunk" by simp
  then show "c + 1 \<le> min (c + 1 + chunk - 1) tip"
    using u1 u2 \<open>unat c < unat tip\<close> \<open>1 \<le> unat chunk\<close> by (simp add: word_le_nat_alt)
qed

lemma extend_sweeps:
  assumes "chunk_ok chunk tip"
  shows "to \<le> tip \<Longrightarrow> \<exists>d. sweeps to (extend_windows chunk tip n to) d \<and> d \<le> tip"
proof (induction n arbitrary: to)
  case (Suc n)
  show ?case
  proof (cases "tip \<le> to")
    case False
    then have "to < tip" by simp
    from window_ok [OF this assms] Suc.IH [of "min (to + 1 + chunk - 1) tip"] False show ?thesis
      by (auto simp: Let_def)
  qed (use Suc.prems in auto)
qed simp

lemma plan_sweeps:
  assumes "chunk_ok chunk tip" and "c \<le> tip"
  shows "\<exists>d. sweeps c (plan_reconcile_windows chunk k c tip) d \<and> d \<le> tip"
    and "plan_reconcile_windows chunk k c tip = [] \<longleftrightarrow> c = tip"
proof -
  have "(\<exists>d. sweeps c (plan_reconcile_windows chunk k c tip) d \<and> d \<le> tip) \<and>
      (plan_reconcile_windows chunk k c tip = [] \<longleftrightarrow> c = tip)"
  proof (cases "c = tip")
    case True
    have "tip < tip + 1"
    proof -
      have "unat tip + 1 < 2 ^ 64" using assms(1) by (simp add: chunk_ok_def word_le_nat_alt)
      then show ?thesis by (simp add: word_less_nat_alt unat_add_no_overflow)
    qed
    with True show ?thesis by (simp add: plan_reconcile_windows_def next_reconcile_window_def)
  next
    case False
    then have "c < tip" using assms(2) by simp
    note w = window_ok [OF this assms(1)]
    have "c + 1 \<le> tip" using w(2) by simp
    moreover obtain d where "sweeps (min (c + 1 + chunk - 1) tip) (extend_windows chunk tip (k - 1) (min (c + 1 + chunk - 1) tip)) d"
        "d \<le> tip"
      using extend_sweeps [OF assms(1), of "min (c + 1 + chunk - 1) tip" "k - 1"] by auto
    ultimately show ?thesis
      using w False by (auto simp: plan_reconcile_windows_def next_reconcile_window_def Let_def not_less)
  qed
  then show "\<exists>d. sweeps c (plan_reconcile_windows chunk k c tip) d \<and> d \<le> tip"
    and "plan_reconcile_windows chunk k c tip = [] \<longleftrightarrow> c = tip" by blast+
qed

section \<open>What a swept window leaves behind\<close>

definition persisted :: "mem_store \<Rightarrow> b256 \<Rightarrow> bool" where
  "persisted s n \<longleftrightarrow> hm_get (b2agg_note_ids s) n \<noteq> None"

text \<open>A created note was seen, in the client or at the node; a bridge-out's identity is durable.\<close>

definition seen_note :: "note_api \<Rightarrow> node_view \<Rightarrow> mem_store \<Rightarrow> b256 list \<Rightarrow> b256 \<Rightarrow> bool" where
  "seen_note N V s candidates i \<longleftrightarrow>
     (\<exists>visible r. nv_visible_notes V candidates = Some visible \<and> r \<in> set visible \<and> in_id r = Some i \<and>
        (\<forall>n. is_b2agg_note N r \<and> in_nullifier r = Some n \<longrightarrow> persisted s n)) \<or>
     (\<exists>missing fetched f. nv_notes_by_id V missing = Some fetched \<and> f \<in> set fetched \<and> fn_id f = i \<and>
        (\<forall>n body. fn_public f = Some (n, body) \<and> is_b2agg_note N body \<longrightarrow> persisted s n))"

definition window_swept :: "note_api \<Rightarrow> node_view \<Rightarrow> mem_store \<Rightarrow> u64 \<times> u64 \<Rightarrow> bool" where
  "window_swept N V s w \<longleftrightarrow>
     (\<exists>candidates. nv_sync_note_ids V (fst w) (snd w) = Some candidates \<and>
        (\<forall>i \<in> set candidates. seen_note N V s candidates i))"

lemma seen_note_mono:
  assumes "seen_note N V s cs i" and "\<And>n. persisted s n \<Longrightarrow> persisted s' n"
  shows "seen_note N V s' cs i"
proof -
  from assms(1) consider
      visible r where "nv_visible_notes V cs = Some visible" "r \<in> set visible" "in_id r = Some i"
        "\<forall>n. is_b2agg_note N r \<and> in_nullifier r = Some n \<longrightarrow> persisted s n"
    | missing fetched f where "nv_notes_by_id V missing = Some fetched" "f \<in> set fetched" "fn_id f = i"
        "\<forall>n body. fn_public f = Some (n, body) \<and> is_b2agg_note N body \<longrightarrow> persisted s n"
    unfolding seen_note_def by auto
  then show ?thesis by cases (use assms(2) in \<open>unfold seen_note_def, blast+\<close>)
qed

lemma window_swept_mono:
  "window_swept N V s w \<Longrightarrow> (\<And>n. persisted s n \<Longrightarrow> persisted s' n) \<Longrightarrow> window_swept N V s' w"
  unfolding window_swept_def by (blast intro: seen_note_mono)

lemma persisted_put: "persisted (put_b2agg_note_ids es s) n \<longleftrightarrow> persisted s n \<or> n \<in> fst ` set es"
proof -
  have "hm_get (fold (\<lambda>(k, v) m. hm_or_insert k v m) es m) n \<noteq> None \<longleftrightarrow> hm_get m n \<noteq> None \<or> n \<in> fst ` set es" for m
    by (induction es arbitrary: m) (auto split: option.splits)
  then show ?thesis by (simp add: persisted_def put_b2agg_note_ids_def)
qed

lemma b2agg_identities_cover:
  "r \<in> set rs \<Longrightarrow> is_b2agg_note N r \<Longrightarrow> in_nullifier r = Some n \<Longrightarrow> in_id r = Some i \<Longrightarrow> n \<in> fst ` set (b2agg_identities N rs)"
  unfolding b2agg_identities_def by (rule image_eqI [of _ _ "(n, i)"]) (auto simp: in_map_filter)

lemma fetched_identities_cover:
  "f \<in> set fs \<Longrightarrow> fn_public f = Some (n, body) \<Longrightarrow> is_b2agg_note N body \<Longrightarrow> n \<in> fst ` set (fetched_identities N fs)"
  unfolding fetched_identities_def
  by (rule image_eqI [of _ _ "(n, fn_id f)"]) (auto simp: in_map_filter intro: bexI [of _ f])

definition swept_to :: "u64 \<Rightarrow> b256 set \<Rightarrow> projector \<Rightarrow> bool" where
  "swept_to c K p \<longleftrightarrow> pj_reconcile_cursor p = c \<and> reconcile_cursor (pj_store p) = c \<and> (\<forall>n \<in> K. persisted (pj_store p) n)"

lemma reconcile_cursor_prepared:
  "reconcile_cursor (snd (confirm_prepared_note_handoffs E ids s)) = reconcile_cursor s"
  "b2agg_note_ids (snd (confirm_prepared_note_handoffs E ids s)) = b2agg_note_ids s"
proof -
  have one: "reconcile_cursor (snd (confirm_note_handoff E t c st)) = reconcile_cursor st \<and>
      b2agg_note_ids (snd (confirm_note_handoff E t c st)) = b2agg_note_ids st" for t c st
    by (simp add: confirm_note_handoff_def split: option.split)
  have "reconcile_cursor (fold (\<lambda>(t, c) st. snd (confirm_note_handoff E t c st)) ms st) = reconcile_cursor st \<and>
      b2agg_note_ids (fold (\<lambda>(t, c) st. snd (confirm_note_handoff E t c st)) ms st) = b2agg_note_ids st" for ms st
    by (induction ms arbitrary: st) (simp_all add: one case_prod_unfold)
  then show "reconcile_cursor (snd (confirm_prepared_note_handoffs E ids s)) = reconcile_cursor s"
    "b2agg_note_ids (snd (confirm_prepared_note_handoffs E ids s)) = b2agg_note_ids s"
    unfolding confirm_prepared_note_handoffs_def Let_def confirm_prepared_as_fold [unfolded Let_def] by simp_all
qed

lemma swept_put: "stableE (swept_to c K) (write_pj (put_b2agg_note_ids es))"
  by (simp add: stableE_def swept_to_def write_pj_def persisted_put) (simp add: put_b2agg_note_ids_def)

lemma swept_confirm: "stableE (swept_to c K) (write_pj (\<lambda>s. snd (confirm_prepared_note_handoffs E ids s)))"
  by (simp add: stableE_def swept_to_def write_pj_def persisted_def reconcile_cursor_prepared)

lemma swept_import: "stableE (swept_to c K) (import_reconcile_window N V cs)"
proof -
  have e: "stableE (swept_to c K) (import_each V ids)" for ids
    by (induction ids) (auto intro: stableE_okE stableE_errE split: import_result.split simp del: okE_app errE_app)
  show ?thesis
    unfolding import_reconcile_window_def persist_b2agg_note_ids_def persist_missing_b2agg_note_ids_def Let_def
      ensure_complete_note_response_def
    by (intro stable_need stableE_bindE stableE_if stableE_okE stableE_errE swept_put)
      (auto intro: stableE_okE stableE_errE e split: import_result.split)
qed

lemma bindE_InrE:
  assumes "bindE m f s = (Inr y, t)"
  obtains x u where "m s = (Inr x, u)" and "f x u = (Inr y, t)"
  using assms by (rule_tac m = m and f = f and s = s in bindE_cases) auto

lemma need_Inr: "need e v s = (Inr x, t) \<longleftrightarrow> v = Some x \<and> t = s"
  by (auto simp: need_def split: option.split)

lemma import_sees_notes:
  assumes "import_reconcile_window N V cs p = (Inr (), p')" and i: "i \<in> set cs"
  shows "seen_note N V (pj_store p') cs i"
proof -
  obtain visible p1 p2 where vis: "nv_visible_notes V cs = Some visible"
    and own: "persist_b2agg_note_ids N visible p1 = (Inr (), p2)"
    and rest: "persist_missing_b2agg_note_ids N V (filter (\<lambda>i. i \<notin> known_ids visible) cs) p2 = (Inr (), p')"
    using assms(1) unfolding import_reconcile_window_def Let_def
    by (elim bindE_InrE) (auto simp: need_Inr)
  define missing where "missing = filter (\<lambda>i. i \<notin> known_ids visible) cs"
  have p2_def: "p2 = p1\<lparr>pj_store := put_b2agg_note_ids (b2agg_identities N visible) (pj_store p1)\<rparr>"
    using own by (simp add: persist_b2agg_note_ids_def write_pj_def)
  have fin: "persist_missing_b2agg_note_ids N V missing p2 = (Inr (), p')"
    using rest by (simp add: missing_def)
  have kept: "persisted (pj_store p2) n \<Longrightarrow> persisted (pj_store p') n" for n
    using fin unfolding persist_missing_b2agg_note_ids_def ensure_complete_note_response_def
    by (auto elim!: bindE_InrE simp: need_Inr write_pj_def persisted_put split: if_splits)
  show ?thesis
  proof (cases "i \<in> known_ids visible")
    case True
    then obtain r where r: "r \<in> set visible" "in_id r = Some i" by (auto simp: known_ids_def in_map_filter)
    have "persisted (pj_store p') n" if "is_b2agg_note N r" "in_nullifier r = Some n" for n
      using b2agg_identities_cover [OF r(1) that r(2)] kept [of n] by (simp add: p2_def persisted_put)
    then show ?thesis unfolding seen_note_def using vis r by blast
  next
    case False
    then have "i \<in> set missing" using i by (simp add: missing_def)
    then obtain fetched where f: "nv_notes_by_id V missing = Some fetched" "set (map fn_id fetched) = set missing"
      "p' = p2\<lparr>pj_store := put_b2agg_note_ids (fetched_identities N fetched) (pj_store p2)\<rparr>"
      using fin unfolding persist_missing_b2agg_note_ids_def ensure_complete_note_response_def
      by (auto elim!: bindE_InrE simp: need_Inr write_pj_def split: if_splits)
    then obtain g where g: "g \<in> set fetched" "fn_id g = i" using \<open>i \<in> set missing\<close> by (metis (no_types, lifting) image_iff set_map)
    have "persisted (pj_store p') n" if "fn_public g = Some (n, body)" "is_b2agg_note N body" for n body
      using fetched_identities_cover [OF g(1) that] by (simp add: f(3) persisted_put)
    then show ?thesis unfolding seen_note_def using f(1) g by blast
  qed
qed

lemma window_run:
  assumes at: "swept_to c K p" and run: "reconcile_window E N V (lo, hi) p = (r, p')"
  shows "(\<exists>e. r = Inl e) \<and> swept_to c K p' \<or> r = Inr () \<and> swept_to hi K p' \<and> window_swept N V (pj_store p') (lo, hi)"
proof (cases "nv_sync_note_ids V lo hi")
  case None
  then show ?thesis using at run by (auto simp: reconcile_window_def need_def)
next
  case (Some cs)
  let ?work = "if cs = [] then okE ()
    else bindE (write_pj (\<lambda>s. snd (confirm_prepared_note_handoffs E (map (na_id_text N) cs) s))) (\<lambda>_.
         import_reconcile_window N V cs)"
  have run: "bindE ?work (\<lambda>_. advance_reconcile_cursor hi) p = (r, p')"
    using run Some by (simp add: reconcile_window_def need_def)
  have st: "stableE (swept_to c K) ?work" by (intro stableE_if stableE_okE stableE_bindE swept_confirm swept_import)
  from bindE_cases [of ?work p "\<lambda>_. advance_reconcile_cursor hi"] show ?thesis
  proof cases
    case (err e q)
    then show ?thesis using run stableE_D [OF st at err(1)] by auto
  next
    case (ok x q)
    have at': "swept_to c K q" by (rule stableE_D [OF st at ok(1)])
    have seen: "\<forall>i \<in> set cs. seen_note N V (pj_store q) cs i"
      using ok(1) by (auto elim!: bindE_InrE intro: import_sees_notes split: if_splits)
    have r: "r = Inr ()" and p': "p' = q\<lparr>pj_store := set_reconcile_cursor hi (pj_store q), pj_reconcile_cursor := hi\<rparr>"
      using run ok(2) by (simp_all add: advance_reconcile_cursor_def write_pj_def modify_pj_def bindE_def)
    have same: "persisted (pj_store p') n = persisted (pj_store q) n" for n
      by (simp add: p' persisted_def set_reconcile_cursor_def)
    have "window_swept N V (pj_store p') (lo, hi)"
      unfolding window_swept_def using Some seen seen_note_mono same by auto
    moreover have "swept_to hi K p'" using at' same by (simp add: swept_to_def p' set_reconcile_cursor_def)
    ultimately show ?thesis using r by blast
  qed
qed

lemma windows_run:
  assumes "swept_to c K p" and "sweeps c ws d" and "forE (reconcile_window E N V) ws p = (r, p')"
  shows "\<exists>vs c'. sweeps c vs c' \<and> c' \<le> d \<and> swept_to c' K p' \<and> (\<forall>w \<in> set vs. window_swept N V (pj_store p') w) \<and>
           (r = Inr () \<longrightarrow> c' = d)"
  using assms
proof (induction ws arbitrary: c K p)
  case Nil
  then show ?case by (intro exI [of _ "[]"] exI [of _ c]) simp
next
  case (Cons w ws)
  obtain lo hi where w: "w = (lo, hi)" by (cases w)
  have sw: "lo = c + 1" "c < lo" "lo \<le> hi" "sweeps hi ws d" using Cons.prems(2) by (auto simp: w)
  from bindE_cases [of "reconcile_window E N V w" p "\<lambda>_. forE (reconcile_window E N V) ws"] show ?case
  proof cases
    case (err e q)
    then have "r = Inl e" "p' = q" using Cons.prems(3) by simp_all
    moreover have "swept_to c K q" using window_run [OF Cons.prems(1)] err(1) w by blast
    ultimately show ?thesis
      using sweeps_mono [OF Cons.prems(2)] by (intro exI [of _ "[]"] exI [of _ c]) simp
  next
    case (ok x q)
    have q: "swept_to hi K q" "window_swept N V (pj_store q) w"
      using window_run [OF Cons.prems(1), of E N V lo hi] ok(1) w by auto
    define K' where "K' = {n. persisted (pj_store q) n}"
    have "K \<subseteq> K'" using q(1) by (auto simp: K'_def swept_to_def)
    have "swept_to hi K' q" using q(1) by (simp add: swept_to_def K'_def)
    moreover have "forE (reconcile_window E N V) ws q = (r, p')" using ok(2) Cons.prems(3) by simp
    ultimately obtain vs c' where v: "sweeps hi vs c'" "c' \<le> d" "swept_to c' K' p'"
        "\<forall>w \<in> set vs. window_swept N V (pj_store p') w" "r = Inr () \<longrightarrow> c' = d"
      using Cons.IH [OF _ sw(4)] by blast
    have "window_swept N V (pj_store p') w"
      by (rule window_swept_mono [OF q(2)]) (use v(3) in \<open>simp add: swept_to_def K'_def\<close>)
    moreover have "swept_to c' K p'" using v(3) \<open>K \<subseteq> K'\<close> by (auto simp: swept_to_def)
    ultimately show ?thesis
      using v sw by (intro exI [of _ "w # vs"] exI [of _ c']) (simp add: w)
  qed
qed

section \<open>The whole sweep\<close>

lemma sort_plan:
  assumes "chunk_ok chunk tip" and "c \<le> tip"
  shows "sort_key fst (plan_reconcile_windows chunk k c tip) = plan_reconcile_windows chunk k c tip"
  using plan_sweeps(1) [OF assms] sweeps_sorted by (blast intro: sort_key_id_if_sorted)

lemma batch_run:
  assumes ok: "chunk_ok chunk tip" "c \<le> tip" and at: "swept_to c K p"
    and run: "forE (reconcile_window E N V) (plan_reconcile_windows chunk k c tip) p = (r, p')"
  shows "\<exists>vs c'. sweeps c vs c' \<and> c' \<le> tip \<and> swept_to c' K p' \<and> (\<forall>w \<in> set vs. window_swept N V (pj_store p') w) \<and>
           (r = Inr () \<longrightarrow> c < tip \<longrightarrow> c < c')"
proof -
  obtain d where d: "sweeps c (plan_reconcile_windows chunk k c tip) d" "d \<le> tip" using plan_sweeps(1) [OF ok] by blast
  have "c < d" if "c < tip" using sweeps_less [OF d(1)] plan_sweeps(2) [OF ok] that by simp
  with windows_run [OF at d(1) run] d(2) show ?thesis by (meson order.trans)
qed

text \<open>A batch that succeeds moves the cursor, so as many batches as blocks are missing reach the tip.\<close>

lemma batches_run:
  assumes ok: "chunk_ok (pc_reconcile_chunk C) tip"
  shows "c \<le> tip \<Longrightarrow> swept_to c K p \<Longrightarrow> reconcile_batches E N C V tip n p = (r, p') \<Longrightarrow>
    \<exists>vs c'. sweeps c vs c' \<and> c' \<le> tip \<and> swept_to c' K p' \<and> (\<forall>w \<in> set vs. window_swept N V (pj_store p') w) \<and>
      (r = Inr () \<longrightarrow> c < tip \<longrightarrow> c < c') \<and> (r = Inr () \<longrightarrow> unat tip \<le> unat c + Suc n \<longrightarrow> c' = tip)"
proof (induction n arbitrary: c K p)
  case 0
  have c: "pj_reconcile_cursor p = c" using 0(2) by (simp add: swept_to_def)
  have "forE (reconcile_window E N V) (plan_reconcile_windows (pc_reconcile_chunk C) (pc_reconcile_concurrency C) c tip) p = (r, p')"
    using 0(3) by (simp add: bindE_def read_pj_def c sort_plan [OF ok 0(1)])
  from batch_run [OF ok 0(1,2) this] obtain vs c' where v: "sweeps c vs c'" "c' \<le> tip" "swept_to c' K p'"
      "\<forall>w \<in> set vs. window_swept N V (pj_store p') w" "r = Inr () \<longrightarrow> c < tip \<longrightarrow> c < c'" by blast
  have "c' = tip" if "r = Inr ()" "unat tip \<le> unat c + 1"
  proof (cases "c < tip")
    case True
    then have "unat c < unat c'" "unat c' \<le> unat tip" using v that by (simp_all add: word_less_nat_alt word_le_nat_alt)
    then show ?thesis using that by (simp add: word_unat_eq_iff)
  next
    case False
    then show ?thesis using 0(1) v(2) sweeps_mono [OF v(1)] by simp
  qed
  with v show ?case by auto
next
  case (Suc n)
  have c: "pj_reconcile_cursor p = c" using Suc.prems(2) by (simp add: swept_to_def)
  let ?ws = "plan_reconcile_windows (pc_reconcile_chunk C) (pc_reconcile_concurrency C) c tip"
  have run: "(if ?ws = [] then okE () else bindE (forE (reconcile_window E N V) ?ws) (\<lambda>_. reconcile_batches E N C V tip n)) p
      = (r, p')"
    using Suc.prems(3) by (auto simp: bindE_def read_pj_def c sort_plan [OF ok Suc.prems(1)] Let_def split: if_splits)
  show ?case
  proof (cases "?ws = []")
    case True
    then have "c = tip" using plan_sweeps(2) [OF ok Suc.prems(1)] by simp
    then show ?thesis using run True Suc.prems(2) by (intro exI [of _ "[]"] exI [of _ c]) simp
  next
    case False
    then have "c < tip" using plan_sweeps(2) [OF ok Suc.prems(1)] Suc.prems(1) by (metis order.not_eq_order_implies_strict)
    from bindE_cases [of "forE (reconcile_window E N V) ?ws" p "\<lambda>_. reconcile_batches E N C V tip n"] show ?thesis
    proof cases
      case (err e q)
      then have r: "r = Inl e" "p' = q" using run False by simp_all
      show ?thesis using batch_run [OF ok Suc.prems(1,2) err(1)] r by auto
    next
      case (ok x q)
      from batch_run [OF assms Suc.prems(1,2), of E N V "pc_reconcile_concurrency C" "Inr ()" q] ok(1)
      obtain us e where u: "sweeps c us e" "e \<le> tip" "swept_to e K q" "\<forall>w \<in> set us. window_swept N V (pj_store q) w" "c < e"
        using \<open>c < tip\<close> by auto
      define K' where "K' = {n. persisted (pj_store q) n}"
      have K': "K \<subseteq> K'" "swept_to e K' q" using u(3) by (auto simp: K'_def swept_to_def)
      have "reconcile_batches E N C V tip n q = (r, p')" using run False ok(2) by simp
      from Suc.IH [OF u(2) K'(2) this] obtain vs c' where v: "sweeps e vs c'" "c' \<le> tip" "swept_to c' K' p'"
          "\<forall>w \<in> set vs. window_swept N V (pj_store p') w"
          "r = Inr () \<longrightarrow> unat tip \<le> unat e + Suc n \<longrightarrow> c' = tip" by blast
      have "\<forall>w \<in> set us. window_swept N V (pj_store p') w"
        using u(4) v(3) by (auto simp: swept_to_def K'_def intro: window_swept_mono)
      moreover have "swept_to c' K p'" using v(3) K'(1) by (auto simp: swept_to_def)
      moreover have "sweeps c (us @ vs) c'" using u(1) v(1) by (auto simp: sweeps_append)
      moreover have "c < c'" using u(5) sweeps_mono [OF v(1)] by simp
      moreover have "unat c < unat e" using u(5) by (simp add: word_less_nat_alt)
      ultimately show ?thesis
        using v(2,4,5) by (intro exI [of _ "us @ vs"] exI [of _ c']) auto
    qed
  qed
qed

text \<open>
  C11. The sweep of the note feed leaves no block behind its cursor. Whatever fails on the way, the
  cursor has moved over consecutive windows that were all fetched, in which every created note was seen
  and every bridge-out's identity is durable; the durable cursor is the one in memory and does not pass
  the tip. A sweep that succeeds has moved, and has reached the tip when its time allows a batch for
  every missing block.
\<close>

theorem sweep_leaves_no_gap:
  assumes "chunk_ok (pc_reconcile_chunk C) tip" and "pj_reconcile_cursor p \<le> tip"
    and "reconcile_cursor (pj_store p) = pj_reconcile_cursor p"
    and "reconcile_notes E N C V tip p = (r, p')"
  shows "\<exists>ws. sweeps (pj_reconcile_cursor p) ws (pj_reconcile_cursor p') \<and>
      (\<forall>w \<in> set ws. window_swept N V (pj_store p') w) \<and>
      pj_reconcile_cursor p' \<le> tip \<and> reconcile_cursor (pj_store p') = pj_reconcile_cursor p' \<and>
      (r = Inr () \<longrightarrow> pj_reconcile_cursor p < tip \<longrightarrow> pj_reconcile_cursor p < pj_reconcile_cursor p') \<and>
      (r = Inr () \<longrightarrow> unat tip \<le> unat (pj_reconcile_cursor p) + Suc (nv_batches V) \<longrightarrow> pj_reconcile_cursor p' = tip)"
  using batches_run [OF assms(1,2), of "{}" p E N V "nv_batches V" r p'] assms(3,4)
  by (auto simp: swept_to_def reconcile_notes_def)

theorem sweep_leaves_no_gap_witness:
  "let p = demo_projector\<lparr>pj_reconcile_cursor := 3, pj_store := demo_exit_store\<lparr>reconcile_cursor := 3\<rparr>\<rparr>;
       V = demo_node\<lparr>nv_sync_note_ids := (\<lambda>lo hi. if lo \<le> 5 \<and> 5 \<le> hi then Some [21] else Some [])\<rparr>;
       C = demo_config_pj\<lparr>pc_reconcile_chunk := 1\<rparr>;
       p' = snd (reconcile_notes demo_ext demo_notes C V 5 p)
   in chunk_ok 1 5 \<and> (\<exists>ws. sweeps 3 ws (pj_reconcile_cursor p') \<and> (\<forall>w \<in> set ws. window_swept demo_notes V (pj_store p') w))"
proof -
  let ?p = "demo_projector\<lparr>pj_reconcile_cursor := 3, pj_store := demo_exit_store\<lparr>reconcile_cursor := 3\<rparr>\<rparr>"
  let ?V = "demo_node\<lparr>nv_sync_note_ids := (\<lambda>lo hi. if lo \<le> 5 \<and> 5 \<le> hi then Some [21] else Some [])\<rparr>"
  let ?C = "demo_config_pj\<lparr>pc_reconcile_chunk := 1\<rparr>"
  have chunk: "chunk_ok (pc_reconcile_chunk ?C) 5" by (simp add: chunk_ok_def)
  have cur: "pj_reconcile_cursor ?p \<le> 5" "reconcile_cursor (pj_store ?p) = pj_reconcile_cursor ?p" by simp_all
  show ?thesis
    using sweep_leaves_no_gap [OF chunk cur prod.collapse [symmetric], of demo_ext demo_notes ?V] chunk
    by (simp add: Let_def) blast
qed

end
