(* ===== verification/Spec2Isabelle.thy ===== *)
theory Spec2Isabelle
  imports Trackers Applied_State Sync_Listener Admission_Safety Projector_Safety Sweep
begin

text \<open>
  A verification development for \<^verbatim>\<open>miden-agglayer\<close>, the service that stands between the AggLayer
  bridge stack and a Miden node: it accepts Ethereum transactions (bridge claims and global exit
  root updates) over JSON-RPC, carries them to Miden as notes, and answers \<^verbatim>\<open>eth_*\<close> queries with
  synthetic blocks, receipts and logs projected from what Miden consumed.
\<close>

section \<open>Requests and the writer together\<close>

text \<open>
  The write side of the service as one machine: raw transactions arrive and are admitted or
  refused, the worker takes jobs, the sweeper runs, other tasks change the store, and shutdown
  closes the queue, in any order.
\<close>

inductive gateway_step :: "externals \<Rightarrow> account_api \<Rightarrow> service_config \<Rightarrow> request_api \<Rightarrow> service \<Rightarrow> service \<Rightarrow> bool"
  for E A cfg R where
  request: "service_send_raw_txn E cfg R Q input sv = Some (r, sv') \<Longrightarrow> gateway_step E A cfg R sv sv'"
| work: "run_once E A cfg D sv = Some sv' \<Longrightarrow> gateway_step E A cfg R sv sv'"
| sweeping: "gateway_step E A cfg R sv (sweep E cfg now sv)"
| others: "gateway_step E A cfg R sv (sv\<lparr>sv_store := s\<rparr>)"
| shutdown: "sv_writer sv = Some w \<Longrightarrow> gateway_step E A cfg R sv (sv\<lparr>sv_writer := Some (w\<lparr>wh_closed := True\<rparr>)\<rparr>)"

definition authorized :: "service_config \<Rightarrow> request_api \<Rightarrow> write_job \<Rightarrow> bool" where
  "authorized cfg R job =
     (envelope_chain_id (wj_envelope job) = Some (cfg_chain_id cfg) \<and>
      ra_recover_signer R (wj_envelope job) = Some (wj_signer job) \<and>
      (cfg_allow_any_signer cfg \<or> is_signer_allowed (cfg_allowed_signers cfg) (wj_signer job)))"

definition gateway_good :: "service_config \<Rightarrow> request_api \<Rightarrow> nat \<Rightarrow> service \<Rightarrow> bool" where
  "gateway_good cfg R depth sv =
     (writer_good depth sv \<and> (case sv_writer sv of None \<Rightarrow> True | Some w \<Rightarrow> list_all (authorized cfg R) (wh_queue w)))"

lemma authenticate_authorizes:
  "authenticate E cfg R input = Inr q \<Longrightarrow>
     authorized cfg R (into_job decoded (sr_envelope q) (sr_signer q) (sr_hash q) i)"
  by (auto simp: authenticate_def authorized_def into_job_def split: option.splits if_splits sum.splits)

lemma run_once_queue:
  assumes "run_once E A cfg D sv = Some sv'" and "sv_writer sv = Some w"
  shows "\<exists>w'. sv_writer sv' = Some w' \<and> wh_queue w' = tl (wh_queue w)"
proof (cases "wh_queue w")
  case Nil
  with assms show ?thesis by (simp add: run_once_def)
next
  case (Cons job rest)
  then have "process E A cfg D job (sv\<lparr>sv_writer := Some (w\<lparr>wh_queue := rest\<rparr>)\<rparr>) = Some sv'"
    using assms by (simp add: run_once_def)
  from process_ends [OF _ this] job_ended_depth Cons show ?thesis by fastforce
qed

lemma request_good:
  assumes "service_send_raw_txn E cfg R Q input sv = Some (r, sv')" and "lru_ok E" and "gateway_good cfg R depth sv"
  shows "gateway_good cfg R depth sv'"
proof (cases "sv_writer sv' = sv_writer sv")
  case True
  with assms(3) show ?thesis by (simp add: gateway_good_def writer_good_def)
next
  case False
  then obtain q where q: "authenticate E cfg R input = Inr q" "own_job_queued E Q q sv sv'" "\<not> request_inflight q sv"
    using send_queues [OF assms(1,2)] by blast
  let ?job = "\<lambda>d. into_job d (sr_envelope q) (sr_signer q) (sr_hash q) (re_job_id Q)"
  obtain w w' d now where w: "sv_writer sv = Some w" "sv_writer sv' = Some w'" "try_enqueue (?job d) now w = (Inr (), w')"
    using q(2) by (auto simp: own_job_queued_def)
  have "\<not> is_inflight (wj_eth_tx_hash (?job d)) w" using q(3) w(1) by (simp add: request_inflight_def into_job_def)
  from writer_step.enqueue [OF w(1) this w(3), where cfg = cfg] have "writer_good depth (sv\<lparr>sv_writer := Some w'\<rparr>)"
    by (rule writer_good_step) (use assms(3) in \<open>simp add: gateway_good_def\<close>)
  then have "writer_good depth sv'" using w(2) by (simp add: writer_good_def)
  moreover have "wh_queue w' = wh_queue w @ [?job d]" using w(3) by (auto simp: try_enqueue_def Let_def split: if_splits)
  ultimately show ?thesis using assms(3) w authenticate_authorizes [OF q(1)] by (simp add: gateway_good_def)
qed

lemma gateway_good_step:
  "gateway_step E A cfg R sv sv' \<Longrightarrow> lru_ok E \<Longrightarrow> gateway_good cfg R depth sv \<Longrightarrow> gateway_good cfg R depth sv'"
proof (induction rule: gateway_step.induct)
  case (request Q input sv r sv')
  then show ?case by (blast intro: request_good)
next
  case (work D sv sv')
  then obtain w where w: "sv_writer sv = Some w" by (auto simp: gateway_good_def writer_good_def)
  have "list_all (authorized cfg R) (wh_queue w) \<Longrightarrow> list_all (authorized cfg R) (tl (wh_queue w))"
    by (cases "wh_queue w") simp_all
  with work run_once_queue [OF work(1) w] w show ?case
    by (auto simp: gateway_good_def intro: run_once_good)
next
  case (sweeping sv now)
  then show ?case
    using writer_good_step [OF writer_step.sweeping, of depth sv E cfg now]
    by (auto simp: gateway_good_def sweep_def on_inflight_def Let_def split: option.splits)
next
  case (shutdown sv w)
  then show ?case
    using writer_good_step [OF writer_step.shutdown, of sv w depth] by (auto simp: gateway_good_def)
qed (simp add: gateway_good_def writer_good_def)



end
